(* ===== verification/Prelude.thy ===== *)
theory Prelude
  imports Main "HOL-Library.Word" "HOL-Library.AList"
begin

text \<open>
  Shared vocabulary of the development.

  \<^item> Machine integers: \<open>u8\<close> to \<open>u64\<close> are the unsigned C++ types of the sources; a C++
    \<open>float\<close> is kept as its 32-bit object representation \<open>f32\<close>.
  \<^item> Outcomes: C++ code that may read or write out of bounds, convert a value out of range
    or throw returns \<open>cpp_error + 'a\<close>; \<open>ebind\<close> sequences such computations and
    \<open>efold\<close> is a loop whose body may fail.
  \<^item> Byte order: \<open>le_bytes\<close> is the object representation of an integer on the
    little-endian targets of \<^verbatim>\<open>someip-feeder/toolchains\<close> (x86_64 and armv8).
  \<^item> Buffers: \<open>buf_read\<close>, \<open>buf_slice\<close> and \<open>buf_write\<close> are indexing and
    \<open>memcpy\<close> on a byte array of known size; the locale \<open>byte_buffer\<close> states their
    contract and is interpreted on them.
  \<^item> The parts of the C++ library the sources use on text: \<open>std::to_string\<close>,
    \<open>std::stoi\<close> with base 0, \<open>std::string::find\<close>, hexadecimal output.
  \<^item> Reachability over a step relation and the locale \<open>invariant_system\<close>, used by the
    thread models.
\<close>

named_theorems bind_simps \<open>evaluation of fallible computations\<close>
named_theorems byte_simps \<open>bytes and words\<close>

type_synonym u8 = "8 word"
type_synonym u16 = "16 word"
type_synonym u32 = "32 word"
type_synonym u64 = "64 word"
type_synonym f32 = "32 word"
type_synonym bytes = "u8 list"
type_synonym env = "string \<Rightarrow> string option"

section \<open>Outcomes\<close>

datatype cpp_error =
    OOB_read
  | OOB_write
  | Float_to_int
  | Invalid_argument
  | Out_of_range
  | Json_error

fun ebind :: "'e + 'a \<Rightarrow> ('a \<Rightarrow> 'e + 'b) \<Rightarrow> 'e + 'b" where
  "ebind (Inl e) f = Inl e"
| "ebind (Inr x) f = f x"

fun efold :: "('x \<Rightarrow> 's \<Rightarrow> 'e + 's) \<Rightarrow> 'x list \<Rightarrow> 's \<Rightarrow> 'e + 's" where
  "efold f [] s = Inr s"
| "efold f (x # xs) s = ebind (f x s) (efold f xs)"

section \<open>Byte order\<close>

definition le_bytes :: "nat \<Rightarrow> 'a::len word \<Rightarrow> bytes" where
  "le_bytes n w = map (\<lambda>i. ucast (drop_bit (8 * i) w)) [0..<n]"

fun le_word :: "bytes \<Rightarrow> 'a::len word" where
  "le_word [] = 0"
| "le_word (b # bs) = or (ucast b) (push_bit 8 (le_word bs))"

definition be_word :: "bytes \<Rightarrow> 'a::len word" where
  "be_word bs = le_word (rev bs)"

section \<open>Buffers\<close>

definition buf_read :: "bytes \<Rightarrow> nat \<Rightarrow> cpp_error + u8" where
  "buf_read buf i = (if i < length buf then Inr (buf ! i) else Inl OOB_read)"

definition buf_slice :: "bytes \<Rightarrow> nat \<Rightarrow> nat \<Rightarrow> cpp_error + bytes" where
  "buf_slice buf off n =
     (if off + n \<le> length buf then Inr (take n (drop off buf)) else Inl OOB_read)"

definition buf_write :: "bytes \<Rightarrow> nat \<Rightarrow> bytes \<Rightarrow> cpp_error + bytes" where
  "buf_write buf off bs =
     (if off + length bs \<le> length buf
      then Inr (take off buf @ bs @ drop (off + length bs) buf) else Inl OOB_write)"

section \<open>Text\<close>

definition digit_char :: "nat \<Rightarrow> char" where
  "digit_char d = (char_of (if d < 10 then 48 + d else 87 + d) :: char)"

fun nat_to_string :: "nat \<Rightarrow> string" where
  "nat_to_string n =
     (if n < 10 then [digit_char n] else nat_to_string (n div 10) @ [digit_char (n mod 10)])"

declare nat_to_string.simps [simp del]

definition to_string :: "int \<Rightarrow> string" where
  "to_string i = (if i < 0 then CHR ''-'' # nat_to_string (nat (- i)) else nat_to_string (nat i))"

definition hex2 :: "u8 \<Rightarrow> string" where
  "hex2 b = [digit_char (unat b div 16), digit_char (unat b mod 16)]"

definition is_space :: "char \<Rightarrow> bool" where
  "is_space c = (c = CHR '' '' \<or> (9 \<le> (of_char c :: nat) \<and> (of_char c :: nat) \<le> 13))"

definition digit_val :: "char \<Rightarrow> nat" where
  "digit_val c = (let k = (of_char c :: nat) in
     if 48 \<le> k \<and> k \<le> 57 then k - 48
     else if 97 \<le> k \<and> k \<le> 122 then k - 87
     else if 65 \<le> k \<and> k \<le> 90 then k - 55
     else 99)"

definition is_digit :: "nat \<Rightarrow> char \<Rightarrow> bool" where
  "is_digit base c = (digit_val c < base)"

definition digits_val :: "nat \<Rightarrow> string \<Rightarrow> nat" where
  "digits_val base cs = foldl (\<lambda>a c. base * a + digit_val c) 0 cs"

definition strtol_base :: "string \<Rightarrow> nat \<times> string" where
  "strtol_base cs =
     (case cs of
        z # x # d # _ \<Rightarrow>
          if z = CHR ''0'' \<and> (x = CHR ''x'' \<or> x = CHR ''X'') \<and> is_digit 16 d
          then (16, tl (tl cs)) else if z = CHR ''0'' then (8, cs) else (10, cs)
      | z # _ \<Rightarrow> if z = CHR ''0'' then (8, cs) else (10, cs)
      | [] \<Rightarrow> (10, cs))"

definition split_sign :: "string \<Rightarrow> bool \<times> string" where
  "split_sign s =
     (case s of c # r \<Rightarrow> if c = CHR ''-'' then (True, r)
                         else if c = CHR ''+'' then (False, r) else (False, s)
      | [] \<Rightarrow> (False, s))"

definition in_int32 :: "int \<Rightarrow> bool" where
  "in_int32 v = (- (2 ^ 31) \<le> v \<and> v < 2 ^ 31)"

text \<open>\<open>std::stoi (s, nullptr, 0)\<close>: the base follows the prefix, and a text that starts
  with no number or holds a value outside \<open>int\<close> throws.\<close>

definition stoi0 :: "string \<Rightarrow> cpp_error + int" where
  "stoi0 s =
     (let (neg, r) = split_sign (dropWhile is_space s);
          (base, t) = strtol_base r;
          ds = takeWhile (is_digit base) t;
          v = (if neg then - int (digits_val base ds) else int (digits_val base ds))
      in if ds = [] then Inl Invalid_argument
         else if in_int32 v then Inr v else Inl Out_of_range)"

text \<open>
  \<open>atoi\<close>: \<open>strtol\<close> with base 10, whose result is clamped to 64 bits, cut to an \<open>int\<close>.
  \<open>stream_u32\<close> is \<open>operator>>\<close> of a string stream into a 32-bit unsigned variable: white
  space is skipped, an input that is then empty leaves the variable unchanged, one without
  digits sets it to 0, and one out of range to the largest value.
\<close>

definition strtol10 :: "string \<Rightarrow> int" where
  "strtol10 s =
     (let (neg, r) = split_sign (dropWhile is_space s);
          v = int (digits_val 10 (takeWhile (is_digit 10) r))
      in if neg then max (- (2 ^ 63)) (- v) else min (2 ^ 63 - 1) v)"

definition atoi :: "string \<Rightarrow> int" where
  "atoi s = sint (word_of_int (strtol10 s) :: u32)"

definition stream_u32 :: "u32 \<Rightarrow> string \<Rightarrow> u32" where
  "stream_u32 old s =
     (let t = dropWhile is_space s; (neg, r) = split_sign t;
          ds = takeWhile (is_digit 10) r; v = int (digits_val 10 ds)
      in if t = [] then old
         else if ds = [] then 0
         else if 2 ^ 32 \<le> v then - 1
         else if neg then word_of_int (- v) else word_of_int v)"

text \<open>\<open>std::string::find\<close>: the first position of a substring; \<open>None\<close> is \<open>npos\<close>.\<close>

fun find_sub :: "string \<Rightarrow> string \<Rightarrow> nat option" where
  "find_sub pat [] = (if pat = [] then Some 0 else None)"
| "find_sub pat (c # cs) =
     (if take (length pat) (c # cs) = pat then Some 0 else map_option Suc (find_sub pat cs))"

definition bytes_of_string :: "string \<Rightarrow> bytes" where
  "bytes_of_string s = map (\<lambda>c. of_char c) s"

definition string_of_bytes :: "bytes \<Rightarrow> string" where
  "string_of_bytes bs = map (\<lambda>b. char_of (unat b)) bs"

section \<open>Reachability\<close>

inductive reach :: "('s \<Rightarrow> bool) \<Rightarrow> ('s \<Rightarrow> 's \<Rightarrow> bool) \<Rightarrow> 's \<Rightarrow> bool"
  for init :: "'s \<Rightarrow> bool" and step :: "'s \<Rightarrow> 's \<Rightarrow> bool" where
  reach_init: "init s \<Longrightarrow> reach init step s"
| reach_step: "reach init step s \<Longrightarrow> step s t \<Longrightarrow> reach init step t"

locale invariant_system =
  fixes init :: "'s \<Rightarrow> bool" and step :: "'s \<Rightarrow> 's \<Rightarrow> bool" and inv :: "'s \<Rightarrow> bool"
  assumes inv_init: "init s \<Longrightarrow> inv s"
    and inv_step: "inv s \<Longrightarrow> step s t \<Longrightarrow> inv t"
begin

lemma reach_inv: "reach init step s \<Longrightarrow> inv s"
  by (induction rule: reach.induct) (auto intro: inv_init inv_step)

lemma steps_inv: "step\<^sup>*\<^sup>* s t \<Longrightarrow> inv s \<Longrightarrow> inv t"
  by (induction rule: rtranclp_induct) (auto intro: inv_step)

end

lemma reach_steps: "step\<^sup>*\<^sup>* s t \<Longrightarrow> reach init step s \<Longrightarrow> reach init step t"
  by (induction rule: rtranclp_induct) (auto intro: reach.intros)

lemma rtranclp_into:
  assumes "r\<^sup>*\<^sup>* s t" and "\<And>a b. r a b \<Longrightarrow> q a b"
  shows "q\<^sup>*\<^sup>* s t"
  using assms(1) by (rule rtranclp_mono [THEN predicate2D, rotated]) (auto intro: assms(2))

text \<open>
  A system that comes to an end: its good states are closed under its steps, every step from a
  good state descends in a well-founded order of ranks, and in a good state that is not finished
  some step is possible. Then every way of taking steps is finite and leads to a finished state.
\<close>

locale terminating_system =
  fixes step :: "'s \<Rightarrow> 's \<Rightarrow> bool" and good :: "'s \<Rightarrow> bool" and finished :: "'s \<Rightarrow> bool"
    and rank :: "'s \<Rightarrow> 'r" and order :: "('r \<times> 'r) set"
  assumes wf_order: "wf order"
    and good_step: "good s \<Longrightarrow> step s t \<Longrightarrow> good t"
    and rank_step: "good s \<Longrightarrow> step s t \<Longrightarrow> (rank t, rank s) \<in> order"
    and progress: "good s \<Longrightarrow> \<not> finished s \<Longrightarrow> \<exists>t. step s t"
begin

lemma returns: "good s \<Longrightarrow> \<exists>t. step\<^sup>*\<^sup>* s t \<and> good t \<and> finished t"
proof (induction s rule: wf_induct_rule [OF wf_inv_image [OF wf_order, of rank]])
  case (1 s)
  show ?case
  proof (cases "finished s")
    case False
    with 1(2) obtain t where t: "step s t" using progress by blast
    from 1(1) [of t] rank_step [OF 1(2) t] good_step [OF 1(2) t] obtain u
      where "step\<^sup>*\<^sup>* t u" "good u" "finished u" by auto
    with t show ?thesis by (meson converse_rtranclp_into_rtranclp)
  qed (use 1(2) in blast)
qed

lemma no_infinite_run: "good (f 0) \<Longrightarrow> \<exists>i. \<not> step (f i) (f (Suc i))"
proof (rule ccontr)
  assume g: "good (f 0)" and "\<nexists>i. \<not> step (f i) (f (Suc i))"
  then have s: "step (f i) (f (Suc i))" for i by blast
  have "good (f i)" for i by (induction i) (use g s good_step in auto)
  then have "(rank (f (Suc i)), rank (f i)) \<in> order" for i by (rule rank_step) (rule s)
  then have "\<exists>g. \<forall>i. (g (Suc i), g i) \<in> order" by (intro exI [of _ "\<lambda>i. rank (f i)"]) simp
  with wf_order show False unfolding wf_iff_no_infinite_down_chain by blast
qed

end

sublocale terminating_system \<subseteq> kept: invariant_system good step good
  by unfold_locales (auto intro: good_step)

text \<open>If the ranks are numbers, the rank of a state bounds the number of steps from it.\<close>

locale bounded_system = terminating_system step good finished rank less_than
  for step :: "'s \<Rightarrow> 's \<Rightarrow> bool" and good finished :: "'s \<Rightarrow> bool" and rank :: "'s \<Rightarrow> nat"
begin

lemma steps_bounded: "(step ^^ k) s t \<Longrightarrow> good s \<Longrightarrow> good t \<and> k + rank t \<le> rank s"
proof (induction k arbitrary: t)
  case (Suc k)
  then obtain u where u: "(step ^^ k) s u" "step u t" by auto
  with Suc.IH [OF u(1)] Suc.prems(2) show ?case using good_step rank_step [of u t] by fastforce
qed simp

lemma returns_within: "good s \<Longrightarrow> \<exists>k \<le> rank s. \<exists>t. (step ^^ k) s t \<and> good t \<and> finished t"
proof -
  assume g: "good s"
  then obtain k t where t: "(step ^^ k) s t" "good t" "finished t" using returns unfolding rtranclp_power by blast
  with steps_bounded [OF t(1) g] show ?thesis by (intro exI [of _ k]) auto
qed

end

text \<open>
  A detailed system whose states are seen as states of another one: starting states are starting
  states there and every step is a sequence of steps there, possibly empty. What is reachable is
  then reachable there, and an invariant of the other system holds of what is seen of this one.
\<close>

locale simulation =
  fixes init :: "'s \<Rightarrow> bool" and step :: "'s \<Rightarrow> 's \<Rightarrow> bool" and inv :: "'s \<Rightarrow> bool"
    and seen :: "'s \<Rightarrow> 'a" and init_a :: "'a \<Rightarrow> bool" and step_a :: "'a \<Rightarrow> 'a \<Rightarrow> bool"
  assumes sim_init: "init s \<Longrightarrow> init_a (seen s)"
    and sim_inv: "reach init step s \<Longrightarrow> inv s"
    and sim_step: "inv s \<Longrightarrow> step s t \<Longrightarrow> step_a\<^sup>*\<^sup>* (seen s) (seen t)"
begin

lemma reach_seen: "reach init step s \<Longrightarrow> reach init_a step_a (seen s)"
proof (induction rule: reach.induct)
  case (reach_init s)
  then show ?case by (blast intro: reach.reach_init sim_init)
next
  case (reach_step s t)
  then show ?case using reach_steps [OF sim_step [OF sim_inv]] by blast
qed

end

locale simulation_invariant =
  simulation init step inv seen init_a step_a + a: invariant_system init_a step_a inv_a
  for init :: "'s \<Rightarrow> bool" and step :: "'s \<Rightarrow> 's \<Rightarrow> bool" and inv :: "'s \<Rightarrow> bool"
    and seen :: "'s \<Rightarrow> 'a" and init_a :: "'a \<Rightarrow> bool" and step_a :: "'a \<Rightarrow> 'a \<Rightarrow> bool"
    and inv_a :: "'a \<Rightarrow> bool"
begin

lemma reach_seen_inv: "reach init step s \<Longrightarrow> inv_a (seen s)"
  by (rule a.reach_inv [OF reach_seen])

end

section \<open>Lemmas on outcomes\<close>

lemma ebind_Inr_iff [bind_simps]: "ebind m f = Inr y \<longleftrightarrow> (\<exists>x. m = Inr x \<and> f x = Inr y)"
  by (cases m) auto

lemma ebind_Inl_iff [bind_simps]:
  "ebind m f = Inl e \<longleftrightarrow> m = Inl e \<or> (\<exists>x. m = Inr x \<and> f x = Inl e)"
  by (cases m) auto

lemma ebind_ok_iff: "(\<exists>y. ebind m f = Inr y) \<longleftrightarrow> (\<exists>x. m = Inr x \<and> (\<exists>y. f x = Inr y))"
  by (cases m) auto

lemma ebind_assoc: "ebind (ebind m f) g = ebind m (\<lambda>x. ebind (f x) g)"
  by (cases m) auto

lemma efold_append: "efold f (xs @ ys) s = ebind (efold f xs s) (efold f ys)"
proof (induction xs arbitrary: s)
  case (Cons x xs)
  then show ?case by (cases "f x s") auto
qed simp

lemma efold_inv:
  assumes "efold f xs s = Inr t" and "P s"
    and "\<And>x s s'. x \<in> set xs \<Longrightarrow> P s \<Longrightarrow> f x s = Inr s' \<Longrightarrow> P s'"
  shows "P t"
  using assms
proof (induction xs arbitrary: s)
  case (Cons x xs)
  from Cons.prems(1) obtain s1 where s1: "f x s = Inr s1" "efold f xs s1 = Inr t"
    by (auto simp: bind_simps)
  with Cons.prems have "P s1" by auto
  with Cons.IH [OF s1(2)] Cons.prems(3) show ?case by auto
qed simp

lemma efold_total:
  assumes "P s" and "\<And>x s. x \<in> set xs \<Longrightarrow> P s \<Longrightarrow> \<exists>s'. f x s = Inr s' \<and> P s'"
  shows "\<exists>t. efold f xs s = Inr t \<and> P t"
  using assms
proof (induction xs arbitrary: s)
  case (Cons x xs)
  from Cons.prems(2) [of x s] Cons.prems(1) obtain s1 where s1: "f x s = Inr s1" "P s1" by auto
  with Cons.IH [OF s1(2)] Cons.prems(2) show ?case by auto
qed simp

lemma efold_cong:
  "(\<And>x s. x \<in> set xs \<Longrightarrow> f x s = g x s) \<Longrightarrow> efold f xs s = efold g xs s"
proof (induction xs arbitrary: s)
  case (Cons x xs)
  then show ?case by (cases "f x s") auto
qed simp

section \<open>Lemmas on bytes\<close>

lemma length_le_bytes [simp]: "length (le_bytes n w) = n"
  by (simp add: le_bytes_def)

lemma le_bytes_0 [simp]: "le_bytes 0 w = []"
  by (simp add: le_bytes_def)

lemma nth_le_bytes: "i < n \<Longrightarrow> le_bytes n w ! i = ucast (drop_bit (8 * i) w)"
  by (simp add: le_bytes_def)

lemma bit_le_word:
  "bit (le_word bs :: 'a::len word) k \<longleftrightarrow>
     k < LENGTH('a) \<and> k div 8 < length bs \<and> bit (bs ! (k div 8)) (k mod 8)"
proof (induction bs arbitrary: k)
  case (Cons b bs)
  show ?case
  proof (cases "k < 8")
    case True
    then show ?thesis by (auto simp: bit_simps)
  next
    case False
    then have k: "k div 8 = Suc ((k - 8) div 8)" "(k - 8) mod 8 = k mod 8"
      by (auto simp: le_div_geq le_mod_geq)
    have nb: "\<not> bit (ucast b :: 'a word) k"
      using False by (auto simp: bit_simps dest: bit_imp_le_length)
    show ?thesis using False Cons.IH [of "k - 8"] nb
      by (auto simp: bit_or_iff bit_push_bit_iff k)
  qed
qed simp

lemma le_word_le_bytes: "le_word (le_bytes n w) = take_bit (8 * n) (w :: 'a::len word)"
proof (rule bit_word_eqI)
  fix k assume "k < LENGTH('a)"
  moreover have "bit (le_bytes n w ! (k div 8)) (k mod 8) = bit w k" if "k div 8 < n"
    using that by (simp add: nth_le_bytes bit_simps)
  moreover have "k div 8 < n \<longleftrightarrow> k < 8 * n"
    by (simp add: div_less_iff_less_mult mult.commute)
  ultimately show "bit (le_word (le_bytes n w) :: 'a word) k = bit (take_bit (8 * n) w) k"
    by (auto simp: bit_le_word bit_take_bit_iff)
qed

lemma le_word_le_bytes_full:
  "LENGTH('a) \<le> 8 * n \<Longrightarrow> le_word (le_bytes n w) = (w :: 'a::len word)"
  by (rule bit_word_eqI) (auto simp: le_word_le_bytes bit_take_bit_iff)

lemma le_bytes_le_word:
  assumes "8 * length bs \<le> LENGTH('a)"
  shows "le_bytes (length bs) (le_word bs :: 'a::len word) = bs"
proof (rule nth_equalityI)
  fix i assume "i < length (le_bytes (length bs) (le_word bs :: 'a word))"
  then have i: "i < length bs" by simp
  show "le_bytes (length bs) (le_word bs :: 'a word) ! i = bs ! i"
  proof (rule bit_word_eqI)
    fix k assume "k < LENGTH(8)"
    then have "k < 8" by simp
    moreover from this i assms have "8 * i + k < LENGTH('a)" by linarith
    ultimately show "bit (le_bytes (length bs) (le_word bs :: 'a word) ! i) k = bit (bs ! i) k"
      using i by (simp add: nth_le_bytes bit_simps bit_le_word)
  qed
qed simp

section \<open>Lemmas on buffers\<close>

lemma buf_write_length: "buf_write buf off bs = Inr buf' \<Longrightarrow> length buf' = length buf"
  by (auto simp: buf_write_def split: if_splits)

lemma buf_write_ok_iff:
  "(\<exists>buf'. buf_write buf off bs = Inr buf') \<longleftrightarrow> off + length bs \<le> length buf"
  by (auto simp: buf_write_def)

lemma buf_write_nth:
  assumes "buf_write buf off bs = Inr buf'" and "i < length buf"
  shows "buf' ! i = (if off \<le> i \<and> i < off + length bs then bs ! (i - off) else buf ! i)"
  using assms by (auto simp: buf_write_def nth_append min_def split: if_splits)

lemma buf_slice_ok_iff: "(\<exists>bs. buf_slice buf off n = Inr bs) \<longleftrightarrow> off + n \<le> length buf"
  by (auto simp: buf_slice_def)

lemma buf_slice_length: "buf_slice buf off n = Inr bs \<Longrightarrow> length bs = n"
  by (auto simp: buf_slice_def split: if_splits)

lemma buf_read_ok_iff: "(\<exists>b. buf_read buf i = Inr b) \<longleftrightarrow> i < length buf"
  by (auto simp: buf_read_def)

lemma buf_read_Inr [simp]: "i < length buf \<Longrightarrow> buf_read buf i = Inr (buf ! i)"
  by (simp add: buf_read_def)

lemma buf_slice_Inr [simp]:
  "off + n \<le> length buf \<Longrightarrow> buf_slice buf off n = Inr (take n (drop off buf))"
  by (simp add: buf_slice_def)

text \<open>
  The contract of a byte array of fixed size: what a copy into it may fail on, that it keeps
  the size, and which bytes it changes. The lemmas on sequences of copies follow from the
  contract alone.
\<close>

locale byte_buffer =
  fixes get :: "'b \<Rightarrow> nat \<Rightarrow> u8"
    and put :: "'b \<Rightarrow> nat \<Rightarrow> bytes \<Rightarrow> cpp_error + 'b"
    and size_of :: "'b \<Rightarrow> nat"
  assumes put_ok: "off + length bs \<le> size_of b \<Longrightarrow> \<exists>b'. put b off bs = Inr b'"
    and put_oob: "size_of b < off + length bs \<Longrightarrow> put b off bs = Inl OOB_write"
    and put_size: "put b off bs = Inr b' \<Longrightarrow> size_of b' = size_of b"
    and put_get: "put b off bs = Inr b' \<Longrightarrow> i < size_of b \<Longrightarrow>
      get b' i = (if off \<le> i \<and> i < off + length bs then bs ! (i - off) else get b i)"
begin

lemma put_fits: "put b off bs = Inr b' \<Longrightarrow> off + length bs \<le> size_of b"
  by (rule ccontr) (simp add: put_oob)

lemma put_all_size:
  "efold (\<lambda>(off, bs) b. put b off bs) ws b = Inr b' \<Longrightarrow> size_of b' = size_of b"
  by (rule efold_inv [where P = "\<lambda>c. size_of c = size_of b"]) (auto dest: put_size)

lemma put_all_ok:
  assumes "\<And>off bs. (off, bs) \<in> set ws \<Longrightarrow> off + length bs \<le> size_of b"
  shows "\<exists>b'. efold (\<lambda>(off, bs) b. put b off bs) ws b = Inr b'"
proof -
  have "\<exists>t. efold (\<lambda>(off, bs) b. put b off bs) ws b = Inr t \<and> size_of t = size_of b"
  proof (rule efold_total)
    fix w c assume w: "w \<in> set ws" and c: "size_of c = size_of b"
    obtain off bs where [simp]: "w = (off, bs)" by (cases w)
    from assms w c have "off + length bs \<le> size_of c" by auto
    from put_ok [OF this] obtain c' where "put c off bs = Inr c'" ..
    with c put_size show "\<exists>s'. (case w of (off, bs) \<Rightarrow> \<lambda>b. put b off bs) c = Inr s' \<and> size_of s' = size_of b"
      by auto
  qed simp
  then show ?thesis by blast
qed

lemma put_all_frame:
  assumes "efold (\<lambda>(off, bs) b. put b off bs) ws b = Inr b'" and "i < size_of b"
    and "\<And>off bs. (off, bs) \<in> set ws \<Longrightarrow> \<not> (off \<le> i \<and> i < off + length bs)"
  shows "get b' i = get b i"
proof -
  have "get b' i = get b i \<and> size_of b' = size_of b"
  proof (rule efold_inv [where P = "\<lambda>c. get c i = get b i \<and> size_of c = size_of b", OF assms(1)])
    fix w c c'
    assume w: "w \<in> set ws" and c: "get c i = get b i \<and> size_of c = size_of b"
      and p: "(case w of (off, bs) \<Rightarrow> \<lambda>b. put b off bs) c = Inr c'"
    obtain off bs where [simp]: "w = (off, bs)" by (cases w)
    from p have p': "put c off bs = Inr c'" by simp
    show "get c' i = get b i \<and> size_of c' = size_of b"
      using put_get [OF p', of i] put_size [OF p'] c assms(2) assms(3) [of off bs] w by auto
  qed simp
  then show ?thesis by simp
qed

end

interpretation bb: byte_buffer "(!)" buf_write length
proof (unfold_locales, goal_cases)
  case (4 b off bs b' i)
  then show ?case by (rule buf_write_nth)
qed (auto simp: buf_write_def split: if_splits)

section \<open>Lemmas on text\<close>

lemma digit_char_val [simp]: "d < 16 \<Longrightarrow> digit_val (digit_char d) = d"
  by (simp add: digit_char_def digit_val_def Let_def)

lemma digit_char_digit [simp]: "d < 10 \<Longrightarrow> 8 \<le> base \<Longrightarrow> d < base \<Longrightarrow> is_digit base (digit_char d)"
  by (simp add: is_digit_def)

lemma digits_val_append_digit:
  "digits_val base (cs @ [c]) = base * digits_val base cs + digit_val c"
  by (simp add: digits_val_def)

lemma nat_to_string_nonempty [simp]: "nat_to_string n \<noteq> []"
  by (subst nat_to_string.simps) simp

lemma nat_to_string_digits:
  "digits_val 10 (nat_to_string n) = n \<and> (\<forall>c \<in> set (nat_to_string n). is_digit 10 c)"
proof (induction n rule: nat_to_string.induct)
  case (1 n)
  show ?case
  proof (cases "n < 10")
    case True
    then show ?thesis by (subst (1 2) nat_to_string.simps) (simp add: digits_val_def)
  next
    case False
    with 1 show ?thesis
      by (subst (1 2) nat_to_string.simps) (auto simp: digits_val_append_digit is_digit_def)
  qed
qed

lemma nat_to_string_hd: "0 < n \<Longrightarrow> hd (nat_to_string n) \<noteq> CHR ''0''"
proof (induction n rule: nat_to_string.induct)
  case (1 n)
  show ?case
  proof (cases "n < 10")
    case True
    with 1 have "digit_val (digit_char n) \<noteq> digit_val (CHR ''0'')"
      by (simp add: digit_val_def [of "CHR ''0''"])
    then have "digit_char n \<noteq> CHR ''0''" by metis
    with True show ?thesis by (subst nat_to_string.simps) simp
  next
    case False
    with 1 show ?thesis by (subst nat_to_string.simps) simp
  qed
qed

lemma nat_to_string_inj: "nat_to_string m = nat_to_string n \<longleftrightarrow> m = n"
  by (metis nat_to_string_digits)

lemma digit_no_space_sign:
  "is_digit 10 c \<Longrightarrow> \<not> is_space c \<and> c \<noteq> CHR ''-'' \<and> c \<noteq> CHR ''+''"
  by (auto simp: is_digit_def digit_val_def is_space_def Let_def split: if_splits)

lemma strtol_base_digits: "cs \<noteq> [] \<Longrightarrow> hd cs \<noteq> CHR ''0'' \<Longrightarrow> strtol_base cs = (10, cs)"
  by (cases cs) (auto simp: strtol_base_def split: list.splits)

lemma takeWhile_digits: "\<forall>c \<in> set cs. P c \<Longrightarrow> takeWhile P cs = cs"
  by (induction cs) auto

lemma strtol_base_nat_to_string:
  "(let (base, t) = strtol_base (nat_to_string n); ds = takeWhile (is_digit base) t
    in ds \<noteq> [] \<and> digits_val base ds = n)"
proof (cases "n = 0")
  case True
  then show ?thesis
    by (subst (1) nat_to_string.simps)
       (simp add: digit_char_def strtol_base_def is_digit_def digit_val_def digits_val_def)
next
  case False
  have d: "\<forall>c \<in> set (nat_to_string n). is_digit 10 c" using nat_to_string_digits by blast
  have "strtol_base (nat_to_string n) = (10, nat_to_string n)"
    using False by (simp add: strtol_base_digits nat_to_string_hd)
  with d show ?thesis by (simp add: takeWhile_digits nat_to_string_digits)
qed

lemma nat_to_string_sign:
  "dropWhile is_space (nat_to_string n) = nat_to_string n \<and>
   split_sign (nat_to_string n) = (False, nat_to_string n)"
proof -
  obtain c r where cr: "nat_to_string n = c # r" by (cases "nat_to_string n") auto
  with nat_to_string_digits [of n] have "is_digit 10 c" by simp
  with digit_no_space_sign [OF this] cr show ?thesis by (simp add: split_sign_def)
qed

lemma to_string_sign:
  "split_sign (dropWhile is_space (to_string i)) = (i < 0, nat_to_string (nat \<bar>i\<bar>))"
proof (cases "i < 0")
  case True
  then show ?thesis by (simp add: to_string_def split_sign_def is_space_def)
next
  case False
  then show ?thesis using nat_to_string_sign [of "nat i"] by (simp add: to_string_def)
qed

lemma stoi0_to_string: "in_int32 i \<Longrightarrow> stoi0 (to_string i) = Inr i"
  using strtol_base_nat_to_string [of "nat \<bar>i\<bar>"]
  by (auto simp: stoi0_def to_string_sign Let_def split: prod.splits)

lemma atoi_to_string: "in_int32 i \<Longrightarrow> atoi (to_string i) = i"
proof -
  assume i: "in_int32 i"
  have ds: "takeWhile (is_digit 10) (nat_to_string n) = nat_to_string n" for n
    using nat_to_string_digits [of n] by (simp add: takeWhile_eq_all_conv)
  have "strtol10 (to_string i) = i"
    using i by (simp add: strtol10_def to_string_sign ds nat_to_string_digits in_int32_def Let_def)
  then show ?thesis
    using i by (simp add: atoi_def in_int32_def int_word_sint)
qed

lemma to_string_inj: "to_string i = to_string j \<longleftrightarrow> i = j"
proof
  assume "to_string i = to_string j"
  then have "(i < 0, nat_to_string (nat \<bar>i\<bar>)) = (j < 0, nat_to_string (nat \<bar>j\<bar>))"
    by (metis to_string_sign)
  then have "(i < 0) = (j < 0)" and "nat \<bar>i\<bar> = nat \<bar>j\<bar>" by (simp_all add: nat_to_string_inj)
  then show "i = j" by (auto simp: abs_if split: if_splits)
qed simp

end
