(* ===== verification/Datapoint.thy ===== *)
theory Datapoint
  imports Prelude
begin

text \<open>
  The values the feeder exchanges with the data broker.

  \<^item> The enumerations and messages of \<^verbatim>\<open>sdv/databroker/v1/types.proto\<close> and the value
    message of \<^verbatim>\<open>kuksa/val/v1/types.proto\<close>. A \<open>oneof\<close> is a datatype with a constructor
    for the unset case; reading another member than the one that is set gives the default of
    the member's type, as proto3 lays down, and reading a repeated field beyond its size is an
    out-of-bounds read.
  \<^item> The interface of the JSON library (jsoncpp is not part of the repository): the record
    \<open>json\<close> holds the member functions the sources call, over an unspecified type of JSON
    values. Every definition that touches JSON takes this record as its first argument. The
    conversions may throw (\<open>Json_error\<close>).
  \<^item> The functions of \<^verbatim>\<open>create_datapoint.h\<close>.
\<close>

type_synonym i32 = "32 word"
type_synonym i64 = "64 word"
type_synonym f64 = "64 word"

section \<open>Messages of the sdv data broker\<close>

datatype DataType =
    STRING | BOOL | INT8 | INT16 | INT32 | INT64 | UINT8 | UINT16 | UINT32 | UINT64
  | FLOAT | DOUBLE | TIMESTAMP | STRING_ARRAY | BOOL_ARRAY | INT8_ARRAY | INT16_ARRAY
  | INT32_ARRAY | INT64_ARRAY | UINT8_ARRAY | UINT16_ARRAY | UINT32_ARRAY | UINT64_ARRAY
  | FLOAT_ARRAY | DOUBLE_ARRAY | TIMESTAMP_ARRAY

datatype ChangeType = STATIC | ON_CHANGE | CONTINUOUS

datatype Failure = INVALID_VALUE | NOT_AVAILABLE | UNKNOWN_DATAPOINT | ACCESS_DENIED | INTERNAL_ERROR

datatype dp_value =
    VALUE_NOT_SET
  | Failure_value Failure
  | String_value string
  | Bool_value bool
  | Int32_value i32
  | Int64_value i64
  | Uint32_value u32
  | Uint64_value u64
  | Float_value f32
  | Double_value f64
  | String_array_value "string list"
  | Bool_array_value "bool list"
  | Int32_array_value "i32 list"
  | Int64_array_value "i64 list"
  | Uint32_array_value "u32 list"
  | Uint64_array_value "u64 list"
  | Float_array_value "f32 list"
  | Double_array_value "f64 list"

record Datapoint =
  dp_timestamp :: "(i64 \<times> i32) option"
  dp_val :: dp_value

definition empty_Datapoint :: Datapoint where
  "empty_Datapoint = \<lparr>dp_timestamp = None, dp_val = VALUE_NOT_SET\<rparr>"

section \<open>Values of the kuksa broker\<close>

datatype kuksa_value =
    K_not_set
  | K_string string
  | K_bool bool
  | K_int32 i32
  | K_int64 i64
  | K_uint32 u32
  | K_uint64 u64
  | K_float f32
  | K_double f64
  | K_string_array "string list"
  | K_bool_array "bool list"
  | K_int32_array "i32 list"
  | K_int64_array "i64 list"
  | K_uint32_array "u32 list"
  | K_uint64_array "u64 list"
  | K_float_array "f32 list"
  | K_double_array "f64 list"

fun k_bool :: "kuksa_value \<Rightarrow> bool" where
  "k_bool (K_bool b) = b" | "k_bool _ = False"

fun k_uint32 :: "kuksa_value \<Rightarrow> u32" where
  "k_uint32 (K_uint32 w) = w" | "k_uint32 _ = 0"

fun k_int32 :: "kuksa_value \<Rightarrow> i32" where
  "k_int32 (K_int32 w) = w" | "k_int32 _ = 0"

fun k_float :: "kuksa_value \<Rightarrow> f32" where
  "k_float (K_float w) = w" | "k_float _ = 0"

fun k_string :: "kuksa_value \<Rightarrow> string" where
  "k_string (K_string s) = s" | "k_string _ = []"

fun k_uint32_array :: "kuksa_value \<Rightarrow> u32 list" where
  "k_uint32_array (K_uint32_array ws) = ws" | "k_uint32_array _ = []"

fun k_int32_array :: "kuksa_value \<Rightarrow> i32 list" where
  "k_int32_array (K_int32_array ws) = ws" | "k_int32_array _ = []"

fun has_uint32_array :: "kuksa_value \<Rightarrow> bool" where
  "has_uint32_array (K_uint32_array _) = True" | "has_uint32_array _ = False"

fun has_int32_array :: "kuksa_value \<Rightarrow> bool" where
  "has_int32_array (K_int32_array _) = True" | "has_int32_array _ = False"

definition values_at :: "'a list \<Rightarrow> nat \<Rightarrow> cpp_error + 'a" where
  "values_at ws i = (if i < length ws then Inr (ws ! i) else Inl OOB_read)"

section \<open>The JSON interface\<close>

record 'j json =
  j_isBool :: "'j \<Rightarrow> bool"
  j_isString :: "'j \<Rightarrow> bool"
  j_isNumeric :: "'j \<Rightarrow> bool"
  j_isInt :: "'j \<Rightarrow> bool"
  j_isUInt :: "'j \<Rightarrow> bool"
  j_isInt64 :: "'j \<Rightarrow> bool"
  j_isUInt64 :: "'j \<Rightarrow> bool"
  j_isDouble :: "'j \<Rightarrow> bool"
  j_asBool :: "'j \<Rightarrow> cpp_error + bool"
  j_asString :: "'j \<Rightarrow> cpp_error + string"
  j_asInt :: "'j \<Rightarrow> cpp_error + i32"
  j_asUInt :: "'j \<Rightarrow> cpp_error + u32"
  j_asInt64 :: "'j \<Rightarrow> cpp_error + i64"
  j_asUInt64 :: "'j \<Rightarrow> cpp_error + u64"
  j_asDouble :: "'j \<Rightarrow> cpp_error + f64"
  j_index :: "'j \<Rightarrow> string \<Rightarrow> cpp_error + 'j"
  j_get :: "'j \<Rightarrow> string \<Rightarrow> 'j \<Rightarrow> cpp_error + 'j"
  j_of_int :: "int \<Rightarrow> 'j"
  j_isMember :: "'j \<Rightarrow> string \<Rightarrow> cpp_error + bool"
  j_elems :: "'j \<Rightarrow> 'j list"
  j_write :: "'j \<Rightarrow> string"

section \<open>Construction of data points\<close>

definition createInvalidValue :: Datapoint where
  "createInvalidValue = empty_Datapoint\<lparr>dp_val := Failure_value INVALID_VALUE\<rparr>"

definition createNotAvailableValue :: Datapoint where
  "createNotAvailableValue = empty_Datapoint\<lparr>dp_val := Failure_value NOT_AVAILABLE\<rparr>"

definition createDatapoint_bool :: "bool \<Rightarrow> Datapoint" where
  "createDatapoint_bool v = empty_Datapoint\<lparr>dp_val := Bool_value v\<rparr>"

definition createDatapoint_int32 :: "i32 \<Rightarrow> Datapoint" where
  "createDatapoint_int32 v = empty_Datapoint\<lparr>dp_val := Int32_value v\<rparr>"

definition createDatapoint_uint32 :: "u32 \<Rightarrow> Datapoint" where
  "createDatapoint_uint32 v = empty_Datapoint\<lparr>dp_val := Uint32_value v\<rparr>"

definition createDatapoint_int64 :: "i64 \<Rightarrow> Datapoint" where
  "createDatapoint_int64 v = empty_Datapoint\<lparr>dp_val := Int64_value v\<rparr>"

definition createDatapoint_uint64 :: "u64 \<Rightarrow> Datapoint" where
  "createDatapoint_uint64 v = empty_Datapoint\<lparr>dp_val := Uint64_value v\<rparr>"

definition createDatapoint_float :: "f32 \<Rightarrow> Datapoint" where
  "createDatapoint_float v = empty_Datapoint\<lparr>dp_val := Float_value v\<rparr>"

definition createDatapoint_double :: "f64 \<Rightarrow> Datapoint" where
  "createDatapoint_double v = empty_Datapoint\<lparr>dp_val := Double_value v\<rparr>"

definition createDatapoint_string :: "string \<Rightarrow> Datapoint" where
  "createDatapoint_string v = empty_Datapoint\<lparr>dp_val := String_value v\<rparr>"

definition createDatapoint_json :: "'j json \<Rightarrow> 'j \<Rightarrow> cpp_error + Datapoint" where
  "createDatapoint_json J v =
     (let dp = empty_Datapoint in
      if j_isBool J v then ebind (j_asBool J v) (\<lambda>x. Inr (dp\<lparr>dp_val := Bool_value x\<rparr>))
      else if j_isString J v then ebind (j_asString J v) (\<lambda>x. Inr (dp\<lparr>dp_val := String_value x\<rparr>))
      else if j_isNumeric J v then
        if j_isInt J v then ebind (j_asInt J v) (\<lambda>x. Inr (dp\<lparr>dp_val := Int32_value x\<rparr>))
        else if j_isUInt J v then ebind (j_asUInt J v) (\<lambda>x. Inr (dp\<lparr>dp_val := Uint32_value x\<rparr>))
        else if j_isInt64 J v then ebind (j_asInt64 J v) (\<lambda>x. Inr (dp\<lparr>dp_val := Int64_value x\<rparr>))
        else if j_isUInt64 J v then ebind (j_asUInt64 J v) (\<lambda>x. Inr (dp\<lparr>dp_val := Uint64_value x\<rparr>))
        else if j_isDouble J v then ebind (j_asDouble J v) (\<lambda>x. Inr (dp\<lparr>dp_val := Double_value x\<rparr>))
        else Inr dp
      else Inr dp)"

end
