(* ===== verification/Json_Instance.thy ===== *)
theory Json_Instance
  imports Datapoint
begin

text \<open>
  A concrete instance of the JSON interface, for evaluating the development on concrete
  mapping files. It follows the documented behaviour of jsoncpp on the values such files hold:
  a missing member of an object is the null value, null converts to zero and to the empty
  text, a conversion of another kind of value or of a number out of range throws, indexing a
  value that is neither an object nor null throws. Real numbers do not occur in mapping files
  and are left out.
\<close>

datatype jv = JNull | JBool bool | JInt int | JStr string | JArr "jv list" | JObj "(string \<times> jv) list"

definition jv_int_in :: "int \<Rightarrow> int \<Rightarrow> jv \<Rightarrow> bool" where
  "jv_int_in lo hi v = (case v of JInt i \<Rightarrow> lo \<le> i \<and> i < hi | _ \<Rightarrow> False)"

definition jv_as_word :: "int \<Rightarrow> int \<Rightarrow> jv \<Rightarrow> cpp_error + 'a::len word" where
  "jv_as_word lo hi v =
     (case v of
        JInt i \<Rightarrow> if lo \<le> i \<and> i < hi then Inr (word_of_int i) else Inl Json_error
      | JNull \<Rightarrow> Inr 0
      | JBool b \<Rightarrow> Inr (if b then 1 else 0)
      | _ \<Rightarrow> Inl Json_error)"

definition jv_as_bool :: "jv \<Rightarrow> cpp_error + bool" where
  "jv_as_bool v =
     (case v of JBool b \<Rightarrow> Inr b | JNull \<Rightarrow> Inr False | JInt i \<Rightarrow> Inr (i \<noteq> 0) | _ \<Rightarrow> Inl Json_error)"

definition jv_as_string :: "jv \<Rightarrow> cpp_error + string" where
  "jv_as_string v =
     (case v of
        JStr s \<Rightarrow> Inr s
      | JNull \<Rightarrow> Inr []
      | JBool b \<Rightarrow> Inr (if b then ''true'' else ''false'')
      | JInt i \<Rightarrow> Inr (to_string i)
      | _ \<Rightarrow> Inl Json_error)"

definition jv_get :: "jv \<Rightarrow> string \<Rightarrow> jv \<Rightarrow> cpp_error + jv" where
  "jv_get v key d =
     (case v of
        JObj ms \<Rightarrow> Inr (case map_of ms key of Some x \<Rightarrow> x | None \<Rightarrow> d)
      | JNull \<Rightarrow> Inr d
      | _ \<Rightarrow> Inl Json_error)"

definition jv_isMember :: "jv \<Rightarrow> string \<Rightarrow> cpp_error + bool" where
  "jv_isMember v key =
     (case v of JObj ms \<Rightarrow> Inr (map_of ms key \<noteq> None) | JNull \<Rightarrow> Inr False | _ \<Rightarrow> Inl Json_error)"

definition jv_elems :: "jv \<Rightarrow> jv list" where
  "jv_elems v = (case v of JArr vs \<Rightarrow> vs | JObj ms \<Rightarrow> map snd ms | _ \<Rightarrow> [])"

definition jv_json :: "jv json" where
  "jv_json =
     \<lparr>j_isBool = (\<lambda>v. case v of JBool _ \<Rightarrow> True | _ \<Rightarrow> False),
      j_isString = (\<lambda>v. case v of JStr _ \<Rightarrow> True | _ \<Rightarrow> False),
      j_isNumeric = jv_int_in (- (2 ^ 63)) (2 ^ 64),
      j_isInt = jv_int_in (- (2 ^ 31)) (2 ^ 31),
      j_isUInt = jv_int_in 0 (2 ^ 32),
      j_isInt64 = jv_int_in (- (2 ^ 63)) (2 ^ 63),
      j_isUInt64 = jv_int_in 0 (2 ^ 64),
      j_isDouble = jv_int_in (- (2 ^ 63)) (2 ^ 64),
      j_asBool = jv_as_bool,
      j_asString = jv_as_string,
      j_asInt = jv_as_word (- (2 ^ 31)) (2 ^ 31),
      j_asUInt = jv_as_word 0 (2 ^ 32),
      j_asInt64 = jv_as_word (- (2 ^ 63)) (2 ^ 63),
      j_asUInt64 = jv_as_word 0 (2 ^ 64),
      j_asDouble = (\<lambda>_. Inl Json_error),
      j_index = (\<lambda>v key. jv_get v key JNull),
      j_get = jv_get,
      j_of_int = JInt,
      j_isMember = jv_isMember,
      j_elems = jv_elems,
      j_write = (\<lambda>_. [])\<rparr>"

lemmas jv_eval = jv_json_def jv_int_in_def jv_as_word_def jv_as_bool_def jv_as_string_def
  jv_get_def jv_isMember_def jv_elems_def

end
