(* ===== verification/Adapter_Codec.thy ===== *)
theory Adapter_Codec
  imports Json_Instance
begin

text \<open>
  The conversions the adapter \<^verbatim>\<open>someip_feeder/someip_kuksa_adapter\<close> uses in both directions:
  \<open>getDataType\<close>, \<open>copyJsonValueType\<close>, \<open>bytes_to_ascii_string\<close> and the conversion
  of a \<open>float\<close> to \<open>int\<close>.

  \<open>memcpy\<close> of \<open>n\<close> bytes out of an object is \<open>obj_copy\<close>: it reads out of bounds when the
  object is smaller than \<open>n\<close>, and writes out of bounds when the target buffer has no room.
\<close>

section \<open>Operations\<close>

definition getDataType :: "string \<Rightarrow> DataType" where
  "getDataType dataType =
     (if dataType = ''BOOL'' \<or> dataType = ''bool'' then BOOL
      else if dataType = ''STRING'' \<or> dataType = ''string'' then STRING
      else if dataType = ''FLOAT'' \<or> dataType = ''float'' then FLOAT
      else if dataType = ''UINT32'' \<or> dataType = ''uint32'' then UINT32
      else if dataType = ''UINT8'' \<or> dataType = ''uint8'' then UINT8
      else if dataType = ''INT8'' \<or> dataType = ''int8'' then INT8
      else if dataType = ''UINT16'' \<or> dataType = ''uint16'' then UINT16
      else if dataType = ''INT16'' \<or> dataType = ''int16'' then INT16
      else if dataType = ''UINT8[]'' \<or> dataType = ''uint8[]'' then UINT8_ARRAY
      else if dataType = ''UINT16[]'' \<or> dataType = ''uint16[]'' then UINT16_ARRAY
      else if dataType = ''INT16[]'' \<or> dataType = ''int16[]'' then INT16_ARRAY
      else if dataType = ''INT8_UINT16'' \<or> dataType = ''int8_uint16'' then TIMESTAMP_ARRAY
      else STRING)"

definition obj_copy :: "bytes \<Rightarrow> nat \<Rightarrow> bytes \<Rightarrow> nat \<Rightarrow> cpp_error + bytes" where
  "obj_copy buf off obj n = ebind (buf_slice obj 0 n) (buf_write buf off)"

definition copyJsonValueType :: "'j json \<Rightarrow> bytes \<Rightarrow> nat \<Rightarrow> 'j \<Rightarrow> nat \<Rightarrow> cpp_error + bytes" where
  "copyJsonValueType J payload off v n =
     (if j_isBool J v then
        ebind (j_asBool J v) (\<lambda>b. obj_copy payload off [if b then 1 else 0] n)
      else if j_isString J v then
        ebind (j_asString J v) (\<lambda>s. obj_copy payload off (bytes_of_string s @ [0]) n)
      else if j_isNumeric J v then
        if j_isInt J v then ebind (j_asInt J v) (\<lambda>w. obj_copy payload off (le_bytes 4 w) n)
        else if j_isUInt J v then ebind (j_asUInt J v) (\<lambda>w. obj_copy payload off (le_bytes 4 w) n)
        else if j_isInt64 J v then ebind (j_asInt64 J v) (\<lambda>w. obj_copy payload off (le_bytes 8 w) n)
        else if j_isUInt64 J v then ebind (j_asUInt64 J v) (\<lambda>w. obj_copy payload off (le_bytes 8 w) n)
        else if j_isDouble J v then ebind (j_asDouble J v) (\<lambda>w. obj_copy payload off (le_bytes 8 w) n)
        else Inr payload
      else
        let serializedJson = j_write J v in
        if n < length serializedJson then Inr payload
        else buf_write payload off (bytes_of_string serializedJson))"

definition bytes_to_ascii_string :: "bytes \<Rightarrow> nat \<Rightarrow> nat \<Rightarrow> cpp_error + string" where
  "bytes_to_ascii_string payload off n = ebind (buf_slice payload off n) (\<lambda>bs. Inr (string_of_bytes bs))"

text \<open>Truncation of a binary32 value; the conversion is undefined when the result does not fit.\<close>

definition f32_to_int :: "f32 \<Rightarrow> cpp_error + int" where
  "f32_to_int w =
     (let e = unat (take_bit 8 (drop_bit 23 w));
          m = int (unat (take_bit 23 w)) + 2 ^ 23;
          mag = (if e = 0 then 0 else if 150 \<le> e then m * 2 ^ (e - 150) else m div 2 ^ (150 - e));
          v = (if bit w 31 then - mag else mag)
      in if e \<noteq> 255 \<and> in_int32 v then Inr v else Inl Float_to_int)"

section \<open>What is relied on of the JSON library\<close>

text \<open>A conversion to the kind a value reports to have does not throw.\<close>

definition json_converts :: "'j json \<Rightarrow> bool" where
  "json_converts J = (\<forall>v.
     (j_isBool J v \<longrightarrow> (\<exists>x. j_asBool J v = Inr x)) \<and>
     (j_isString J v \<longrightarrow> (\<exists>x. j_asString J v = Inr x)) \<and>
     (j_isInt J v \<longrightarrow> (\<exists>x. j_asInt J v = Inr x)) \<and>
     (j_isUInt J v \<longrightarrow> (\<exists>x. j_asUInt J v = Inr x)) \<and>
     (j_isInt64 J v \<longrightarrow> (\<exists>x. j_asInt64 J v = Inr x)) \<and>
     (j_isUInt64 J v \<longrightarrow> (\<exists>x. j_asUInt64 J v = Inr x)) \<and>
     (j_isDouble J v \<and> \<not> j_isInt64 J v \<and> \<not> j_isUInt64 J v \<longrightarrow> (\<exists>x. j_asDouble J v = Inr x)))"

lemma jv_json_converts: "json_converts jv_json"
  by (auto simp: json_converts_def jv_eval split: jv.splits)

lemma createDatapoint_json_total:
  assumes "json_converts J"
  shows "\<exists>d. createDatapoint_json J v = Inr d"
proof -
  note h = assms [unfolded json_converts_def, THEN spec, of v]
  show ?thesis
    using h by (simp add: createDatapoint_json_def Let_def ebind_ok_iff)
qed

section \<open>Lemmas\<close>

lemma obj_copy_ok:
  "n \<le> length obj \<Longrightarrow> off + n \<le> length buf \<Longrightarrow>
    obj_copy buf off obj n = Inr (take off buf @ take n obj @ drop (off + n) buf)"
  by (simp add: obj_copy_def buf_write_def)

lemma obj_copy_length: "obj_copy buf off obj n = Inr buf' \<Longrightarrow> length buf' = length buf"
  by (auto simp: obj_copy_def bind_simps dest: buf_write_length)

lemma obj_copy_fault: "obj_copy buf off obj n = Inl e \<longleftrightarrow>
    (e = OOB_read \<and> length obj < n) \<or> (e = OOB_write \<and> n \<le> length obj \<and> length buf < off + n)"
  by (auto simp: obj_copy_def buf_slice_def buf_write_def)

lemma copyJson_length:
  "copyJsonValueType J buf off v n = Inr buf' \<Longrightarrow> length buf' = length buf"
  by (auto simp: copyJsonValueType_def bind_simps Let_def split: if_splits
      dest: obj_copy_length buf_write_length)

lemma trunc_bound:
  fixes k e :: nat
  assumes "k < 2 ^ 23" and "e < 158"
  defines "m \<equiv> int k + 2 ^ 23"
  shows "0 \<le> (if e = 0 then 0 else if 150 \<le> e then m * 2 ^ (e - 150) else m div 2 ^ (150 - e)) \<and>
    (if e = 0 then 0 else if 150 \<le> e then m * 2 ^ (e - 150) else m div 2 ^ (150 - e)) < 2 ^ 31"
proof -
  have m: "0 \<le> m" "m < 2 ^ 24" using assms by simp_all
  show ?thesis
  proof (cases "150 \<le> e")
    case True
    then have "(2::int) ^ (e - 150) \<le> 2 ^ 7" using assms(2) by (intro power_increasing) auto
    with m have "m * 2 ^ (e - 150) \<le> m * 2 ^ 7" by (intro mult_left_mono) auto
    with True m show ?thesis by simp
  next
    case False
    have "m div 2 ^ (150 - e) \<le> m" using zdiv_mono2 [of m 1 "2 ^ (150 - e)"] m by simp
    with False m show ?thesis by (simp add: pos_imp_zdiv_nonneg_iff)
  qed
qed

lemma f32_to_int_ok:
  assumes "unat (take_bit 8 (drop_bit 23 w)) < 158"
  shows "\<exists>v. f32_to_int w = Inr v"
proof -
  have "unat (take_bit 23 w) < 2 ^ 23" by (simp only: unsigned_take_bit_eq take_bit_nat_less_exp)
  note b = trunc_bound [OF this assms]
  have r: "in_int32 (if P then - v else v)" if "0 \<le> v \<and> v < 2 ^ 31" for P v
    using that by (auto simp: in_int32_def)
  have "unat (take_bit 8 (drop_bit 23 w)) \<noteq> 255" using assms by linarith
  then show ?thesis by (simp only: f32_to_int_def Let_def r [OF b] simp_thms if_True Inr_inject) simp
qed

end
