(* ===== verification/Simple_Log.thy ===== *)
theory Simple_Log
  imports Prelude
begin

text \<open>
  Log levels, \<^verbatim>\<open>lib/broker_feeder/simple_log.h\<close>: how a component chooses its level from the
  environment, whether a message of a level is written, to which stream, and the start of the line.
  A macro is an \<open>if\<close> with the stream expression as its body, so the text of a message that is not
  written is not computed.
\<close>

definition LEVEL_ERR :: int where "LEVEL_ERR = 0"
definition LEVEL_INF :: int where "LEVEL_INF = 1"
definition LEVEL_DBG :: int where "LEVEL_DBG = 2"
definition LEVEL_TRC :: int where "LEVEL_TRC = 3"

definition GetEnvironmentInt :: "env \<Rightarrow> string \<Rightarrow> int \<Rightarrow> int" where
  "GetEnvironmentInt E envName default_value =
     (case E envName of None \<Rightarrow> default_value | Some val \<Rightarrow> atoi val)"

definition LOGGER_ENABLED :: "int \<Rightarrow> int \<Rightarrow> bool" where
  "LOGGER_ENABLED g_log_level level = (g_log_level \<ge> level)"

definition DEFAULT_LOGLEVEL :: int where "DEFAULT_LOGLEVEL = LEVEL_INF"

text \<open>\<open>LOGGER_STATIC_INIT\<close>: the module prefix and the level of a source file.\<close>

record logger =
  g_log_module :: string
  g_log_level :: int

definition LOGGER_STATIC_INIT :: "string \<Rightarrow> logger" where
  "LOGGER_STATIC_INIT MODULE = \<lparr>g_log_module = MODULE, g_log_level = DEFAULT_LOGLEVEL\<rparr>"

definition LOGGER_SET_LEVEL :: "int \<Rightarrow> logger \<Rightarrow> logger" where
  "LOGGER_SET_LEVEL level l = l\<lparr>g_log_level := level\<rparr>"

definition LOGGER_SET_LEVEL_ENV :: "env \<Rightarrow> string \<Rightarrow> int \<Rightarrow> logger \<Rightarrow> logger" where
  "LOGGER_SET_LEVEL_ENV E env_prop default_value l = l\<lparr>g_log_level := GetEnvironmentInt E env_prop default_value\<rparr>"

datatype log_stream = Cout | Cerr

definition log_line :: "logger \<Rightarrow> string \<Rightarrow> int \<Rightarrow> log_stream \<Rightarrow> string \<Rightarrow> string \<Rightarrow> (log_stream \<times> string) option" where
  "log_line l func level stream tag msg =
     (if LOGGER_ENABLED (g_log_level l) level then Some (stream, g_log_module l @ func @ tag @ msg) else None)"

definition LOG_TRACE :: "logger \<Rightarrow> string \<Rightarrow> string \<Rightarrow> (log_stream \<times> string) option" where
  "LOG_TRACE l func msg = log_line l func LEVEL_TRC Cout '': [trace] '' msg"

definition LOG_DEBUG :: "logger \<Rightarrow> string \<Rightarrow> string \<Rightarrow> (log_stream \<times> string) option" where
  "LOG_DEBUG l func msg = log_line l func LEVEL_DBG Cout '': [debug] '' msg"

definition LOG_INFO :: "logger \<Rightarrow> string \<Rightarrow> string \<Rightarrow> (log_stream \<times> string) option" where
  "LOG_INFO l func msg = log_line l func LEVEL_INF Cout '': [info] '' msg"

definition LOG_ERROR :: "logger \<Rightarrow> string \<Rightarrow> string \<Rightarrow> (log_stream \<times> string) option" where
  "LOG_ERROR l func msg = log_line l func LEVEL_ERR Cerr '': [error] '' msg"

text \<open>The levels are cumulative: what is written at a level is written at every higher one.\<close>

lemma log_levels:
  "LOG_TRACE l f m \<noteq> None \<Longrightarrow> LOG_DEBUG l f m \<noteq> None"
  "LOG_DEBUG l f m \<noteq> None \<Longrightarrow> LOG_INFO l f m \<noteq> None"
  "LOG_INFO l f m \<noteq> None \<Longrightarrow> LOG_ERROR l f m \<noteq> None"
  by (auto simp: LOG_TRACE_def LOG_DEBUG_def LOG_INFO_def LOG_ERROR_def log_line_def LOGGER_ENABLED_def
      LEVEL_ERR_def LEVEL_INF_def LEVEL_DBG_def LEVEL_TRC_def split: if_splits)

text \<open>A level in the environment enables exactly the messages up to it; text that is no number is level 0.\<close>

lemma logger_level:
  assumes "in_int32 n"
  shows "LOGGER_ENABLED (GetEnvironmentInt (E(v \<mapsto> to_string n)) v d) level \<longleftrightarrow> level \<le> n"
  using assms by (simp add: LOGGER_ENABLED_def GetEnvironmentInt_def atoi_to_string)

lemma logger_no_number: "GetEnvironmentInt (E(v \<mapsto> ''debug'')) v d = LEVEL_ERR"
proof -
  have "atoi ''debug'' = 0" by code_simp
  then show ?thesis by (simp add: GetEnvironmentInt_def LEVEL_ERR_def)
qed

end
