(* ===== verification/Collector_Client.thy ===== *)
theory Collector_Client
  imports Simple_Log
begin

text \<open>
  The broker connection \<^verbatim>\<open>lib/broker_feeder/collector_client\<close>: construction (broker
  address, gRPC metadata), the connection flag and \<open>handleGrpcError\<close>.

  gRPC is not part of the repository. The result of \<open>Channel::WaitForConnected\<close> and the
  status of a remote call are arguments of the operations that receive them; of a status the
  code looks at \<open>ok()\<close> and at three error codes. The channel and the stubs are
  represented by the address the channel was created for.

  The locale \<open>connection\<close> is what the two threads that share the client rely on: the flag
  follows the last wait, and every error handled clears it.
\<close>

datatype grpc_status =
    GRPC_STATUS_OK
  | GRPC_STATUS_INTERNAL
  | GRPC_STATUS_UNAUTHENTICATED
  | GRPC_STATUS_UNIMPLEMENTED
  | GRPC_STATUS_other int

definition status_ok :: "grpc_status \<Rightarrow> bool" where
  "status_ok st = (st = GRPC_STATUS_OK)"

record CollectorClient =
  cl_metadata :: "(string \<times> string) list"
  channel_addr :: string
  cl_connected :: bool
  cl_broker_addr :: string
  cl_auth_token :: string

definition getEnvVar :: "env \<Rightarrow> string \<Rightarrow> string \<Rightarrow> string" where
  "getEnvVar E name defaultValue = (case E name of Some v \<Rightarrow> v | None \<Rightarrow> defaultValue)"

text \<open>\<open>std::string::find_last_of\<close> for one character; \<open>None\<close> is \<open>npos\<close>.\<close>

fun find_last_of :: "char \<Rightarrow> string \<Rightarrow> nat option" where
  "find_last_of c [] = None"
| "find_last_of c (x # xs) =
     (case find_last_of c xs of
        Some i \<Rightarrow> Some (Suc i)
      | None \<Rightarrow> if x = c then Some 0 else None)"

text \<open>\<open>npos + 1\<close> wraps around to 0.\<close>

definition changeToDaprPortIfSet :: "env \<Rightarrow> string \<Rightarrow> string" where
  "changeToDaprPortIfSet E broker_addr =
     (let dapr_port = getEnvVar E ''DAPR_GRPC_PORT'' [] in
      if dapr_port \<noteq> [] then
        let colon_pos = find_last_of (CHR '':'') broker_addr;
            n = (case colon_pos of Some i \<Rightarrow> i + 1 | None \<Rightarrow> 0)
        in take n broker_addr @ dapr_port
      else broker_addr)"

definition getGrpcMetadata :: "env \<Rightarrow> string \<Rightarrow> (string \<times> string) list" where
  "getGrpcMetadata E auth_token =
     (let dapr_app_id = getEnvVar E ''VEHICLEDATABROKER_DAPR_APP_ID'' [];
          m = (if dapr_app_id \<noteq> [] then AList.update ''dapr-app-id'' dapr_app_id [] else []);
          databroker_token = (if auth_token = [] then getEnvVar E ''BROKER_TOKEN'' [] else auth_token)
      in if databroker_token \<noteq> []
         then AList.update ''authorization'' (''Bearer '' @ databroker_token) m else m)"

definition new_CollectorClient :: "env \<Rightarrow> string \<Rightarrow> string \<Rightarrow> CollectorClient" where
  "new_CollectorClient E broker_addr auth_token =
     \<lparr>cl_metadata = getGrpcMetadata E auth_token,
      channel_addr = changeToDaprPortIfSet E broker_addr,
      cl_connected = False, cl_broker_addr = broker_addr, cl_auth_token = auth_token\<rparr>"

definition createInstance_collector :: "env \<Rightarrow> string \<Rightarrow> string \<Rightarrow> CollectorClient" where
  [simp]: "createInstance_collector E broker_addr auth_token = new_CollectorClient E broker_addr auth_token"

definition WaitForConnected :: "bool \<Rightarrow> CollectorClient \<Rightarrow> bool \<times> CollectorClient" where
  "WaitForConnected channel_result c = (channel_result, c\<lparr>cl_connected := channel_result\<rparr>)"

definition Connected :: "CollectorClient \<Rightarrow> bool" where
  "Connected c = cl_connected c"

definition SetDisconnected :: "CollectorClient \<Rightarrow> CollectorClient" where
  "SetDisconnected c = c\<lparr>cl_connected := False\<rparr>"

definition GetBrokerAddr :: "CollectorClient \<Rightarrow> string" where
  "GetBrokerAddr c = cl_broker_addr c"

text \<open>The metadata a new client context carries.\<close>

definition createClientContext :: "CollectorClient \<Rightarrow> (string \<times> string) list" where
  "createClientContext c = cl_metadata c"

text \<open>
  The forwarding calls: a stub is the remote method, from the headers of the context and the
  request to a status and a reply; \<open>Subscribe\<close> gives a reader.
\<close>

type_synonym ('q, 'r) grpc_stub = "(string \<times> string) list \<Rightarrow> 'q \<Rightarrow> grpc_status \<times> 'r"

definition RegisterDatapoints :: "('q, 'r) grpc_stub \<Rightarrow> (string \<times> string) list \<Rightarrow> 'q \<Rightarrow> grpc_status \<times> 'r" where
  "RegisterDatapoints stub context request = stub context request"

definition UpdateDatapoints :: "('q, 'r) grpc_stub \<Rightarrow> (string \<times> string) list \<Rightarrow> 'q \<Rightarrow> grpc_status \<times> 'r" where
  "UpdateDatapoints stub context request = stub context request"

definition Subscribe_stream ::
  "((string \<times> string) list \<Rightarrow> 'q \<Rightarrow> 'reader) \<Rightarrow> (string \<times> string) list \<Rightarrow> 'q \<Rightarrow> 'reader" where
  "Subscribe_stream kuksa_stub context request = kuksa_stub context request"

text \<open>The state of the channel is the one gRPC reports, without trying to connect.\<close>

definition GetState :: "(string \<Rightarrow> bool \<Rightarrow> 'st) \<Rightarrow> CollectorClient \<Rightarrow> 'st" where
  "GetState channel_state c = channel_state (channel_addr c) False"

definition handleGrpcError :: "grpc_status \<Rightarrow> CollectorClient \<Rightarrow> bool \<times> CollectorClient" where
  "handleGrpcError st c =
     (if status_ok st then (False, c)
      else
        let fatal_error =
          (case st of
             GRPC_STATUS_INTERNAL \<Rightarrow> True
           | GRPC_STATUS_UNAUTHENTICATED \<Rightarrow> True
           | GRPC_STATUS_UNIMPLEMENTED \<Rightarrow> True
           | _ \<Rightarrow> False)
        in (fatal_error, SetDisconnected c))"

locale connection =
  fixes is_up :: "'c \<Rightarrow> bool"
    and wait :: "bool \<Rightarrow> 'c \<Rightarrow> bool \<times> 'c"
    and on_error :: "grpc_status \<Rightarrow> 'c \<Rightarrow> bool \<times> 'c"
  assumes wait_result: "fst (wait b c) = b"
    and wait_up: "is_up (snd (wait b c)) = b"
    and error_down: "\<not> status_ok st \<Longrightarrow> \<not> is_up (snd (on_error st c))"
    and ok_keeps: "status_ok st \<Longrightarrow> on_error st c = (False, c)"
begin

lemma wait_reports_flag: "fst (wait b c) = is_up (snd (wait b c))"
  by (simp add: wait_result wait_up)

lemma up_after_error_iff: "is_up (snd (on_error st c)) \<longleftrightarrow> status_ok st \<and> is_up c"
  using error_down ok_keeps by (cases "status_ok st") auto

text \<open>Handling a sequence of call results leaves the connection up only if none failed.\<close>

lemma errors_down:
  "is_up (fold (\<lambda>st c. snd (on_error st c)) sts c) \<longleftrightarrow> list_all status_ok sts \<and> is_up c"
  by (induction sts arbitrary: c) (auto simp: up_after_error_iff)

end

interpretation cc: connection Connected WaitForConnected handleGrpcError
  by unfold_locales
     (auto simp: Connected_def WaitForConnected_def handleGrpcError_def SetDisconnected_def Let_def)

section \<open>Lemmas\<close>

lemma find_last_of_None: "find_last_of c s = None \<longleftrightarrow> c \<notin> set s"
  by (induction s) (auto split: option.splits)

lemma find_last_of_last:
  "c \<notin> set p \<Longrightarrow> find_last_of c (h @ c # p) = Some (length h)"
proof (induction h)
  case Nil
  then show ?case by (simp add: find_last_of_None [THEN iffD2])
qed simp

section \<open>Properties\<close>

text \<open>
  The address the channel is opened for: without \<open>DAPR_GRPC_PORT\<close> (unset or empty) it is
  the configured address; with it, the part after the last colon is replaced by that port, and
  an address without a colon is replaced as a whole, host included.
\<close>

theorem dapr_port_replaced:
  assumes "CHR '':'' \<notin> set p"
  shows "channel_addr (new_CollectorClient E (h @ CHR '':'' # p) tok) =
      (if getEnvVar E ''DAPR_GRPC_PORT'' [] = [] then h @ CHR '':'' # p
       else h @ CHR '':'' # getEnvVar E ''DAPR_GRPC_PORT'' []) \<and>
    channel_addr (new_CollectorClient E p tok) =
      (if getEnvVar E ''DAPR_GRPC_PORT'' [] = [] then p else getEnvVar E ''DAPR_GRPC_PORT'' [])"
proof -
  have "find_last_of (CHR '':'') p = None" using assms by (simp add: find_last_of_None)
  then show ?thesis using assms
    by (simp add: new_CollectorClient_def changeToDaprPortIfSet_def find_last_of_last Let_def)
qed

theorem dapr_port_replaced_witness:
  "channel_addr (new_CollectorClient [''DAPR_GRPC_PORT'' \<mapsto> ''52001''] ''localhost:55555'' []) = ''localhost:52001''
   \<and> channel_addr (new_CollectorClient [''DAPR_GRPC_PORT'' \<mapsto> ''52001''] ''localhost'' []) = ''52001''"
  using dapr_port_replaced [of "''55555''" "[''DAPR_GRPC_PORT'' \<mapsto> ''52001'']" "''localhost''" "[]"]
    dapr_port_replaced [of "''localhost''" "[''DAPR_GRPC_PORT'' \<mapsto> ''52001'']" "[]" "[]"]
  by (simp add: getEnvVar_def)

text \<open>
  A failed remote call always takes the connection down, is reported as fatal exactly for
  the codes INTERNAL, UNAUTHENTICATED and UNIMPLEMENTED, and changes nothing else of the
  client; a successful one changes nothing at all.
\<close>

theorem handleGrpcError_disconnects:
  "handleGrpcError st c =
    (st \<in> {GRPC_STATUS_INTERNAL, GRPC_STATUS_UNAUTHENTICATED, GRPC_STATUS_UNIMPLEMENTED},
     c\<lparr>cl_connected := cl_connected c \<and> status_ok st\<rparr>)"
  by (cases st) (auto simp: handleGrpcError_def status_ok_def SetDisconnected_def Let_def)

text \<open>
  Authorization of remote calls: the header is \<open>Bearer\<close> followed by the token given to
  the constructor, or by the one of \<open>BROKER_TOKEN\<close> when none was given; there is no header
  exactly when both are empty. The application header is present exactly when its variable is
  set to a non-empty text.
\<close>

theorem client_context_headers:
  "map_of (createClientContext (new_CollectorClient E addr tok)) ''authorization'' =
     (let t = (if tok = [] then getEnvVar E ''BROKER_TOKEN'' [] else tok)
      in if t = [] then None else Some (''Bearer '' @ t)) \<and>
   map_of (createClientContext (new_CollectorClient E addr tok)) ''dapr-app-id'' =
     (let a = getEnvVar E ''VEHICLEDATABROKER_DAPR_APP_ID'' [] in if a = [] then None else Some a)"
  by (simp add: createClientContext_def new_CollectorClient_def getGrpcMetadata_def Let_def)

end
