(* ===== verification/Actuator_Subscriber.thy ===== *)
theory Actuator_Subscriber
  imports Datapoint Collector_Client "HOL-Library.List_Lexorder" "HOL-Library.Char_ord"
begin

text \<open>
  The subscriber \<^verbatim>\<open>lib/broker_feeder/actuator_subscriber\<close>: \<open>Init\<close>, \<open>Run\<close> as the
  thread it is, and \<open>Shutdown\<close> called from another thread.

  \<open>ActuatorValues\<close> is a \<open>std::map\<close>: an association list in the order of its keys, which
  is the order in which the callback iterates over it. The order on texts is the one of the
  library (\<open>std::string\<close> compares bytes as unsigned values).

  The gRPC stream is not part of the repository. Of it the step relation has what its
  documentation promises: \<open>Read\<close> blocks until a message arrives (it succeeds with any
  message) or the stream has ended (it fails); \<open>Finish\<close> blocks until the stream has ended;
  a stream has ended when the server has closed it (\<open>server_close\<close>) or its context has been
  cancelled with \<open>TryCancel\<close>. The statuses are arbitrary.

  Two history variables record the responses read and the calls of the callback.
\<close>

section \<open>Data\<close>

datatype Field = FIELD_PATH | FIELD_VALUE | FIELD_ACTUATOR_TARGET | FIELD_METADATA

record DataEntry =
  de_path :: string
  de_value :: kuksa_value
  de_actuator_target :: kuksa_value

type_synonym ActuatorValues = "(string \<times> kuksa_value) list"

text \<open>\<open>std::map::emplace\<close>: in key order, and an entry that is there stays.\<close>

fun map_emplace :: "'k::linorder \<Rightarrow> 'v \<Rightarrow> ('k \<times> 'v) list \<Rightarrow> ('k \<times> 'v) list" where
  "map_emplace k v [] = [(k, v)]"
| "map_emplace k v (kv # m) =
     (if k < fst kv then (k, v) # kv # m
      else if k = fst kv then kv # m
      else kv # map_emplace k v m)"

definition subscribe_request :: "string list \<Rightarrow> (string \<times> Field list) list" where
  "subscribe_request acts =
     map (\<lambda>a. (a, [FIELD_ACTUATOR_TARGET, FIELD_METADATA, FIELD_VALUE])) acts"

definition add_change :: "DataEntry \<Rightarrow> ActuatorValues \<Rightarrow> ActuatorValues" where
  "add_change u changes = map_emplace (de_path u) (de_value u) changes"

record sub_context =
  ctx_metadata :: "(string \<times> string) list"
  ctx_cancelled :: bool

datatype sub_pc =
    Sub_start
  | Sub_loop
  | Sub_connect
  | Sub_subscribe
  | Sub_test
  | Sub_read
  | Sub_updates "DataEntry list" ActuatorValues
  | Sub_deliver ActuatorValues
  | Sub_finish
  | Sub_status grpc_status
  | Sub_destroy
  | Sub_done

record subscriber =
  sub_client :: CollectorClient
  subscriber_context :: "sub_context option"
  subscriber_active :: bool
  actuators :: "string list"
  cb :: bool
  sub_pc :: sub_pc
  sub_backoff :: int
  subscribed :: "(string \<times> Field list) list"
  stream_closed :: bool
  stop_entered :: nat
  stop_cancelling :: nat
  received :: "DataEntry list list"
  delivered :: "ActuatorValues list"

section \<open>Operations\<close>

definition new_subscriber :: "CollectorClient \<Rightarrow> subscriber" where
  "new_subscriber c =
     \<lparr>sub_client = c, subscriber_context = None, subscriber_active = False, actuators = [], cb = False,
      sub_pc = Sub_start, sub_backoff = 1, subscribed = [], stream_closed = False,
      stop_entered = 0, stop_cancelling = 0, received = [], delivered = []\<rparr>"

definition sub_Init :: "string list \<Rightarrow> bool \<Rightarrow> subscriber \<Rightarrow> subscriber" where
  "sub_Init subscribe_actuators has_cb s = s\<lparr>actuators := subscribe_actuators, cb := has_cb\<rparr>"

definition try_cancel :: "subscriber \<Rightarrow> subscriber" where
  "try_cancel s =
     s\<lparr>subscriber_context := map_option (\<lambda>c. c\<lparr>ctx_cancelled := True\<rparr>) (subscriber_context s)\<rparr>"

text \<open>A call of \<open>Shutdown\<close> that no other thread interrupts.\<close>

definition sub_Shutdown :: "subscriber \<Rightarrow> subscriber" where
  "sub_Shutdown s =
     (if subscriber_active s then try_cancel (s\<lparr>subscriber_active := False\<rparr>) else s)"

definition createInstance_subscriber :: "CollectorClient \<Rightarrow> subscriber" where
  [simp]: "createInstance_subscriber c = new_subscriber c"

definition destroy_subscriber :: "subscriber \<Rightarrow> subscriber" where
  "destroy_subscriber s = (if subscriber_active s then sub_Shutdown s else s)"

lemma sub_Shutdown_again [simp]: "destroy_subscriber (sub_Shutdown s) = sub_Shutdown s"
  by (simp add: destroy_subscriber_def sub_Shutdown_def try_cancel_def)

definition stream_ended :: "subscriber \<Rightarrow> bool" where
  "stream_ended s = (stream_closed s \<or>
     (case subscriber_context s of Some c \<Rightarrow> ctx_cancelled c | None \<Rightarrow> False))"

inductive sub_run_step :: "subscriber \<Rightarrow> subscriber \<Rightarrow> bool" where
  start_empty: "sub_pc s = Sub_start \<Longrightarrow> actuators s = [] \<Longrightarrow>
    sub_run_step s (s\<lparr>subscriber_active := False, sub_pc := Sub_done\<rparr>)"
| start: "sub_pc s = Sub_start \<Longrightarrow> actuators s \<noteq> [] \<Longrightarrow>
    sub_run_step s (s\<lparr>subscriber_active := True, sub_backoff := 1, sub_pc := Sub_loop\<rparr>)"
| loop: "sub_pc s = Sub_loop \<Longrightarrow>
    sub_run_step s (s\<lparr>sub_pc := (if subscriber_active s then Sub_connect else Sub_done)\<rparr>)"
| connect_failed: "sub_pc s = Sub_connect \<Longrightarrow>
    sub_run_step s (s\<lparr>sub_client := snd (WaitForConnected False (sub_client s)),
      sub_backoff := (if sub_backoff s < 10 then sub_backoff s + 1 else sub_backoff s),
      sub_pc := Sub_loop\<rparr>)"
| connect_ok: "sub_pc s = Sub_connect \<Longrightarrow>
    sub_run_step s (s\<lparr>sub_client := snd (WaitForConnected True (sub_client s)),
      sub_backoff := 1, sub_pc := Sub_subscribe\<rparr>)"
| subscribe: "sub_pc s = Sub_subscribe \<Longrightarrow>
    sub_run_step s (s\<lparr>subscriber_context :=
        Some \<lparr>ctx_metadata = createClientContext (sub_client s), ctx_cancelled = False\<rparr>,
      subscribed := subscribe_request (actuators s), stream_closed := False, sub_pc := Sub_test\<rparr>)"
| test: "sub_pc s = Sub_test \<Longrightarrow>
    sub_run_step s (s\<lparr>sub_pc := (if subscriber_active s then Sub_read else Sub_finish)\<rparr>)"
| read_ok: "sub_pc s = Sub_read \<Longrightarrow>
    sub_run_step s (s\<lparr>sub_pc := Sub_updates updates [], received := received s @ [updates]\<rparr>)"
| read_end: "sub_pc s = Sub_read \<Longrightarrow> stream_ended s \<Longrightarrow>
    sub_run_step s (s\<lparr>sub_pc := Sub_finish\<rparr>)"
| update: "sub_pc s = Sub_updates (u # us) changes \<Longrightarrow>
    sub_run_step s (s\<lparr>sub_pc := (if subscriber_active s then Sub_updates us (add_change u changes)
      else Sub_deliver changes)\<rparr>)"
| updates_end: "sub_pc s = Sub_updates [] changes \<Longrightarrow>
    sub_run_step s (s\<lparr>sub_pc := Sub_deliver changes\<rparr>)"
| deliver: "sub_pc s = Sub_deliver changes \<Longrightarrow>
    sub_run_step s (s\<lparr>sub_pc := Sub_test,
      delivered := (if cb s \<and> subscriber_active s then delivered s @ [changes] else delivered s)\<rparr>)"
| finish: "sub_pc s = Sub_finish \<Longrightarrow> stream_ended s \<Longrightarrow>
    sub_run_step s (s\<lparr>sub_pc := Sub_status st\<rparr>)"
| status: "sub_pc s = Sub_status st \<Longrightarrow>
    sub_run_step s (s\<lparr>sub_pc := Sub_destroy,
      sub_client := (if \<not> status_ok st \<and> subscriber_active s
        then snd (handleGrpcError st (sub_client s)) else sub_client s)\<rparr>)"
| destroy: "sub_pc s = Sub_destroy \<Longrightarrow>
    sub_run_step s (s\<lparr>subscriber_context := None, sub_pc := Sub_loop\<rparr>)"

text \<open>
  The parts of \<open>Shutdown\<close> in the threads that call it, and the feeder thread changing the
  connection flag of the shared client.
\<close>

inductive sub_call_step :: "subscriber \<Rightarrow> subscriber \<Rightarrow> bool" where
  stop_test: "subscriber_active s \<Longrightarrow> sub_call_step s (s\<lparr>stop_entered := stop_entered s + 1\<rparr>)"
| stop_clear: "0 < stop_entered s \<Longrightarrow>
    sub_call_step s (s\<lparr>stop_entered := stop_entered s - 1, stop_cancelling := stop_cancelling s + 1,
      subscriber_active := False\<rparr>)"
| stop_cancel: "0 < stop_cancelling s \<Longrightarrow>
    sub_call_step s (try_cancel (s\<lparr>stop_cancelling := stop_cancelling s - 1\<rparr>))"
| sub_other_wait: "sub_call_step s (s\<lparr>sub_client := snd (WaitForConnected b (sub_client s))\<rparr>)"
| sub_other_error: "sub_call_step s (s\<lparr>sub_client := snd (handleGrpcError st (sub_client s))\<rparr>)"

definition server_close :: "subscriber \<Rightarrow> subscriber \<Rightarrow> bool" where
  "server_close s t = (subscriber_context s \<noteq> None \<and> t = s\<lparr>stream_closed := True\<rparr>)"

definition sub_step :: "subscriber \<Rightarrow> subscriber \<Rightarrow> bool" where
  "sub_step s t = (sub_run_step s t \<or> sub_call_step s t \<or> server_close s t)"

definition sub_init :: "subscriber \<Rightarrow> bool" where
  "sub_init s = (\<exists>c acts has_cb. s = sub_Init acts has_cb (new_subscriber c))"

section \<open>Specification\<close>

definition changes_of :: "DataEntry list \<Rightarrow> ActuatorValues" where
  "changes_of us = fold add_change us []"

text \<open>The callback has been called for exactly these responses, in this order.\<close>

definition delivered_all :: "subscriber \<Rightarrow> DataEntry list list \<Rightarrow> bool" where
  "delivered_all s rs = (delivered s = (if cb s then map changes_of rs else []))"

definition delivery_ok :: "subscriber \<Rightarrow> bool" where
  "delivery_ok s =
     (case sub_pc s of
        Sub_start \<Rightarrow> received s = [] \<and> delivered s = [] \<and> \<not> subscriber_active s
      | Sub_read \<Rightarrow> delivered_all s (received s)
      | Sub_updates us changes \<Rightarrow> received s \<noteq> [] \<and> delivered_all s (butlast (received s)) \<and>
          (\<exists>seen. last (received s) = seen @ us \<and> changes = changes_of seen)
      | Sub_deliver changes \<Rightarrow> received s \<noteq> [] \<and> delivered_all s (butlast (received s)) \<and>
          (subscriber_active s \<longrightarrow> changes = changes_of (last (received s)))
      | _ \<Rightarrow> delivered_all s (received s) \<or>
          \<not> subscriber_active s \<and> received s \<noteq> [] \<and> delivered_all s (butlast (received s)))"

definition has_stream :: "sub_pc \<Rightarrow> bool" where
  "has_stream p =
     (case p of Sub_start \<Rightarrow> False | Sub_loop \<Rightarrow> False | Sub_connect \<Rightarrow> False | Sub_subscribe \<Rightarrow> False
      | Sub_done \<Rightarrow> False | _ \<Rightarrow> True)"

definition sub_inv :: "subscriber \<Rightarrow> bool" where
  "sub_inv s = (delivery_ok s \<and> has_stream (sub_pc s) = (subscriber_context s \<noteq> None) \<and>
     1 \<le> sub_backoff s \<and> sub_backoff s \<le> 10)"

text \<open>Nothing the thread still has to do before it returns can block.\<close>

definition stoppable :: "subscriber \<Rightarrow> bool" where
  "stoppable s = (\<not> subscriber_active s \<and>
     (case sub_pc s of
        Sub_start \<Rightarrow> False | Sub_connect \<Rightarrow> False | Sub_subscribe \<Rightarrow> False
      | Sub_loop \<Rightarrow> True | Sub_status _ \<Rightarrow> True | Sub_destroy \<Rightarrow> True | Sub_done \<Rightarrow> True
      | _ \<Rightarrow> stream_ended s))"

fun sub_rank :: "sub_pc \<Rightarrow> nat \<times> nat" where
  "sub_rank Sub_done = (0, 0)"
| "sub_rank Sub_loop = (1, 0)"
| "sub_rank Sub_destroy = (2, 0)"
| "sub_rank (Sub_status _) = (3, 0)"
| "sub_rank Sub_finish = (4, 0)"
| "sub_rank Sub_test = (5, 0)"
| "sub_rank (Sub_deliver _) = (6, 0)"
| "sub_rank (Sub_updates us _) = (7, length us)"
| "sub_rank Sub_read = (8, 0)"
| "sub_rank _ = (9, 0)"

definition rank_order :: "((nat \<times> nat) \<times> (nat \<times> nat)) set" where
  "rank_order = less_than <*lex*> less_than"

section \<open>Lemmas on the container\<close>

lemma fst_map_emplace: "fst ` set (map_emplace k v m) = insert k (fst ` set m)"
  by (induction m) auto

lemma sorted_map_emplace:
  "sorted_wrt (<) (map fst m) \<Longrightarrow> sorted_wrt (<) (map fst (map_emplace k v m))"
proof (induction m)
  case (Cons kv m)
  have "set (map fst (map_emplace k v m)) = insert k (fst ` set m)"
    using fst_map_emplace [of k v m] by simp
  with Cons show ?case by fastforce
qed simp

lemma map_of_map_emplace:
  "sorted_wrt (<) (map fst m) \<Longrightarrow> map_of (map_emplace k v m) = map_of [(k, v)] ++ map_of m"
proof (induction m)
  case (Cons kv m)
  obtain a b where kv: "kv = (a, b)" by (cases kv)
  have "map_of m k = None" if "k \<le> a"
    using that Cons.prems kv by (fastforce simp: map_of_eq_None_iff)
  with Cons kv show ?case by (auto simp: fun_eq_iff map_add_def split: option.splits)
qed simp

lemma changes_of_snoc: "changes_of (us @ [u]) = add_change u (changes_of us)"
  by (simp add: changes_of_def)

lemma sorted_changes_of: "sorted_wrt (<) (map fst (changes_of us))"
  by (induction us rule: rev_induct)
     (simp_all add: changes_of_snoc add_change_def sorted_map_emplace, simp add: changes_of_def)

lemma map_of_changes_of: "map_of (changes_of us) = map_of (map (\<lambda>u. (de_path u, de_value u)) us)"
proof (induction us rule: rev_induct)
  case (snoc u us)
  then show ?case by (auto simp: changes_of_snoc add_change_def sorted_changes_of map_of_map_emplace
      map_add_def fun_eq_iff split: option.splits)
qed (simp add: changes_of_def)

section \<open>The invariant\<close>

lemma try_cancel_frame [simp]:
  "sub_pc (try_cancel s) = sub_pc s" "subscriber_active (try_cancel s) = subscriber_active s"
  "received (try_cancel s) = received s" "delivered (try_cancel s) = delivered s"
  "cb (try_cancel s) = cb s" "sub_backoff (try_cancel s) = sub_backoff s"
  "stop_entered (try_cancel s) = stop_entered s" "stop_cancelling (try_cancel s) = stop_cancelling s"
  "(subscriber_context (try_cancel s) = None) = (subscriber_context s = None)"
  by (auto simp: try_cancel_def)

lemma run_step_delivery: "sub_run_step s t \<Longrightarrow> delivery_ok s \<Longrightarrow> delivery_ok t"
proof (induction rule: sub_run_step.induct)
  case (read_ok s updates)
  then show ?case
    by (auto simp: delivery_ok_def delivered_all_def changes_of_def intro: exI [of _ "[]"])
next
  case (update s u us changes)
  then obtain seen where seen: "last (received s) = seen @ u # us" "changes = changes_of seen"
    by (auto simp: delivery_ok_def)
  then have "last (received s) = (seen @ [u]) @ us \<and> add_change u changes = changes_of (seen @ [u])"
    by (simp add: changes_of_snoc)
  with update show ?case by (auto simp: delivery_ok_def delivered_all_def)
next
  case (deliver s changes)
  then obtain rs r where r: "received s = rs @ [r]" by (cases "received s" rule: rev_cases) (auto simp: delivery_ok_def)
  with deliver show ?case by (auto simp: delivery_ok_def delivered_all_def)
qed (auto simp: delivery_ok_def delivered_all_def)

lemma run_step_stream:
  "sub_run_step s t \<Longrightarrow> has_stream (sub_pc s) = (subscriber_context s \<noteq> None) \<Longrightarrow>
    has_stream (sub_pc t) = (subscriber_context t \<noteq> None)"
  by (induction rule: sub_run_step.induct) (auto simp: has_stream_def)

lemma run_step_backoff:
  "sub_run_step s t \<Longrightarrow> 1 \<le> sub_backoff s \<and> sub_backoff s \<le> 10 \<Longrightarrow> 1 \<le> sub_backoff t \<and> sub_backoff t \<le> 10"
  by (induction rule: sub_run_step.induct) auto

lemma run_step_sub_inv: "sub_run_step s t \<Longrightarrow> sub_inv s \<Longrightarrow> sub_inv t"
  using run_step_delivery run_step_stream run_step_backoff by (simp add: sub_inv_def)

lemma delivery_weaken:
  assumes "delivery_ok s" and "sub_pc t = sub_pc s" "received t = received s" "delivered t = delivered s"
    "cb t = cb s" and "subscriber_active t \<Longrightarrow> subscriber_active s"
  shows "delivery_ok t"
  using assms by (auto simp: delivery_ok_def delivered_all_def split: sub_pc.splits)

lemma call_step_sub_inv: "sub_call_step s t \<Longrightarrow> sub_inv s \<Longrightarrow> sub_inv t"
  by (induction rule: sub_call_step.induct) (auto simp: sub_inv_def intro: delivery_weaken)

interpretation sd: invariant_system sub_init sub_step sub_inv
proof unfold_locales
  show "sub_inv s" if "sub_init s" for s
    using that by (auto simp: sub_init_def sub_Init_def new_subscriber_def sub_inv_def delivery_ok_def has_stream_def)
  show "sub_inv t" if "sub_inv s" "sub_step s t" for s t
    using that run_step_sub_inv call_step_sub_inv
    by (auto simp: sub_step_def) (auto simp: sub_inv_def server_close_def intro: delivery_weaken)
qed

section \<open>Shutdown\<close>

lemma run_step_stoppable:
  "sub_run_step s t \<Longrightarrow> stoppable s \<Longrightarrow>
    stoppable t \<and> (sub_rank (sub_pc t), sub_rank (sub_pc s)) \<in> rank_order"
  by (induction rule: sub_run_step.induct)
     (auto simp: stoppable_def stream_ended_def rank_order_def)

lemma stream_ended_try_cancel: "stream_ended s \<Longrightarrow> stream_ended (try_cancel s)"
  by (auto simp: stream_ended_def try_cancel_def split: option.splits)

lemma call_step_stoppable:
  "sub_call_step s t \<Longrightarrow> stoppable s \<Longrightarrow> stoppable t \<and> sub_pc t = sub_pc s"
proof (induction rule: sub_call_step.induct)
  case (stop_cancel s)
  let ?s = "s\<lparr>stop_cancelling := stop_cancelling s - 1\<rparr>"
  have "stream_ended ?s = stream_ended s" by (simp add: stream_ended_def)
  with stop_cancel stream_ended_try_cancel [of ?s] show ?case
    by (auto simp: stoppable_def split: sub_pc.splits)
qed (auto simp: stoppable_def stream_ended_def split: sub_pc.splits)

lemma stoppable_progress:
  assumes "stoppable s" and "sub_pc s \<noteq> Sub_done"
  shows "\<exists>t. sub_run_step s t"
proof (cases "sub_pc s")
  case (Sub_updates us changes)
  then show ?thesis by (cases us) (auto intro: update updates_end)
qed (use assms in \<open>auto simp: stoppable_def intro: sub_run_step.intros\<close>)

lemma wf_rank_order: "wf rank_order"
  by (simp add: rank_order_def wf_lex_prod)

interpretation sw: terminating_system sub_run_step stoppable "\<lambda>s. sub_pc s = Sub_done"
    "\<lambda>s. sub_rank (sub_pc s)" rank_order
  by unfold_locales (simp_all add: wf_rank_order run_step_stoppable stoppable_progress)

lemma Shutdown_stoppable:
  assumes "sub_inv s" and "subscriber_active s" and "sub_pc s \<notin> {Sub_connect, Sub_subscribe}"
  shows "stoppable (sub_Shutdown s)"
  using assms
  by (auto simp: sub_inv_def stoppable_def sub_Shutdown_def stream_ended_def try_cancel_def has_stream_def
      delivery_ok_def split: sub_pc.splits)

text \<open>The thread waits in \<open>Finish\<close> on a stream that nobody cancels.\<close>

definition sub_blocked :: "subscriber \<Rightarrow> bool" where
  "sub_blocked s = (sub_pc s = Sub_finish \<and> \<not> subscriber_active s \<and> \<not> stream_ended s \<and>
     stop_entered s = 0 \<and> stop_cancelling s = 0)"

lemma sub_blocked_step: "sub_blocked s \<Longrightarrow> sub_run_step s t \<or> sub_call_step s t \<Longrightarrow> sub_blocked t"
  by (auto simp: sub_blocked_def stream_ended_def elim!: sub_run_step.cases sub_call_step.cases)

lemma sub_blocked_forever:
  assumes "(\<lambda>s t. sub_run_step s t \<or> sub_call_step s t)\<^sup>*\<^sup>* s t" and "sub_blocked s"
  shows "sub_blocked t"
  using assms by (induction rule: rtranclp_induct) (auto dest: sub_blocked_step)

lemma sub_run_reach: "reach sub_init sub_step s \<Longrightarrow> sub_run_step s t \<Longrightarrow> reach sub_init sub_step t"
  by (erule reach_step) (simp add: sub_step_def)

lemma sub_call_reach: "reach sub_init sub_step s \<Longrightarrow> sub_call_step s t \<Longrightarrow> reach sub_init sub_step t"
  by (erule reach_step) (simp add: sub_step_def)

text \<open>A subscriber for one actuator that has just been connected.\<close>

definition sub_connected :: "CollectorClient \<Rightarrow> string list \<Rightarrow> subscriber" where
  "sub_connected c acts = (sub_Init acts True (new_subscriber c))\<lparr>subscriber_active := True,
     sub_client := snd (WaitForConnected True c), sub_pc := Sub_subscribe\<rparr>"

lemma sub_connected_reach:
  assumes "acts \<noteq> []"
  shows "reach sub_init sub_step (sub_connected c acts)"
proof -
  let ?i = "sub_Init acts True (new_subscriber c)"
  note d = sub_Init_def new_subscriber_def sub_connected_def
  have "reach sub_init sub_step ?i" by (rule reach_init) (auto simp: sub_init_def)
  moreover have "sub_run_step ?i (?i\<lparr>subscriber_active := True, sub_pc := Sub_loop\<rparr>)"
    using start [of ?i] assms by (simp add: d)
  moreover have "sub_run_step (?i\<lparr>subscriber_active := True, sub_pc := Sub_loop\<rparr>)
      (?i\<lparr>subscriber_active := True, sub_pc := Sub_connect\<rparr>)"
    using loop [of "?i\<lparr>subscriber_active := True, sub_pc := Sub_loop\<rparr>"] by (simp add: d)
  moreover have "sub_run_step (?i\<lparr>subscriber_active := True, sub_pc := Sub_connect\<rparr>) (sub_connected c acts)"
    using connect_ok [of "?i\<lparr>subscriber_active := True, sub_pc := Sub_connect\<rparr>"] by (simp add: d)
  ultimately show ?thesis by (meson sub_step_def reach_step)
qed

text \<open>The same subscriber while it reads, after a response.\<close>

definition sub_reading :: "CollectorClient \<Rightarrow> string list \<Rightarrow> DataEntry list \<Rightarrow> subscriber" where
  "sub_reading c acts us = (sub_connected c acts)\<lparr>subscriber_context :=
     Some \<lparr>ctx_metadata = createClientContext (snd (WaitForConnected True c)), ctx_cancelled = False\<rparr>,
     subscribed := subscribe_request acts, received := [us], sub_pc := Sub_updates us []\<rparr>"

lemma sub_reading_reach:
  assumes "acts \<noteq> []"
  shows "reach sub_init sub_step (sub_reading c acts us)"
proof -
  let ?r = "sub_reading c acts us"
  note d = sub_Init_def new_subscriber_def sub_connected_def sub_reading_def
  have "sub_run_step (sub_connected c acts) (?r\<lparr>received := [], sub_pc := Sub_test\<rparr>)"
    using subscribe [of "sub_connected c acts"] by (simp add: d)
  moreover have "sub_run_step (?r\<lparr>received := [], sub_pc := Sub_test\<rparr>) (?r\<lparr>received := [], sub_pc := Sub_read\<rparr>)"
    using test [of "?r\<lparr>received := [], sub_pc := Sub_test\<rparr>"] by (simp add: d)
  moreover have "sub_run_step (?r\<lparr>received := [], sub_pc := Sub_read\<rparr>) ?r"
    using read_ok [of "?r\<lparr>received := [], sub_pc := Sub_read\<rparr>" us] by (simp add: d)
  ultimately show ?thesis using sub_connected_reach [OF assms, of c] by (meson sub_step_def reach_step)
qed

section \<open>Properties\<close>

text \<open>
  The batch handed to the callback is the response's updates as a map: a path that occurs
  several times keeps its first value, the keys are in increasing order, and no other path
  occurs. The value delivered is the entry's current value, not its actuator target.
\<close>

theorem changes_first_update_wins:
  "map_of (changes_of us) = map_of (map (\<lambda>u. (de_path u, de_value u)) us) \<and>
   sorted_wrt (<) (map fst (changes_of us))"
  by (simp add: map_of_changes_of sorted_changes_of)

text \<open>
  C16. Responses are delivered in the order they are read, each exactly once: in every reachable
  state the callback has been called for all responses but at most the last, for all of them
  whenever the thread is about to read the next one, and never for a different batch.
\<close>

theorem subscriber_delivers_in_order:
  assumes "reach sub_init sub_step s" and "cb s"
  shows "delivered s = map changes_of (received s) \<or>
      (sub_pc s \<noteq> Sub_read \<and> received s \<noteq> [] \<and> delivered s = map changes_of (butlast (received s)))"
  using sd.reach_inv [OF assms(1)] assms(2)
  by (auto simp: sub_inv_def delivery_ok_def delivered_all_def split: sub_pc.splits)

theorem subscriber_delivers_in_order_witness:
  "delivered (sub_reading (new_CollectorClient Map.empty [] []) [''A''] []) \<in> {[], [[]]}"
proof -
  let ?s = "sub_reading (new_CollectorClient Map.empty [] []) [''A''] []"
  have "cb ?s" and r: "received ?s = [[]]"
    by (simp_all add: sub_reading_def sub_connected_def sub_Init_def new_subscriber_def)
  from subscriber_delivers_in_order [OF sub_reading_reach this(1)] r
  show ?thesis by (auto simp: changes_of_def)
qed

text \<open>
  While it cannot reach the broker the thread waits between one and ten seconds, and it
  holds a client context exactly while it has a stream, in every reachable state.
\<close>

theorem subscriber_backoff_bounds:
  assumes "reach sub_init sub_step s"
  shows "1 \<le> sub_backoff s \<and> sub_backoff s \<le> 10 \<and>
    has_stream (sub_pc s) = (subscriber_context s \<noteq> None)"
  using sd.reach_inv [OF assms] by (simp add: sub_inv_def)

theorem subscriber_backoff_bounds_witness:
  "subscriber_context (sub_reading (new_CollectorClient Map.empty [] []) [''A''] []) \<noteq> None"
  using subscriber_backoff_bounds [OF sub_reading_reach [of "[''A'']" "new_CollectorClient Map.empty [] []" "[]"]]
  by (simp add: has_stream_def sub_reading_def)

text \<open>
  C18. \<open>Shutdown\<close> ends the thread unless it is between connecting and subscribing: at any
  other point of a running \<open>Run\<close> it clears the flag and cancels the stream if there is one,
  after which no read and no \<open>Finish\<close> can block, every step of the thread brings it closer to
  its return, and it returns.
\<close>

theorem subscriber_shutdown_returns:
  assumes "reach sub_init sub_step s" and "subscriber_active s"
    and "sub_pc s \<notin> {Sub_connect, Sub_subscribe}"
  shows "stoppable (sub_Shutdown s) \<and>
    (\<exists>t. sub_run_step\<^sup>*\<^sup>* (sub_Shutdown s) t \<and> sub_pc t = Sub_done) \<and>
    (\<forall>a b. stoppable a \<and> sub_run_step a b \<longrightarrow>
       stoppable b \<and> (sub_rank (sub_pc b), sub_rank (sub_pc a)) \<in> rank_order)"
  using Shutdown_stoppable [OF sd.reach_inv [OF assms(1)] assms(2,3)] sw.returns sw.good_step sw.rank_step
  by blast

theorem subscriber_shutdown_returns_witness:
  "\<exists>t. sub_run_step\<^sup>*\<^sup>* (sub_Shutdown (sub_reading (new_CollectorClient Map.empty [] []) [''A''] [])) t \<and>
    sub_pc t = Sub_done"
  using subscriber_shutdown_returns [OF sub_reading_reach [of "[''A'']" "new_CollectorClient Map.empty [] []" "[]"]]
  by (simp add: sub_reading_def sub_connected_def)

text \<open>
  C39. The exception is real: a \<open>Shutdown\<close> that comes after the connection and before the
  subscription finds no context to cancel; the thread then opens a stream, leaves the read loop
  at once and blocks in \<open>Finish\<close> until the server closes the stream. No later call of
  \<open>Shutdown\<close> cancels it, because the flag is already clear.
\<close>

theorem subscriber_shutdown_can_block:
  "\<exists>s. reach sub_init sub_step s \<and> sub_pc s = Sub_finish \<and> \<not> subscriber_active s \<and> sub_Shutdown s = s \<and>
    {t. (\<lambda>a b. sub_run_step a b \<or> sub_call_step a b)\<^sup>*\<^sup>* s t} \<subseteq> {t. sub_pc t = Sub_finish}"
proof -
  define c where "c = new_CollectorClient Map.empty [] []"
  let ?u = "sub_connected c [''A'']"
  let ?v = "?u\<lparr>subscriber_active := False\<rparr>"
  let ?w = "?v\<lparr>subscriber_context :=
     Some \<lparr>ctx_metadata = createClientContext (snd (WaitForConnected True c)), ctx_cancelled = False\<rparr>,
     subscribed := subscribe_request [''A''], sub_pc := Sub_test\<rparr>"
  let ?h = "?w\<lparr>sub_pc := Sub_finish\<rparr>"
  note d = sub_Init_def new_subscriber_def sub_connected_def
  have 1: "sub_call_step ?u (?u\<lparr>stop_entered := 1\<rparr>)"
    using stop_test [of ?u] by (simp add: d)
  have 2: "sub_call_step (?u\<lparr>stop_entered := 1\<rparr>) (?v\<lparr>stop_cancelling := 1\<rparr>)"
    using stop_clear [of "?u\<lparr>stop_entered := 1\<rparr>"] by (simp add: d)
  have 3: "sub_call_step (?v\<lparr>stop_cancelling := 1\<rparr>) ?v"
    using stop_cancel [of "?v\<lparr>stop_cancelling := 1\<rparr>"] by (simp add: d try_cancel_def)
  have 4: "sub_run_step ?v ?w" using subscribe [of ?v] by (simp add: d)
  have 5: "sub_run_step ?w ?h" using test [of ?w] by (simp add: d)
  have "reach sub_init sub_step ?u" by (rule sub_connected_reach) simp
  note r = sub_run_reach [OF sub_run_reach [OF sub_call_reach [OF sub_call_reach [OF sub_call_reach
    [OF this 1] 2] 3] 4] 5]
  have b: "sub_blocked ?h" by (simp add: sub_blocked_def stream_ended_def d)
  have f: "{t. (\<lambda>a b. sub_run_step a b \<or> sub_call_step a b)\<^sup>*\<^sup>* ?h t} \<subseteq> {t. sub_pc t = Sub_finish}"
    using sub_blocked_forever [OF _ b] by (auto simp: sub_blocked_def)
  have "sub_Shutdown ?h = ?h" by (simp add: sub_Shutdown_def)
  with r f show ?thesis by (intro exI [of _ ?h] conjI) simp_all
qed

end
