(* ===== verification/Someip_Config.thy ===== *)
theory Someip_Config
  imports Json_Instance
begin

text \<open>
  The configuration half of \<^verbatim>\<open>someip-feeder/src/lib/someip_client\<close>: the structures of
  \<^verbatim>\<open>someip_client.h\<close>, the environment readers \<open>getEnvironmentInt\<close> and
  \<open>getEnvironmentStr\<close>, the mapping-file reader \<open>getjsonConfig\<close> and
  \<open>SomeIPClient::createEnvConfig\<close>.

  Arguments that stand for code outside the repository: the JSON interface \<open>J\<close>, opening and
  parsing a file (\<open>open_file\<close> and \<open>parse\<close>, \<open>None\<close> when the stream is not open or the
  reader reports an error), and the vsomeip constants \<open>ANY_MAJOR\<close> and \<open>ANY_MINOR\<close>. The
  \<open>std::map\<close> of transformations only ever has string keys; it is an association list with
  distinct keys.
\<close>

section \<open>Structures\<close>

definition SAMPLE_SERVICE_ID :: u16 where "SAMPLE_SERVICE_ID = 0x1234"
definition SAMPLE_INSTANCE_ID :: u16 where "SAMPLE_INSTANCE_ID = 0x5678"
definition SAMPLE_EVENTGROUP_ID :: u16 where "SAMPLE_EVENTGROUP_ID = 0x4465"
definition SAMPLE_EVENT_ID :: u16 where "SAMPLE_EVENT_ID = 0x8000"
definition SAMPLE_INVALID_VALUE :: u16 where "SAMPLE_INVALID_VALUE = 0x0000"

record SomeIPRequestConfig =
  use_req :: bool
  rq_service :: u16
  rq_instance :: u16
  rq_method :: u16
  rq_service_major :: u8
  rq_service_minor :: u32

record 'j VSSNode =
  node_name :: string
  node_datatype :: string
  byteOffset :: u64
  node_length :: u8
  methodId :: u16
  transformMapping :: "(string \<times> 'j) list"

record SOMEIPConfigdata =
  serviceType :: string
  serviceID :: u16
  instanceID :: u16
  methodID :: u16
  EventID :: u16
  EventGroup :: u16
  majorVersion :: u8
  minorVersion :: u32

record 'j VSSConfigInfo =
  metaData :: SOMEIPConfigdata
  vssNodes :: "'j VSSNode list"

record 'j SomeIPConfig =
  app_name :: string
  app_config :: string
  feeder_json_config :: string
  use_tcp :: bool
  debug :: int
  service :: u16
  instance_id :: u16
  event_group :: u16
  event :: u16
  service_major :: u8
  service_minor :: u32
  req :: SomeIPRequestConfig
  VSSMap :: "'j VSSConfigInfo list"

definition default_request_config :: "u8 \<Rightarrow> u32 \<Rightarrow> SomeIPRequestConfig" where
  "default_request_config any_major any_minor =
     \<lparr>use_req = False, rq_service = SAMPLE_INVALID_VALUE, rq_instance = SAMPLE_INVALID_VALUE,
      rq_method = SAMPLE_INVALID_VALUE, rq_service_major = any_major,
      rq_service_minor = any_minor\<rparr>"

definition default_config :: "u8 \<Rightarrow> u32 \<Rightarrow> 'j SomeIPConfig" where
  "default_config any_major any_minor =
     \<lparr>app_name = ''UNKNOWN'', app_config = [], feeder_json_config = [], use_tcp = False,
      debug = 0, service = SAMPLE_SERVICE_ID, instance_id = SAMPLE_INSTANCE_ID,
      event_group = SAMPLE_EVENTGROUP_ID, event = SAMPLE_EVENT_ID,
      service_major = any_major, service_minor = any_minor,
      req = default_request_config any_major any_minor, VSSMap = []\<rparr>"

section \<open>Environment\<close>

definition getEnvironmentInt :: "env \<Rightarrow> string \<Rightarrow> int \<Rightarrow> int" where
  "getEnvironmentInt E envVar defaultValue =
     (case E envVar of
        None \<Rightarrow> defaultValue
      | Some envValue \<Rightarrow>
          (case stoi0 envValue of Inr result \<Rightarrow> result | Inl _ \<Rightarrow> defaultValue))"

definition getEnvironmentStr :: "env \<Rightarrow> string \<Rightarrow> string \<Rightarrow> string" where
  "getEnvironmentStr E envVar defaultValue =
     (case E envVar of None \<Rightarrow> defaultValue | Some v \<Rightarrow> v)"

section \<open>The mapping file\<close>

definition index_uint :: "'j json \<Rightarrow> 'j \<Rightarrow> string \<Rightarrow> cpp_error + u32" where
  "index_uint J v key = ebind (j_index J v key) (j_asUInt J)"

definition get_uint :: "'j json \<Rightarrow> 'j \<Rightarrow> string \<Rightarrow> int \<Rightarrow> cpp_error + u32" where
  "get_uint J v key d = ebind (j_get J v key (j_of_int J d)) (j_asUInt J)"

definition parse_metadata :: "'j json \<Rightarrow> 'j \<Rightarrow> cpp_error + SOMEIPConfigdata" where
  "parse_metadata J m =
     ebind (ebind (j_index J m ''ServiceType'') (j_asString J)) (\<lambda>st.
     ebind (index_uint J m ''ServiceID'') (\<lambda>sid.
     ebind (index_uint J m ''InstanceID'') (\<lambda>iid.
     ebind (get_uint J m ''MethodID'' 0) (\<lambda>mid.
     ebind (get_uint J m ''EventID'' 0) (\<lambda>eid.
     ebind (get_uint J m ''EventGroup'' 0) (\<lambda>eg.
     ebind (index_uint J m ''MAJOR_VERSION'') (\<lambda>maj.
     ebind (index_uint J m ''MINOR_VERSION'') (\<lambda>mnr.
       Inr \<lparr>serviceType = st, serviceID = ucast sid, instanceID = ucast iid,
            methodID = ucast mid, EventID = ucast eid, EventGroup = ucast eg,
            majorVersion = ucast maj, minorVersion = mnr\<rparr>))))))))"

definition add_transform ::
  "'j json \<Rightarrow> 'j \<Rightarrow> (string \<times> 'j) list \<Rightarrow> cpp_error + (string \<times> 'j) list" where
  "add_transform J mapping tm =
     ebind (ebind (j_index J mapping ''from'') (j_asString J)) (\<lambda>key.
     ebind (j_index J mapping ''to'') (\<lambda>v.
       Inr (AList.update key v tm)))"

definition parse_transform :: "'j json \<Rightarrow> 'j \<Rightarrow> cpp_error + (string \<times> 'j) list" where
  "parse_transform J node =
     ebind (j_isMember J node ''Transform'') (\<lambda>present.
       if present then
         ebind (ebind (j_index J node ''Transform'') (\<lambda>t. j_index J t ''transform'')) (\<lambda>tr.
           efold (add_transform J) (j_elems J tr) [])
       else Inr [])"

definition parse_node :: "'j json \<Rightarrow> 'j \<Rightarrow> cpp_error + 'j VSSNode" where
  "parse_node J node =
     ebind (ebind (j_index J node ''Name'') (j_asString J)) (\<lambda>nm.
     ebind (ebind (j_index J node ''ByteOffset'') (j_asUInt64 J)) (\<lambda>off.
     ebind (ebind (j_index J node ''DataType'') (j_asString J)) (\<lambda>dt.
     ebind (index_uint J node ''Length'') (\<lambda>len.
     ebind (index_uint J node ''MethodID'') (\<lambda>mid.
     ebind (parse_transform J node) (\<lambda>tm.
       Inr \<lparr>node_name = nm, node_datatype = dt, byteOffset = off, node_length = ucast len,
            methodId = ucast mid, transformMapping = tm\<rparr>))))))"

definition parse_mapping :: "'j json \<Rightarrow> 'j \<Rightarrow> cpp_error + 'j VSSConfigInfo" where
  "parse_mapping J m =
     ebind (parse_metadata J m) (\<lambda>md.
     ebind (j_index J m ''VSSNode'') (\<lambda>vssList.
     ebind (efold (\<lambda>node ns. ebind (parse_node J node) (\<lambda>n. Inr (ns @ [n]))) (j_elems J vssList) [])
       (\<lambda>ns. Inr \<lparr>metaData = md, vssNodes = ns\<rparr>)))"

definition getjsonConfig ::
  "'j json \<Rightarrow> (string \<Rightarrow> 'f option) \<Rightarrow> ('f \<Rightarrow> 'j option) \<Rightarrow> string \<Rightarrow> 'j VSSConfigInfo list
     \<Rightarrow> cpp_error + (int \<times> 'j VSSConfigInfo list)" where
  "getjsonConfig J open_file parse filename vssInfo =
     (case open_file filename of
        None \<Rightarrow> Inr (-1, vssInfo)
      | Some ifs \<Rightarrow>
          (case parse ifs of
             None \<Rightarrow> Inr (-1, vssInfo)
           | Some root \<Rightarrow>
               ebind (j_index J root ''SomeipMapping'') (\<lambda>someipMappings.
               ebind (efold (\<lambda>m acc. ebind (parse_mapping J m) (\<lambda>c. Inr (acc @ [c])))
                        (j_elems J someipMappings) vssInfo)
                 (\<lambda>infos. Inr (0, infos)))))"

section \<open>The client configuration\<close>

definition apply_mapping :: "'j VSSConfigInfo \<Rightarrow> 'j SomeIPConfig \<Rightarrow> 'j SomeIPConfig" where
  "apply_mapping m config =
     (let md = metaData m in
      if serviceType md = ''Event'' then
        config\<lparr>service := serviceID md, instance_id := instanceID md, event_group := EventGroup md,
               event := EventID md, service_major := majorVersion md,
               service_minor := minorVersion md\<rparr>
      else if serviceType md = ''Method'' then
        config\<lparr>req := (req config)\<lparr>rq_service := serviceID md, rq_instance := instanceID md,
               rq_service_major := majorVersion md, rq_service_minor := minorVersion md,
               rq_method := methodID md\<rparr>\<rparr>
      else config)"

definition createEnvConfig ::
  "'j json \<Rightarrow> (string \<Rightarrow> 'f option) \<Rightarrow> ('f \<Rightarrow> 'j option) \<Rightarrow> u8 \<Rightarrow> u32 \<Rightarrow> env
     \<Rightarrow> cpp_error + 'j SomeIPConfig" where
  "createEnvConfig J open_file parse any_major any_minor E =
     (let config = default_config any_major any_minor;
          config = config\<lparr>debug := getEnvironmentInt E ''SOMEIP_CLI_DEBUG'' 1,
            use_tcp := (getEnvironmentInt E ''SOMEIP_CLI_TCP'' 0 = 1),
            app_config := getEnvironmentStr E ''VSOMEIP_CONFIGURATION'' [],
            feeder_json_config := getEnvironmentStr E ''FEEDER_CONFIGURATION'' [],
            app_name := getEnvironmentStr E ''VSOMEIP_APPLICATION_NAME'' ''UNKNOWN'',
            req := (req config)\<lparr>use_req := True\<rparr>\<rparr>
      in ebind (getjsonConfig J open_file parse (feeder_json_config config) (VSSMap config))
           (\<lambda>(rc, infos).
             let config = config\<lparr>VSSMap := infos\<rparr>
             in Inr (fold apply_mapping (VSSMap config) config)))"

section \<open>Specification\<close>

definition last_of :: "string \<Rightarrow> 'j VSSConfigInfo list \<Rightarrow> SOMEIPConfigdata option" where
  "last_of ty ms = map_option metaData (List.find (\<lambda>m. serviceType (metaData m) = ty) (rev ms))"

definition event_target :: "SOMEIPConfigdata \<Rightarrow> u16 \<times> u16 \<times> u16 \<times> u16 \<times> u8 \<times> u32" where
  "event_target md = (serviceID md, instanceID md, EventGroup md, EventID md,
     majorVersion md, minorVersion md)"

definition event_binding :: "'j SomeIPConfig \<Rightarrow> u16 \<times> u16 \<times> u16 \<times> u16 \<times> u8 \<times> u32" where
  "event_binding c = (service c, instance_id c, event_group c, event c,
     service_major c, service_minor c)"

definition method_target :: "SOMEIPConfigdata \<Rightarrow> u16 \<times> u16 \<times> u16 \<times> u8 \<times> u32" where
  "method_target md = (serviceID md, instanceID md, methodID md, majorVersion md, minorVersion md)"

definition method_binding :: "'j SomeIPConfig \<Rightarrow> u16 \<times> u16 \<times> u16 \<times> u8 \<times> u32" where
  "method_binding c = (rq_service (req c), rq_instance (req c), rq_method (req c),
     rq_service_major (req c), rq_service_minor (req c))"

section \<open>Lemmas\<close>

lemma last_of_snoc:
  "last_of ty (ms @ [m]) =
    (if serviceType (metaData m) = ty then Some (metaData m) else last_of ty ms)"
  by (simp add: last_of_def)

lemma last_of_Nil [simp]: "last_of ty [] = None"
  by (simp add: last_of_def)

lemma apply_mappings_event:
  "event_binding (fold apply_mapping ms c) =
    (case last_of ''Event'' ms of None \<Rightarrow> event_binding c | Some md \<Rightarrow> event_target md)"
  by (induction ms rule: rev_induct)
     (auto simp: last_of_snoc apply_mapping_def Let_def event_binding_def event_target_def
       split: option.splits)

lemma apply_mappings_method:
  "method_binding (fold apply_mapping ms c) =
    (case last_of ''Method'' ms of None \<Rightarrow> method_binding c | Some md \<Rightarrow> method_target md)"
  by (induction ms rule: rev_induct)
     (auto simp: last_of_snoc apply_mapping_def Let_def method_binding_def method_target_def
       split: option.splits)

lemma apply_mappings_frame:
  "VSSMap (fold apply_mapping ms c) = VSSMap c \<and> use_req (req (fold apply_mapping ms c)) = use_req (req c)
   \<and> debug (fold apply_mapping ms c) = debug c \<and> use_tcp (fold apply_mapping ms c) = use_tcp c
   \<and> app_name (fold apply_mapping ms c) = app_name c"
  by (induction ms arbitrary: c) (simp_all add: apply_mapping_def Let_def)

text \<open>A loop that appends one parsed element per input element, as both readers do.\<close>

lemma efold_collect:
  "efold (\<lambda>x acc. ebind (f x) (\<lambda>y. Inr (acc @ [y]))) xs acc = Inr out \<longleftrightarrow>
    (\<exists>ys. out = acc @ ys \<and> list_all2 (\<lambda>x y. f x = Inr y) xs ys)"
proof (induction xs arbitrary: acc)
  case (Cons x xs)
  then show ?case
    by (cases "f x") (auto simp: list_all2_Cons1)
qed auto

lemma parse_node_fields:
  assumes "parse_node J v = Inr n"
  shows "\<exists>len mid. index_uint J v ''Length'' = Inr len \<and> index_uint J v ''MethodID'' = Inr mid \<and>
    unat (node_length n) = unat len mod 256 \<and> unat (methodId n) = unat mid mod 65536"
  using assms by (auto simp: parse_node_def bind_simps unsigned_ucast_eq take_bit_eq_mod)

lemma distinct_add_transform:
  "add_transform J m tm = Inr tm' \<Longrightarrow> distinct (map fst tm) \<Longrightarrow> distinct (map fst tm')"
  by (auto simp: add_transform_def bind_simps distinct_update)

lemma parse_node_distinct:
  assumes "parse_node J v = Inr n"
  shows "distinct (map fst (transformMapping n))"
proof -
  from assms have t: "parse_transform J v = Inr (transformMapping n)"
    by (auto simp: parse_node_def bind_simps)
  show ?thesis
  proof (cases "transformMapping n = []")
    case False
    with t obtain tr where "efold (add_transform J) (j_elems J tr) [] = Inr (transformMapping n)"
      by (auto simp: parse_transform_def bind_simps split: if_splits)
    then show ?thesis
      by (rule efold_inv) (auto dest: distinct_add_transform)
  qed simp
qed

lemma createEnvConfig_Inr:
  assumes "createEnvConfig J open_file parse any_major any_minor E = Inr c"
  obtains c0 where "c = fold apply_mapping (VSSMap c) c0" and "VSSMap c0 = VSSMap c"
    and "event_binding c0 = (SAMPLE_SERVICE_ID, SAMPLE_INSTANCE_ID, SAMPLE_EVENTGROUP_ID, SAMPLE_EVENT_ID,
      any_major, any_minor)"
    and "method_binding c0 = (SAMPLE_INVALID_VALUE, SAMPLE_INVALID_VALUE, SAMPLE_INVALID_VALUE,
      any_major, any_minor)"
    and "use_req (req c0)" and "debug c0 = getEnvironmentInt E ''SOMEIP_CLI_DEBUG'' 1"
    and "use_tcp c0 = (getEnvironmentInt E ''SOMEIP_CLI_TCP'' 0 = 1)"
proof -
  let ?d = "default_config any_major any_minor :: 'a SomeIPConfig"
  let ?c1 = "?d\<lparr>debug := getEnvironmentInt E ''SOMEIP_CLI_DEBUG'' 1,
      use_tcp := (getEnvironmentInt E ''SOMEIP_CLI_TCP'' 0 = 1),
      app_config := getEnvironmentStr E ''VSOMEIP_CONFIGURATION'' [],
      feeder_json_config := getEnvironmentStr E ''FEEDER_CONFIGURATION'' [],
      app_name := getEnvironmentStr E ''VSOMEIP_APPLICATION_NAME'' ''UNKNOWN'',
      req := (req ?d)\<lparr>use_req := True\<rparr>\<rparr>"
  from assms obtain infos where c: "c = fold apply_mapping infos (?c1\<lparr>VSSMap := infos\<rparr>)"
    by (auto simp: createEnvConfig_def Let_def bind_simps)
  then have "VSSMap c = infos" by (simp add: apply_mappings_frame)
  with c that [of "?c1\<lparr>VSSMap := infos\<rparr>"] show thesis
    by (simp add: event_binding_def method_binding_def default_config_def default_request_config_def)
qed

section \<open>Properties\<close>

text \<open>
  C37. The client configuration made from the environment and the mapping file is bound to the
  last \<open>Event\<close> entry and to the last \<open>Method\<close> entry of the file; without such an entry
  the sample identifiers and the wildcard versions stay. Request support is always enabled.
\<close>

theorem createEnvConfig_last_mapping_wins:
  assumes "createEnvConfig J open_file parse any_major any_minor E = Inr c"
  shows "event_binding c = (case last_of ''Event'' (VSSMap c) of
      None \<Rightarrow> (SAMPLE_SERVICE_ID, SAMPLE_INSTANCE_ID, SAMPLE_EVENTGROUP_ID, SAMPLE_EVENT_ID,
               any_major, any_minor)
    | Some md \<Rightarrow> event_target md) \<and>
    method_binding c = (case last_of ''Method'' (VSSMap c) of
      None \<Rightarrow> (SAMPLE_INVALID_VALUE, SAMPLE_INVALID_VALUE, SAMPLE_INVALID_VALUE, any_major, any_minor)
    | Some md \<Rightarrow> method_target md) \<and>
    use_req (req c)"
proof -
  from assms obtain c0 where c0: "c = fold apply_mapping (VSSMap c) c0"
    "event_binding c0 = (SAMPLE_SERVICE_ID, SAMPLE_INSTANCE_ID, SAMPLE_EVENTGROUP_ID, SAMPLE_EVENT_ID,
      any_major, any_minor)"
    "method_binding c0 = (SAMPLE_INVALID_VALUE, SAMPLE_INVALID_VALUE, SAMPLE_INVALID_VALUE,
      any_major, any_minor)" "use_req (req c0)"
    by (rule createEnvConfig_Inr) blast
  have "event_binding c = (case last_of ''Event'' (VSSMap c) of None \<Rightarrow> event_binding c0 | Some md \<Rightarrow> event_target md)"
    and "method_binding c = (case last_of ''Method'' (VSSMap c) of None \<Rightarrow> method_binding c0 | Some md \<Rightarrow> method_target md)"
    and "use_req (req c)"
    by (subst c0(1), simp add: apply_mappings_event apply_mappings_method apply_mappings_frame c0(4))+
  then show ?thesis by (simp add: c0(2,3) split: option.split)
qed

text \<open>The mapping file of \<^verbatim>\<open>config/horn_feeder_mapping.json\<close> in the concrete JSON instance.\<close>

definition horn_mapping :: jv where
  "horn_mapping = JObj [(''SomeipMapping'', JArr [
     JObj [(''ServiceType'', JStr ''Event''), (''ServiceID'', JInt 18512), (''InstanceID'', JInt 10),
       (''EventID'', JInt 32773), (''EventGroup'', JInt 1), (''MAJOR_VERSION'', JInt 1),
       (''MINOR_VERSION'', JInt 0), (''VSSNode'', JArr [
         JObj [(''Name'', JStr ''Vehicle.Body.Horn.IsActive''), (''ByteOffset'', JInt 0),
           (''DataType'', JStr ''BOOL''), (''Length'', JInt 1), (''MethodID'', JInt 32773)]])],
     JObj [(''ServiceType'', JStr ''Method''), (''ServiceID'', JInt 18512), (''InstanceID'', JInt 10),
       (''MethodID'', JInt 1), (''MAJOR_VERSION'', JInt 1), (''MINOR_VERSION'', JInt 0),
       (''VSSNode'', JArr [
         JObj [(''Name'', JStr ''Vehicle.Body.Horn.HornControl''), (''ByteOffset'', JInt 0),
           (''DataType'', JStr ''uint8[]''), (''Length'', JInt 4), (''MethodID'', JInt 1)]])]])]"

definition horn_config :: "cpp_error + jv SomeIPConfig" where
  "horn_config = createEnvConfig jv_json (\<lambda>_. Some horn_mapping) Some 255 4294967295 (\<lambda>_. None)"

theorem createEnvConfig_last_mapping_wins_witness:
  "\<exists>c. horn_config = Inr c \<and> event_binding c = (18512, 10, 1, 32773, 1, 0) \<and>
    method_binding c = (18512, 10, 1, 1, 0) \<and> use_req (req c)"
proof -
  obtain c where c: "horn_config = Inr c" and
    e: "last_of ''Event'' (VSSMap c) = Some \<lparr>serviceType = ''Event'', serviceID = 18512, instanceID = 10,
      methodID = 0, EventID = 32773, EventGroup = 1, majorVersion = 1, minorVersion = 0\<rparr>" and
    m: "last_of ''Method'' (VSSMap c) = Some \<lparr>serviceType = ''Method'', serviceID = 18512, instanceID = 10,
      methodID = 1, EventID = 0, EventGroup = 0, majorVersion = 1, minorVersion = 0\<rparr>"
    by (simp add: horn_config_def createEnvConfig_def horn_mapping_def getjsonConfig_def jv_eval
        parse_mapping_def parse_metadata_def parse_node_def parse_transform_def index_uint_def get_uint_def
        getEnvironmentInt_def getEnvironmentStr_def default_config_def apply_mapping_def last_of_def)
  show ?thesis
    using createEnvConfig_last_mapping_wins [OF c [unfolded horn_config_def]] c e m
    by (intro exI [of _ c]) (simp add: event_target_def method_target_def)
qed

text \<open>
  Integers from the environment: every \<open>int\<close> value written in decimal is read back,
  and an unset variable, a text with no leading number or a number outside \<open>int\<close> gives the
  default.
\<close>

theorem getEnvironmentInt_reads_back:
  assumes "in_int32 i"
  shows "getEnvironmentInt (E(v \<mapsto> to_string i)) v d = i \<and>
    (getEnvironmentInt E v d \<noteq> d \<longrightarrow> (\<exists>s. E v = Some s \<and> stoi0 s = Inr (getEnvironmentInt E v d)))"
  using assms
  by (auto simp: getEnvironmentInt_def stoi0_to_string split: option.splits sum.splits)

theorem getEnvironmentInt_reads_back_witness:
  "getEnvironmentInt [''DBG'' \<mapsto> to_string (-42)] ''DBG'' 1 = -42"
proof -
  have "in_int32 (-42)" by (simp add: in_int32_def)
  from getEnvironmentInt_reads_back [OF this] show ?thesis by blast
qed

text \<open>
  Node fields are narrowed when the file is read: the stored length is the configured
  length modulo 256 and the stored method identifier the configured one modulo 65536, so a
  \<open>Length\<close> of 256 is stored as 0; the transformations have one entry per \<open>from\<close> text.
\<close>

theorem parse_node_narrowing:
  assumes "parse_node J v = Inr n"
  shows "(\<exists>len mid. index_uint J v ''Length'' = Inr len \<and> index_uint J v ''MethodID'' = Inr mid \<and>
      unat (node_length n) = unat len mod 256 \<and> unat (methodId n) = unat mid mod 65536) \<and>
    distinct (map fst (transformMapping n))"
  using parse_node_fields [OF assms] parse_node_distinct [OF assms] by blast

definition wide_node :: jv where
  "wide_node = JObj [(''Name'', JStr ''N''), (''ByteOffset'', JInt 0), (''DataType'', JStr ''UINT8''),
     (''Length'', JInt 256), (''MethodID'', JInt 65537)]"

theorem parse_node_narrowing_witness:
  "\<exists>n. parse_node jv_json wide_node = Inr n \<and> unat (node_length n) = 0 \<and> unat (methodId n) = 1"
proof -
  obtain n where n: "parse_node jv_json wide_node = Inr n"
    by (simp add: wide_node_def parse_node_def jv_eval index_uint_def parse_transform_def)
  have "index_uint jv_json wide_node ''Length'' = Inr 256"
    and "index_uint jv_json wide_node ''MethodID'' = Inr 65537"
    by (simp_all add: wide_node_def jv_eval index_uint_def)
  with parse_node_narrowing [OF n] n show ?thesis by auto
qed

end
