(* ===== verification/Wiper_Poc.thy ===== *)
theory Wiper_Poc
  imports Prelude
begin

text \<open>
  The wiper payload library \<^verbatim>\<open>someip-feeder/src/lib/wiper_poc\<close>: the event and
  request structures, their SOME/IP encoders and decoders, the wiper modes and the hexadecimal
  dump. A \<open>float\<close> is its 32-bit pattern: the codecs only move its bytes. The output
  parameters of the C++ functions are returned beside the \<open>bool\<close> result.

  The locale \<open>wire_codec\<close> is the contract an encoder and a decoder share; its parameter
  \<open>view\<close> says what the receiver sees of what was sent. Both codecs of the library are
  interpretations, with the view that reverses the bytes of every \<open>float\<close>:
  \<open>float_to_bytes\<close> writes host order and \<open>bytes_to_float\<close> reads network order.
\<close>

section \<open>Data\<close>

definition WIPER_SERVICE_ID :: u16 where "WIPER_SERVICE_ID = 0x60D0"
definition WIPER_INSTANCE_ID :: u16 where "WIPER_INSTANCE_ID = 0x0001"
definition WIPER_EVENT_ID :: u16 where "WIPER_EVENT_ID = 0x8001"
definition WIPER_EVENTGROUP_ID :: u16 where "WIPER_EVENTGROUP_ID = 0x0064"
definition WIPER_SERVICE_MAJOR :: u8 where "WIPER_SERVICE_MAJOR = 0x01"
definition WIPER_SERVICE_MINOR :: u32 where "WIPER_SERVICE_MINOR = 0x00"
definition WIPER_VSS_SERVICE_ID :: u16 where "WIPER_VSS_SERVICE_ID = 0x6123"
definition WIPER_VSS_INSTANCE_ID :: u16 where "WIPER_VSS_INSTANCE_ID = 0x000b"
definition WIPER_VSS_METHOD_ID :: u16 where "WIPER_VSS_METHOD_ID = 0x0007"
definition WIPER_VSS_SERVICE_MAJOR :: u8 where "WIPER_VSS_SERVICE_MAJOR = 0x01"
definition WIPER_VSS_SERVICE_MINOR :: u32 where "WIPER_VSS_SERVICE_MINOR = 0x00"

definition WIPER_EVENT_PAYLOAD_SIZE :: nat where "WIPER_EVENT_PAYLOAD_SIZE = 20"
definition WIPER_SET_PAYLOAD_SIZE :: nat where "WIPER_SET_PAYLOAD_SIZE = 6"

record t_EventData =
  ActualPosition :: f32
  DriveCurrent :: f32
  TempGear :: u8
  isWiping :: u8
  isEndingWipeCycle :: u8
  isWiperError :: u8
  isPositionReached :: u8
  isBlocked :: u8
  isOverheated :: u8
  ECUTemp :: u8
  LINError :: u8
  isOverVoltage :: u8
  isUnderVoltage :: u8

record t_Event =
  sequenceCounter :: u8
  data :: t_EventData

text \<open>The enumeration holds an \<open>int\<close>; a cast from a byte or from an argument may give it
  a value that is no enumerator, which the code prints as \<open>Invalid\<close>.\<close>

datatype e_WiperMode = PLANT_MODE | STOP_HOLD | WIPE | EMERGENCY_STOP | Mode_other int

definition mode_of_int :: "int \<Rightarrow> e_WiperMode" where
  "mode_of_int i =
     (if i = 0 then PLANT_MODE else if i = 1 then STOP_HOLD else if i = 2 then WIPE
      else if i = 3 then EMERGENCY_STOP else Mode_other i)"

fun mode_to_int :: "e_WiperMode \<Rightarrow> int" where
  "mode_to_int PLANT_MODE = 0"
| "mode_to_int STOP_HOLD = 1"
| "mode_to_int WIPE = 2"
| "mode_to_int EMERGENCY_STOP = 3"
| "mode_to_int (Mode_other i) = i"

record t_WiperRequest =
  Frequency :: u8
  TargetPosition :: f32
  Mode :: e_WiperMode

definition zero_event :: t_Event where
  "zero_event = \<lparr>sequenceCounter = 0, data =
     \<lparr>ActualPosition = 0, DriveCurrent = 0, TempGear = 0, isWiping = 0, isEndingWipeCycle = 0,
      isWiperError = 0, isPositionReached = 0, isBlocked = 0, isOverheated = 0, ECUTemp = 0,
      LINError = 0, isOverVoltage = 0, isUnderVoltage = 0\<rparr>\<rparr>"

definition zero_request :: t_WiperRequest where
  "zero_request = \<lparr>Frequency = 0, TargetPosition = 0, Mode = PLANT_MODE\<rparr>"

section \<open>Floats\<close>

definition float_to_bytes :: "f32 \<Rightarrow> bytes" where
  "float_to_bytes val = le_bytes 4 val"

definition bytes_to_float :: "bytes \<Rightarrow> f32" where
  "bytes_to_float d = le_word [d ! 3, d ! 2, d ! 1, d ! 0]"

definition store_bytes :: "bytes \<Rightarrow> nat \<Rightarrow> bytes \<Rightarrow> bytes" where
  "store_bytes buf off bs = take off buf @ bs @ drop (off + length bs) buf"

section \<open>Wiper events\<close>

definition deserialize_event :: "bytes \<Rightarrow> bool \<times> t_Event" where
  "deserialize_event payload =
     (if length payload < WIPER_EVENT_PAYLOAD_SIZE then (False, zero_event)
      else (True,
        \<lparr>sequenceCounter = payload ! 0,
         data = \<lparr>
           ActualPosition = bytes_to_float [payload ! 1, payload ! 2, payload ! 3, payload ! 4],
           DriveCurrent = bytes_to_float [payload ! 5, payload ! 6, payload ! 7, payload ! 8],
           TempGear = payload ! 9,
           isWiping = payload ! 10,
           isEndingWipeCycle = payload ! 11,
           isWiperError = payload ! 12,
           isPositionReached = payload ! 13,
           isBlocked = payload ! 14,
           isOverheated = payload ! 15,
           ECUTemp = payload ! 16,
           LINError = payload ! 17,
           isOverVoltage = payload ! 18,
           isUnderVoltage = payload ! 19\<rparr>\<rparr>))"

definition serialize_wiper_event :: "t_Event \<Rightarrow> bytes \<Rightarrow> bool \<times> bytes" where
  "serialize_wiper_event event payload =
     (if length payload < WIPER_EVENT_PAYLOAD_SIZE then (False, payload)
      else
        let p = replicate (length payload) 0;
            p = p[0 := sequenceCounter event];
            p = store_bytes p 1 (float_to_bytes (ActualPosition (data event)));
            p = store_bytes p 5 (float_to_bytes (DriveCurrent (data event)));
            p = p[9 := TempGear (data event)];
            p = p[10 := isWiping (data event)];
            p = p[11 := isEndingWipeCycle (data event)];
            p = p[12 := isWiperError (data event)];
            p = p[13 := isPositionReached (data event)];
            p = p[14 := isBlocked (data event)];
            p = p[15 := isOverheated (data event)];
            p = p[16 := ECUTemp (data event)];
            p = p[17 := LINError (data event)];
            p = p[18 := isOverVoltage (data event)];
            p = p[19 := isUnderVoltage (data event)]
        in (True, p))"

section \<open>Hexadecimal dump\<close>

definition bytes_to_string :: "bytes \<Rightarrow> string" where
  "bytes_to_string payload =
     concat (map (\<lambda>i. hex2 (payload ! i) @ (if i < length payload - 1 then '' '' else []))
       [0..<length payload])"

section \<open>Wiper requests\<close>

definition serialize_vss_request :: "t_WiperRequest \<Rightarrow> bytes \<Rightarrow> bool \<times> bytes" where
  "serialize_vss_request reqest payload =
     (if length payload < WIPER_SET_PAYLOAD_SIZE then (False, payload)
      else
        let tmp = float_to_bytes (TargetPosition reqest);
            p = payload[0 := Frequency reqest];
            p = p[1 := tmp ! 0];
            p = p[2 := tmp ! 1];
            p = p[3 := tmp ! 2];
            p = p[4 := tmp ! 3];
            p = p[5 := word_of_int (mode_to_int (Mode reqest))]
        in (True, p))"

definition deserialize_vss_request :: "bytes \<Rightarrow> bool \<times> t_WiperRequest" where
  "deserialize_vss_request payload =
     (if length payload < WIPER_SET_PAYLOAD_SIZE then (False, zero_request)
      else (True,
        \<lparr>Frequency = payload ! 0,
         TargetPosition = bytes_to_float [payload ! 1, payload ! 2, payload ! 3, payload ! 4],
         Mode = mode_of_int (uint (payload ! 5))\<rparr>))"

definition wiper_mode_parse :: "string \<Rightarrow> e_WiperMode \<Rightarrow> bool \<times> e_WiperMode" where
  "wiper_mode_parse str mode =
     (if str = ''WIPE'' then (True, WIPE)
      else if str = ''STOP_HOLD'' then (True, STOP_HOLD)
      else if str = ''PLANT_MODE'' then (True, PLANT_MODE)
      else if str = ''EMERGENCY_STOP'' then (True, EMERGENCY_STOP)
      else (False, mode))"

fun wiper_mode_to_string :: "e_WiperMode \<Rightarrow> string" where
  "wiper_mode_to_string EMERGENCY_STOP = ''EMERGENCY_STOP''"
| "wiper_mode_to_string PLANT_MODE = ''PLANT_MODE''"
| "wiper_mode_to_string STOP_HOLD = ''STOP_HOLD''"
| "wiper_mode_to_string WIPE = ''WIPE''"
| "wiper_mode_to_string (Mode_other i) = ''Invalid('' @ to_string i @ '')''"

section \<open>Specification\<close>

text \<open>What a receiver sees: every \<open>float\<close> with its four bytes reversed.\<close>

definition bswap32 :: "u32 \<Rightarrow> u32" where
  "bswap32 w = le_word (rev (le_bytes 4 w))"

definition swapped_event :: "t_Event \<Rightarrow> t_Event" where
  "swapped_event e = e\<lparr>data := (data e)\<lparr>ActualPosition := bswap32 (ActualPosition (data e)),
     DriveCurrent := bswap32 (DriveCurrent (data e))\<rparr>\<rparr>"

definition swapped_request :: "t_WiperRequest \<Rightarrow> t_WiperRequest" where
  "swapped_request r = r\<lparr>TargetPosition := bswap32 (TargetPosition r)\<rparr>"

definition wf_request :: "t_WiperRequest \<Rightarrow> bool" where
  "wf_request r = (mode_of_int (mode_to_int (Mode r)) = Mode r \<and>
     0 \<le> mode_to_int (Mode r) \<and> mode_to_int (Mode r) < 256)"

text \<open>The layout an event takes on the wire.\<close>

definition event_image :: "t_Event \<Rightarrow> bytes" where
  "event_image e =
     [sequenceCounter e] @ le_bytes 4 (ActualPosition (data e)) @ le_bytes 4 (DriveCurrent (data e)) @
     [TempGear (data e), isWiping (data e), isEndingWipeCycle (data e), isWiperError (data e),
      isPositionReached (data e), isBlocked (data e), isOverheated (data e), ECUTemp (data e),
      LINError (data e), isOverVoltage (data e), isUnderVoltage (data e)]"

fun unhex :: "string \<Rightarrow> bytes" where
  "unhex (a # b # []) = [word_of_nat (16 * digit_val a + digit_val b)]"
| "unhex (a # b # s # r) = word_of_nat (16 * digit_val a + digit_val b) # unhex r"
| "unhex _ = []"

locale wire_codec =
  fixes ser :: "'a \<Rightarrow> bytes \<Rightarrow> bool \<times> bytes"
    and des :: "bytes \<Rightarrow> bool \<times> 'a"
    and sz :: nat
    and view :: "'a \<Rightarrow> 'a"
    and wf :: "'a \<Rightarrow> bool"
  assumes ser_short: "length buf < sz \<Longrightarrow> ser x buf = (False, buf)"
    and ser_ok: "sz \<le> length buf \<Longrightarrow> fst (ser x buf)"
    and ser_length: "length (snd (ser x buf)) = length buf"
    and des_ser: "wf x \<Longrightarrow> sz \<le> length buf \<Longrightarrow> des (snd (ser x buf)) = (True, view x)"
    and des_short: "length buf < sz \<Longrightarrow> \<not> fst (des buf)"
    and view_view: "view (view x) = x"
    and wf_view: "wf x \<Longrightarrow> wf (view x)"
begin

lemma ser_fst_iff: "fst (ser x buf) \<longleftrightarrow> sz \<le> length buf"
  using ser_short [of buf x] ser_ok [of buf x] by (cases "length buf < sz") auto

lemma faithful_iff:
  "wf x \<Longrightarrow> sz \<le> length buf \<Longrightarrow> des (snd (ser x buf)) = (True, x) \<longleftrightarrow> view x = x"
  by (simp add: des_ser)

lemma ser_inj:
  assumes "wf x" "wf y" "sz \<le> length buf" "sz \<le> length buf'"
    and "snd (ser x buf) = snd (ser y buf')"
  shows "x = y"
proof -
  from assms have "(True, view x) = (True, view y)"
    by (metis des_ser)
  then have "view (view x) = view (view y)" by simp
  then show ?thesis by (simp add: view_view)
qed

text \<open>A relay that decodes a message and encodes it again undoes the view.\<close>

lemma relay_restores:
  assumes "wf x" "sz \<le> length buf" "sz \<le> length buf'"
  shows "des (snd (ser (snd (des (snd (ser x buf)))) buf')) = (True, x)"
  using assms by (simp add: des_ser wf_view view_view)

end

section \<open>Codec lemmas\<close>

lemma le_bytes_4 [byte_simps]:
  "le_bytes 4 w = [ucast w, ucast (drop_bit 8 w), ucast (drop_bit 16 w), ucast (drop_bit 24 w)]"
  by (simp add: le_bytes_def upt_rec)

lemma bytes_to_float_le_bytes:
  "bytes_to_float [le_bytes 4 w ! 0, le_bytes 4 w ! 1, le_bytes 4 w ! 2, le_bytes 4 w ! 3] = bswap32 w"
  by (simp add: bytes_to_float_def bswap32_def le_bytes_4)

lemma bytes_to_float_be: "length d = 4 \<Longrightarrow> bytes_to_float d = be_word d"
  by (auto simp: bytes_to_float_def be_word_def numeral_eq_Suc length_Suc_conv)

lemma bswap32_bswap32 [simp]: "bswap32 (bswap32 w) = w"
proof -
  have "le_bytes 4 (bswap32 w) = rev (le_bytes 4 w)"
    using le_bytes_le_word [of "rev (le_bytes 4 w)", where 'a = 32] by (simp add: bswap32_def)
  then show ?thesis
    by (simp add: bswap32_def [of "bswap32 w"] le_word_le_bytes_full)
qed

lemma serialize_wiper_event_image:
  assumes "WIPER_EVENT_PAYLOAD_SIZE \<le> length payload"
  shows "serialize_wiper_event e payload =
    (True, event_image e @ replicate (length payload - WIPER_EVENT_PAYLOAD_SIZE) 0)"
proof -
  from assms obtain k where k: "length payload = 20 + k"
    by (auto simp: WIPER_EVENT_PAYLOAD_SIZE_def le_iff_add)
  have "replicate (length payload) (0::u8) =
      [0,0,0,0,0,0,0,0,0,0,0,0,0,0,0,0,0,0,0,0] @ replicate k 0"
    by (simp add: k replicate_add) (simp add: numeral_eq_Suc)
  then show ?thesis
    by (simp add: serialize_wiper_event_def WIPER_EVENT_PAYLOAD_SIZE_def k event_image_def
        store_bytes_def float_to_bytes_def le_bytes_4 Let_def)
qed

lemma deserialize_event_image:
  "deserialize_event (event_image e @ rest) = (True, swapped_event e)"
  by (simp add: deserialize_event_def WIPER_EVENT_PAYLOAD_SIZE_def event_image_def swapped_event_def
      le_bytes_4 bytes_to_float_def bswap32_def)

lemma event_ser_length: "length (snd (serialize_wiper_event e payload)) = length payload"
proof (cases "WIPER_EVENT_PAYLOAD_SIZE \<le> length payload")
  case True
  then show ?thesis
    by (simp add: serialize_wiper_event_image event_image_def WIPER_EVENT_PAYLOAD_SIZE_def)
next
  case False
  then show ?thesis by (simp add: serialize_wiper_event_def)
qed

lemma swapped_event_swapped [simp]: "swapped_event (swapped_event e) = e"
  by (simp add: swapped_event_def)

lemma swapped_request_swapped [simp]: "swapped_request (swapped_request r) = r"
  by (simp add: swapped_request_def)

lemma request_des_ser:
  assumes "wf_request r" and "WIPER_SET_PAYLOAD_SIZE \<le> length buf"
  shows "deserialize_vss_request (snd (serialize_vss_request r buf)) = (True, swapped_request r)"
proof -
  from assms(1) have "mode_of_int (uint (word_of_int (mode_to_int (Mode r)) :: u8)) = Mode r"
    by (simp add: wf_request_def uint_word_of_int)
  moreover from assms(2) have "buf \<noteq> []" by (auto simp: WIPER_SET_PAYLOAD_SIZE_def)
  ultimately show ?thesis using assms(2)
    by (cases r) (simp add: deserialize_vss_request_def serialize_vss_request_def WIPER_SET_PAYLOAD_SIZE_def
        Let_def float_to_bytes_def le_bytes_4 bytes_to_float_def swapped_request_def bswap32_def)
qed

interpretation event_codec: wire_codec serialize_wiper_event deserialize_event
  WIPER_EVENT_PAYLOAD_SIZE swapped_event "\<lambda>_. True"
proof (unfold_locales, goal_cases)
  case (3 x buf)
  show ?case by (rule event_ser_length)
next
  case (4 x buf)
  then show ?case by (simp add: serialize_wiper_event_image deserialize_event_image)
qed (simp_all add: serialize_wiper_event_def deserialize_event_def Let_def)

interpretation request_codec: wire_codec serialize_vss_request deserialize_vss_request
  WIPER_SET_PAYLOAD_SIZE swapped_request wf_request
proof (unfold_locales, goal_cases)
  case (4 x buf)
  then show ?case by (rule request_des_ser)
qed (simp_all add: serialize_vss_request_def deserialize_vss_request_def Let_def swapped_request_def
    wf_request_def)

lemma mode_of_int_of_byte [simp]: "mode_of_int (mode_to_int (mode_of_int i)) = mode_of_int i"
  by (simp add: mode_of_int_def)

lemma unhex_hex2: "16 * digit_val (digit_char (unat b div 16)) + digit_val (digit_char (unat b mod 16)) = unat (b :: u8)"
  using unsigned_less [of b, where 'a = nat] by simp

lemma bytes_to_string_Cons:
  "bytes_to_string (b # bs) = hex2 b @ (if bs = [] then [] else '' '' @ bytes_to_string bs)"
proof -
  have "[0..<length (b # bs)] = 0 # map Suc [0..<length bs]"
    by (simp add: upt_conv_Cons map_Suc_upt del: upt_Suc)
  moreover have "i < length bs - 1 \<longleftrightarrow> Suc i < length bs" for i by arith
  ultimately show ?thesis
    by (cases bs) (simp_all add: bytes_to_string_def comp_def del: upt_Suc)
qed

lemma unhex_bytes_to_string: "unhex (bytes_to_string p) = p"
proof (induction p)
  case (Cons b bs)
  then show ?case
    by (cases bs) (simp_all add: bytes_to_string_Cons hex2_def unhex_hex2 del: digit_char_val)
qed (simp add: bytes_to_string_def)

lemma length_bytes_to_string: "length (bytes_to_string p) = 3 * length p - 1"
proof (induction p)
  case (Cons b bs)
  then show ?case by (cases bs) (simp_all add: bytes_to_string_Cons hex2_def)
qed (simp add: bytes_to_string_def)

section \<open>Properties\<close>

text \<open>
  C24. The wiper event codec: a buffer of at least 20 bytes is accepted, keeps its size, and
  what the receiver decodes is the event that was sent with the four bytes of both floats
  reversed; every one-byte field arrives unchanged.
\<close>

theorem event_wire_roundtrip:
  assumes "WIPER_EVENT_PAYLOAD_SIZE \<le> length buf"
  shows "\<exists>p. serialize_wiper_event e buf = (True, p) \<and> length p = length buf \<and>
    deserialize_event p = (True, swapped_event e)"
proof -
  have "serialize_wiper_event e buf = (True, snd (serialize_wiper_event e buf))"
    using event_codec.ser_ok [OF assms, of e] by (cases "serialize_wiper_event e buf") simp
  then show ?thesis
    using event_codec.ser_length [of e buf] event_codec.des_ser [OF TrueI assms, of e] by blast
qed

theorem event_wire_roundtrip_witness:
  "WIPER_EVENT_PAYLOAD_SIZE \<le> length (replicate 20 0 :: bytes) \<and>
   (\<exists>p. serialize_wiper_event zero_event (replicate 20 0) = (True, p) \<and>
     length p = length (replicate 20 0 :: bytes) \<and>
     deserialize_event p = (True, swapped_event zero_event))"
proof -
  have h: "WIPER_EVENT_PAYLOAD_SIZE \<le> length (replicate 20 0 :: bytes)"
    by (simp add: WIPER_EVENT_PAYLOAD_SIZE_def)
  show ?thesis using h event_wire_roundtrip [OF h, of zero_event] by blast
qed

text \<open>
  The wiper request codec used between client and service: for every request whose mode
  fits a byte the service decodes the frequency and the mode that were sent, and the target
  position with its bytes reversed; so the service sees the request that was sent exactly when
  the position's four bytes read the same in both directions. The position 60.0, the client's
  default, does not.
\<close>

theorem request_wire_view:
  assumes "wf_request r" and "WIPER_SET_PAYLOAD_SIZE \<le> length buf"
  shows "deserialize_vss_request (snd (serialize_vss_request r buf)) = (True, swapped_request r) \<and>
    (deserialize_vss_request (snd (serialize_vss_request r buf)) = (True, r) \<longleftrightarrow>
      bswap32 (TargetPosition r) = TargetPosition r)"
proof
  show "deserialize_vss_request (snd (serialize_vss_request r buf)) = (True, swapped_request r)"
    using assms by (rule request_codec.des_ser)
  show "deserialize_vss_request (snd (serialize_vss_request r buf)) = (True, r) \<longleftrightarrow>
      bswap32 (TargetPosition r) = TargetPosition r"
    unfolding request_codec.faithful_iff [OF assms] by (cases r) (simp add: swapped_request_def)
qed

theorem request_wire_view_witness:
  "deserialize_vss_request (snd (serialize_vss_request
      \<lparr>Frequency = 40, TargetPosition = 0x42700000, Mode = WIPE\<rparr> (replicate 6 0)))
    \<noteq> (True, \<lparr>Frequency = 40, TargetPosition = 0x42700000, Mode = WIPE\<rparr>)"
proof -
  let ?r = "\<lparr>Frequency = 40, TargetPosition = 0x42700000, Mode = WIPE\<rparr>"
  have w: "wf_request ?r" by (simp add: wf_request_def mode_of_int_def)
  have l: "WIPER_SET_PAYLOAD_SIZE \<le> length (replicate 6 0 :: bytes)"
    by (simp add: WIPER_SET_PAYLOAD_SIZE_def)
  have "bswap32 (TargetPosition ?r) \<noteq> TargetPosition ?r"
    by (simp add: bswap32_def le_bytes_4)
  then show ?thesis using request_wire_view [OF w l] by (simp add: swapped_request_def)
qed

text \<open>
  A relay that decodes a wiper event and encodes it again restores it: decoding,
  re-encoding and decoding gives back the original event, so the byte reversal is lossless.
\<close>

theorem event_relay_restores:
  assumes "WIPER_EVENT_PAYLOAD_SIZE \<le> length buf" and "WIPER_EVENT_PAYLOAD_SIZE \<le> length buf'"
  shows "deserialize_event (snd (serialize_wiper_event
    (snd (deserialize_event (snd (serialize_wiper_event e buf)))) buf')) = (True, e)"
  using assms by (intro event_codec.relay_restores TrueI)

theorem event_relay_restores_witness:
  "deserialize_event (snd (serialize_wiper_event
    (snd (deserialize_event (snd (serialize_wiper_event zero_event (replicate 20 0)))))
    (replicate 24 7))) = (True, zero_event)"
proof (rule event_relay_restores)
  show "WIPER_EVENT_PAYLOAD_SIZE \<le> length (replicate 20 0 :: bytes)"
    and "WIPER_EVENT_PAYLOAD_SIZE \<le> length (replicate 24 7 :: bytes)"
    by (simp_all add: WIPER_EVENT_PAYLOAD_SIZE_def)
qed

text \<open>
  Printing and parsing of wiper modes: the printed text parses back to the mode exactly
  when the mode is one of the four enumerators; for any other value the parser reports failure
  and leaves its output argument as it was.
\<close>

lemma wiper_mode_parse_print:
  "wiper_mode_parse (wiper_mode_to_string m) d =
    (if \<exists>i. m = Mode_other i then (False, d) else (True, m))"
proof (cases m)
  case (Mode_other i)
  then show ?thesis by (simp add: wiper_mode_parse_def)
qed (simp_all add: wiper_mode_parse_def)

text \<open>
  The hexadecimal dump of a payload determines the payload: reading two digits per byte
  and skipping the separators recovers every byte, and the dump has two digits per byte and one
  blank between neighbours.
\<close>

lemma bytes_to_string_roundtrip:
  "unhex (bytes_to_string p) = p \<and> length (bytes_to_string p) = 3 * length p - 1"
  by (simp add: unhex_bytes_to_string length_bytes_to_string)

end
