(* ===== verification/Someip_Client.thy ===== *)
theory Someip_Client
  imports Someip_Config Wiper_Poc
begin

text \<open>
  The run-time half of \<^verbatim>\<open>lib/someip_client\<close>: the class \<open>SomeIPClient\<close> and the two text
  helpers \<open>message_type_to_string\<close> and \<open>hexdump\<close>.

  vsomeip is not part of the repository. What the client does to the vsomeip application is the
  list of its calls (\<open>sc_calls\<close>, in the order they are made); what vsomeip reports back (the
  result of \<open>init\<close>, the application name, states, availability and messages) are arguments
  of the handlers. \<open>SendRequest\<close> may wait for a while with its mutex released: its first
  argument is what other threads do to the client meanwhile. Log output is left out.

  \<open>client_step\<close> is any of the operations, as the application's dispatcher and the threads of
  the feeder call them; the invariants hold for every sequence.
\<close>

section \<open>Data\<close>

datatype reliability_type_e = RT_RELIABLE | RT_UNRELIABLE

datatype event_type_e = ET_EVENT | ET_SELECTIVE_EVENT | ET_FIELD

datatype state_type_e = ST_REGISTERED | ST_DEREGISTERED

datatype message_type_e =
    MT_REQUEST | MT_REQUEST_NO_RETURN | MT_NOTIFICATION
  | MT_REQUEST_ACK | MT_REQUEST_NO_RETURN_ACK | MT_NOTIFICATION_ACK
  | MT_RESPONSE | MT_ERROR | MT_RESPONSE_ACK | MT_ERROR_ACK
  | MT_other nat

record someip_message =
  msg_service :: u16
  msg_instance :: u16
  msg_method :: u16
  msg_payload :: bytes

datatype app_call =
    Register_state_handler
  | Register_message_handler
  | Register_availability_handler
  | Request_event u16 u16 u16 "u16 list" event_type_e reliability_type_e
  | Subscribe u16 u16 u16 u8 u16
  | Unsubscribe u16 u16 u16 u16
  | Release_event u16 u16 u16
  | Request_service u16 u16 u8 u32
  | Release_service u16 u16
  | Clear_all_handler
  | App_start
  | App_stop
  | App_send someip_message
  | Register_message_handler_for u16 u16 u16
  | Register_availability_handler_for u16 u16
  | Subscribe_group u16 u16 u16 u8
  | Unsubscribe_group u16 u16 u16
  | Offer_event u16 u16 u16 "u16 list" event_type_e reliability_type_e
  | Offer_service u16 u16 u8 u32
  | Stop_offer_service u16 u16 u8 u32
  | App_notify u16 u16 u16 bytes

text \<open>The last eight are calls that only the wiper examples make.\<close>

record 'j SomeIPClient =
  sc_name :: string
  sc_config :: "'j SomeIPConfig"
  sc_stop_requested :: bool
  sc_initialized :: bool
  sc_use_tcp :: bool
  sc_service :: u16
  sc_service_major :: u8
  sc_service_minor :: u32
  sc_instance :: u16
  sc_event_group :: u16
  sc_event :: u16
  sc_use_req :: bool
  req_service_available :: bool
  sc_req_service :: u16
  sc_req_service_major :: u8
  sc_req_service_minor :: u32
  sc_req_instance :: u16
  sc_req_method :: u16
  sc_calls :: "app_call list"

section \<open>Operations\<close>

definition new_SomeIPClient :: "'j SomeIPConfig \<Rightarrow> 'j SomeIPClient" where
  "new_SomeIPClient config =
     \<lparr>sc_name = (if app_name config = [] then ''UNKNOWN'' else app_name config),
      sc_config = config, sc_stop_requested = False, sc_initialized = False,
      sc_use_tcp = use_tcp config, sc_service = service config,
      sc_service_major = service_major config, sc_service_minor = service_minor config,
      sc_instance = instance_id config, sc_event_group = event_group config,
      sc_event = event config, sc_use_req = use_req (req config),
      req_service_available = False, sc_req_service = rq_service (req config),
      sc_req_service_major = rq_service_major (req config),
      sc_req_service_minor = rq_service_minor (req config),
      sc_req_instance = rq_instance (req config), sc_req_method = rq_method (req config),
      sc_calls = []\<rparr>"

definition app_do :: "app_call list \<Rightarrow> 'j SomeIPClient \<Rightarrow> 'j SomeIPClient" where
  "app_do cs s = s\<lparr>sc_calls := sc_calls s @ cs\<rparr>"

text \<open>The event number \<open>event + i\<close> is passed as a 16-bit value.\<close>

definition init_event_service ::
  "u16 \<Rightarrow> u16 \<Rightarrow> u16 \<Rightarrow> u16 \<Rightarrow> u8 \<Rightarrow> u32 \<Rightarrow> 'j SomeIPClient \<Rightarrow> 'j SomeIPClient" where
  "init_event_service svc inst grp ev major minor s =
     (let reliability_type = (if sc_use_tcp s then RT_RELIABLE else RT_UNRELIABLE)
      in app_do (concat (map (\<lambda>i.
           [Request_event svc inst (ev + of_nat i) [grp] ET_FIELD reliability_type,
            Subscribe svc inst grp major (ev + of_nat i)]) [0..<34])) s)"

text \<open>
  \<open>init\<close> in its two parts: the flag that \<open>stop\<close> looks at is set before the handlers are
  registered, and another thread may come in between.
\<close>

definition init_done :: "string \<Rightarrow> 'j SomeIPClient \<Rightarrow> 'j SomeIPClient" where
  "init_done app_get_name s = s\<lparr>sc_initialized := True, sc_name := app_get_name\<rparr>"

definition init_register :: "'j SomeIPClient \<Rightarrow> 'j SomeIPClient" where
  "init_register s =
     (let s = app_do [Register_state_handler, Register_message_handler, Register_availability_handler] s
      in init_event_service (sc_service s) (sc_instance s) (sc_event_group s) (sc_event s)
           (sc_service_major s) (sc_service_minor s) s)"

definition init :: "bool \<Rightarrow> string \<Rightarrow> 'j SomeIPClient \<Rightarrow> bool \<times> 'j SomeIPClient" where
  "init app_init_ok app_get_name s =
     (if \<not> app_init_ok then (False, s) else (True, init_register (init_done app_get_name s)))"

text \<open>\<open>start\<close> blocks in vsomeip until the application is stopped; the call is recorded.\<close>

definition client_start :: "'j SomeIPClient \<Rightarrow> 'j SomeIPClient" where
  "client_start s = app_do [App_start] s"

definition client_Run :: "bool \<Rightarrow> string \<Rightarrow> 'j SomeIPClient \<Rightarrow> bool \<times> 'j SomeIPClient" where
  "client_Run app_init_ok app_get_name s =
     (let (ok, s) = init app_init_ok app_get_name s
      in if ok then (True, client_start s) else (False, s))"

definition client_stop :: "'j SomeIPClient \<Rightarrow> 'j SomeIPClient" where
  "client_stop s =
     (let s = s\<lparr>req_service_available := False\<rparr>;
          s = app_do [Clear_all_handler,
                Unsubscribe (sc_service s) (sc_instance s) (sc_event_group s) (sc_event s),
                Release_event (sc_service s) (sc_instance s) (sc_event s),
                Release_service (sc_service s) (sc_instance s)] s;
          s = (if sc_use_req s then app_do [Release_service (sc_req_service s) (sc_req_instance s)] s else s)
      in if \<not> sc_initialized s then s else app_do [App_stop] s)"

definition client_Shutdown :: "'j SomeIPClient \<Rightarrow> 'j SomeIPClient" where
  "client_Shutdown s =
     (if \<not> sc_stop_requested s then client_stop (s\<lparr>sc_stop_requested := True\<rparr>) else s)"

definition on_state :: "state_type_e \<Rightarrow> 'j SomeIPClient \<Rightarrow> 'j SomeIPClient" where
  "on_state st s =
     (if st = ST_REGISTERED then
        let s = app_do [Request_service (sc_service s) (sc_instance s) (sc_service_major s) (sc_service_minor s)] s
        in if sc_use_req s
           then app_do [Request_service (sc_req_service s) (sc_req_instance s)
                  (sc_req_service_major s) (sc_req_service_minor s)] s
           else s
      else s)"

definition on_availability :: "u16 \<Rightarrow> u16 \<Rightarrow> bool \<Rightarrow> 'j SomeIPClient \<Rightarrow> 'j SomeIPClient" where
  "on_availability svc inst is_available s =
     (let s = (if svc = sc_service s \<and> inst = sc_instance s \<and> is_available = False
               then app_do [Unsubscribe (sc_service s) (sc_instance s) (sc_event_group s) (sc_event s)] s
               else s);
          s = (if svc = sc_service s \<and> inst = sc_instance s \<and> is_available = True
               then init_event_service (sc_service s) (sc_instance s) (sc_event_group s) (sc_event s)
                      (sc_service_major s) (sc_service_minor s) s
               else s)
      in if svc = sc_req_service s \<and> inst = sc_req_instance s
         then s\<lparr>req_service_available := is_available\<rparr> else s)"

definition GetConfig :: "'j SomeIPClient \<Rightarrow> 'j SomeIPConfig" where
  "GetConfig s = sc_config s"

definition createInstance_someip :: "'j SomeIPConfig \<Rightarrow> 'j SomeIPClient" where
  [simp]: "createInstance_someip config = new_SomeIPClient config"

definition destroy_SomeIPClient :: "'j SomeIPClient \<Rightarrow> 'j SomeIPClient" where
  "destroy_SomeIPClient s = client_Shutdown s"

text \<open>
  A callback gets service, instance, event and payload, and acts on the state of its owner. Its
  result is only logged.
\<close>

type_synonym 'w message_callback_t = "u16 \<Rightarrow> u16 \<Rightarrow> u16 \<Rightarrow> bytes \<Rightarrow> 'w \<Rightarrow> cpp_error + (int \<times> 'w)"

definition on_message :: "'w message_callback_t option \<Rightarrow> someip_message \<Rightarrow> 'w \<Rightarrow> cpp_error + 'w" where
  "on_message callback response w =
     (case callback of
        None \<Rightarrow> Inr w
      | Some f \<Rightarrow>
          ebind (f (msg_service response) (msg_instance response) (msg_method response)
                   (msg_payload response) w)
            (\<lambda>(rc, w'). Inr w'))"

definition SendRequest ::
  "('j SomeIPClient \<Rightarrow> 'j SomeIPClient) \<Rightarrow> u16 \<Rightarrow> u16 \<Rightarrow> u16 \<Rightarrow> bytes \<Rightarrow> 'j SomeIPClient
     \<Rightarrow> int \<times> 'j SomeIPClient" where
  "SendRequest others svc inst meth payload s =
     (if \<not> sc_use_req s then (-1, s)
      else
        let s = (if \<not> req_service_available s then others s else s);
            rq = \<lparr>msg_service = svc, msg_instance = inst, msg_method = meth, msg_payload = payload\<rparr>
        in (0, app_do [App_send rq] s))"

fun hex_of_nat :: "nat \<Rightarrow> string" where
  "hex_of_nat n =
     (if n < 16 then [digit_char n] else hex_of_nat (n div 16) @ [digit_char (n mod 16)])"

declare hex_of_nat.simps [simp del]

fun message_type_to_string :: "message_type_e \<Rightarrow> string" where
  "message_type_to_string MT_ERROR = ''Error''"
| "message_type_to_string MT_ERROR_ACK = ''Error/ack''"
| "message_type_to_string MT_NOTIFICATION = ''Notification''"
| "message_type_to_string MT_NOTIFICATION_ACK = ''Notification/ack''"
| "message_type_to_string MT_REQUEST = ''Request''"
| "message_type_to_string MT_REQUEST_ACK = ''Request/ack''"
| "message_type_to_string MT_REQUEST_NO_RETURN = ''Request/no_ret''"
| "message_type_to_string MT_REQUEST_NO_RETURN_ACK = ''Request/no_ret/ack''"
| "message_type_to_string MT_RESPONSE = ''Response''"
| "message_type_to_string MT_RESPONSE_ACK = ''Response/ack''"
| "message_type_to_string (MT_other n) = ''Unknown <0x'' @ hex_of_nat n @ ''>''"

function hexdump_from :: "bytes \<Rightarrow> nat \<Rightarrow> nat \<Rightarrow> string" where
  "hexdump_from buf sz i =
     (if i < sz then hex2 (buf ! i) @ (if i < sz - 1 then '' '' else []) @ hexdump_from buf sz (Suc i)
      else [])"
  by pat_completeness auto

termination by (relation "measure (\<lambda>(buf, sz, i). sz - i)") auto

declare hexdump_from.simps [simp del]

definition hexdump :: "bytes \<Rightarrow> string" where
  "hexdump buf = hexdump_from buf (length buf) 0"

section \<open>The client over time\<close>

text \<open>What other threads do while a request waits are steps of their own before it.\<close>

inductive client_step :: "'j SomeIPClient \<Rightarrow> 'j SomeIPClient \<Rightarrow> bool" where
  step_init: "client_step s (init_done name s)"
| step_register: "client_step s (init_register s)"
| step_start: "client_step s (client_start s)"
| step_shutdown: "client_step s (client_Shutdown s)"
| step_state: "client_step s (on_state st s)"
| step_availability: "client_step s (on_availability svc inst avail s)"
| step_send: "client_step s (snd (SendRequest id svc inst meth payload s))"

definition client_init :: "'j SomeIPConfig \<Rightarrow> 'j SomeIPClient \<Rightarrow> bool" where
  "client_init config s = (s = new_SomeIPClient config)"

section \<open>Specification\<close>

definition config_events :: "'j SomeIPConfig \<Rightarrow> u16 set" where
  "config_events config = (\<lambda>i. event config + of_nat i) ` {0..<34}"

text \<open>
  What the calls about events may ask for: requests and subscriptions of the configured range;
  nothing but the first event of it is unsubscribed or released.
\<close>

fun event_call_ok :: "'j SomeIPConfig \<Rightarrow> app_call \<Rightarrow> bool" where
  "event_call_ok config (Request_event svc inst e grps t r) =
     (svc = service config \<and> inst = instance_id config \<and> grps = [event_group config] \<and> e \<in> config_events config)"
| "event_call_ok config (Subscribe svc inst grp major e) =
     (svc = service config \<and> inst = instance_id config \<and> grp = event_group config \<and> e \<in> config_events config)"
| "event_call_ok config (Unsubscribe svc inst grp e) = (e = event config)"
| "event_call_ok config (Release_event svc inst e) = (e = event config)"
| "event_call_ok config _ = True"

definition all_subscribed :: "'j SomeIPConfig \<Rightarrow> app_call list \<Rightarrow> bool" where
  "all_subscribed config cs = (\<forall>e \<in> config_events config.
     Subscribe (service config) (instance_id config) (event_group config) (service_major config) e \<in> set cs)"

definition bound_to :: "'j SomeIPConfig \<Rightarrow> 'j SomeIPClient \<Rightarrow> bool" where
  "bound_to config s = (sc_service s = service config \<and> sc_instance s = instance_id config \<and>
     sc_event_group s = event_group config \<and> sc_event s = event config \<and>
     sc_service_major s = service_major config \<and> sc_use_req s = use_req (req config))"

definition client_inv :: "'j SomeIPConfig \<Rightarrow> 'j SomeIPClient \<Rightarrow> bool" where
  "client_inv config s = (bound_to config s \<and>
     list_all (event_call_ok config) (sc_calls s) \<and>
     (Register_message_handler \<in> set (sc_calls s) \<longrightarrow> all_subscribed config (sc_calls s)) \<and>
     count_list (sc_calls s) Clear_all_handler = (if sc_stop_requested s then 1 else 0) \<and>
     count_list (sc_calls s) App_stop \<le> count_list (sc_calls s) Clear_all_handler \<and>
     (App_stop \<in> set (sc_calls s) \<longrightarrow> sc_initialized s))"

section \<open>Lemmas\<close>

lemma app_do_fields [simp]:
  "sc_calls (app_do cs s) = sc_calls s @ cs" "sc_stop_requested (app_do cs s) = sc_stop_requested s"
  "sc_initialized (app_do cs s) = sc_initialized s" "sc_use_tcp (app_do cs s) = sc_use_tcp s"
  "sc_service (app_do cs s) = sc_service s" "sc_instance (app_do cs s) = sc_instance s"
  "sc_event_group (app_do cs s) = sc_event_group s" "sc_event (app_do cs s) = sc_event s"
  "sc_service_major (app_do cs s) = sc_service_major s" "sc_service_minor (app_do cs s) = sc_service_minor s"
  "sc_use_req (app_do cs s) = sc_use_req s" "sc_req_service (app_do cs s) = sc_req_service s"
  "sc_req_instance (app_do cs s) = sc_req_instance s"
  "req_service_available (app_do cs s) = req_service_available s"
  by (simp_all add: app_do_def)

text \<open>The calls of \<open>init_event_service\<close>.\<close>

definition subscription_calls :: "'j SomeIPClient \<Rightarrow> app_call list" where
  "subscription_calls s = concat (map (\<lambda>i.
     [Request_event (sc_service s) (sc_instance s) (sc_event s + of_nat i) [sc_event_group s] ET_FIELD
        (if sc_use_tcp s then RT_RELIABLE else RT_UNRELIABLE),
      Subscribe (sc_service s) (sc_instance s) (sc_event_group s) (sc_service_major s)
        (sc_event s + of_nat i)]) [0..<34])"

lemma init_event_service_calls:
  "init_event_service (sc_service s) (sc_instance s) (sc_event_group s) (sc_event s)
     (sc_service_major s) minor s = app_do (subscription_calls s) s"
  by (simp add: init_event_service_def subscription_calls_def Let_def)

lemma on_availability_cases:
  "on_availability svc inst avail s =
    (let t = (if svc = sc_service s \<and> inst = sc_instance s
              then app_do (if avail then subscription_calls s
                     else [Unsubscribe (sc_service s) (sc_instance s) (sc_event_group s) (sc_event s)]) s
              else s)
     in if svc = sc_req_service s \<and> inst = sc_req_instance s
        then t\<lparr>req_service_available := avail\<rparr> else t)"
proof -
  have "sc_req_service (if P then app_do cs s else s) = sc_req_service s"
    and "sc_req_instance (if P then app_do cs s else s) = sc_req_instance s" for P cs
    by simp_all
  then show ?thesis
    by (cases avail) (simp_all only: on_availability_def Let_def simp_thms if_True if_False
        init_event_service_calls)
qed

lemma client_Run_initialized [simp]: "sc_initialized (snd (client_Run True name s))"
  by (simp add: client_Run_def init_def init_done_def init_register_def client_start_def init_event_service_def Let_def)

lemma client_Shutdown_fields [simp]:
  "sc_initialized (client_Shutdown s) = sc_initialized s" "sc_stop_requested (client_Shutdown s)"
  by (simp_all add: client_Shutdown_def client_stop_def Let_def)

lemma client_Shutdown_again [simp]: "destroy_SomeIPClient (client_Shutdown s) = client_Shutdown s"
  by (simp add: destroy_SomeIPClient_def client_Shutdown_def [of "client_Shutdown s"])

lemma subscription_calls_ok:
  assumes "bound_to config s"
  shows "list_all (event_call_ok config) (subscription_calls s)" and "all_subscribed config (subscription_calls s)"
  using assms
  by (auto simp: subscription_calls_def bound_to_def config_events_def all_subscribed_def list_all_iff)

lemma all_subscribed_append: "all_subscribed config cs \<or> all_subscribed config ds \<Longrightarrow> all_subscribed config (cs @ ds)"
  by (auto simp: all_subscribed_def)

lemma count_subscription_calls [simp]:
  "count_list (subscription_calls s) Clear_all_handler = 0"
  "count_list (subscription_calls s) App_stop = 0"
  "App_stop \<notin> set (subscription_calls s)" "Clear_all_handler \<notin> set (subscription_calls s)"
  "Register_message_handler \<notin> set (subscription_calls s)"
  by (auto simp: subscription_calls_def count_list_0_iff)

lemma init_register_calls:
  "init_register s = app_do ([Register_state_handler, Register_message_handler, Register_availability_handler] @
     subscription_calls s) s"
  by (simp add: init_register_def subscription_calls_def Let_def app_do_def init_event_service_def)

lemma app_do_inv:
  assumes "client_inv config s" and "Clear_all_handler \<notin> set cs" and "App_stop \<notin> set cs"
    and "list_all (event_call_ok config) cs"
    and "Register_message_handler \<in> set cs \<Longrightarrow> all_subscribed config cs"
  shows "client_inv config (app_do cs s)"
  using assms by (auto simp: client_inv_def bound_to_def all_subscribed_append)

lemma init_inv: "client_inv config s \<Longrightarrow> client_inv config (init_done name s) \<and> client_inv config (init_register s)"
proof
  assume i: "client_inv config s"
  then show "client_inv config (init_done name s)" by (simp add: client_inv_def bound_to_def init_done_def)
  have "bound_to config s" using i by (simp add: client_inv_def)
  from subscription_calls_ok [OF this] show "client_inv config (init_register s)"
    unfolding init_register_calls by (intro app_do_inv [OF i] all_subscribed_append) auto
qed

lemma client_Shutdown_inv: "client_inv config s \<Longrightarrow> client_inv config (client_Shutdown s)"
  by (auto simp: client_Shutdown_def client_stop_def client_inv_def bound_to_def Let_def
      count_list_0_iff all_subscribed_append)

lemma on_state_inv: "client_inv config s \<Longrightarrow> client_inv config (on_state st s)"
  by (auto simp: on_state_def Let_def intro!: app_do_inv)

lemma on_availability_inv:
  assumes i: "client_inv config s"
  shows "client_inv config (on_availability svc inst avail s)"
proof -
  have b: "bound_to config s" using i by (simp add: client_inv_def)
  then have u: "client_inv config (app_do [Unsubscribe a b g (sc_event s)] s)" for a b g
    by (intro app_do_inv [OF i]) (simp_all add: bound_to_def)
  have v: "client_inv config (app_do (subscription_calls s) s)"
    using subscription_calls_ok [OF b] by (intro app_do_inv [OF i]) simp_all
  have w: "client_inv config (t\<lparr>req_service_available := b\<rparr>)" if "client_inv config t" for t b
    using that by (simp add: client_inv_def bound_to_def)
  show ?thesis using i u v w
    by (cases avail) (simp_all add: on_availability_def init_event_service_calls Let_def)
qed

lemma client_start_inv: "client_inv config s \<Longrightarrow> client_inv config (client_start s)"
  by (auto simp: client_start_def intro!: app_do_inv)

lemma SendRequest_inv:
  assumes "client_inv config s"
  shows "client_inv config (snd (SendRequest id svc inst meth p s))"
  using assms by (auto simp: SendRequest_def Let_def intro!: app_do_inv)

interpretation sc: invariant_system "client_init config" client_step "client_inv config" for config
proof unfold_locales
  show "client_inv config s" if "client_init config s" for s
    using that by (simp add: client_init_def client_inv_def bound_to_def new_SomeIPClient_def)
  show "client_inv config t" if "client_inv config s" "client_step s t" for s t
    using that(2,1) by (induction rule: client_step.induct)
      (auto simp: init_inv client_start_inv client_Shutdown_inv on_state_inv on_availability_inv SendRequest_inv)
qed

text \<open>\<open>Run\<close> is \<open>init\<close>, in its two parts, and \<open>start\<close>.\<close>

lemma client_Run_steps: "client_step\<^sup>*\<^sup>* s (snd (client_Run ok name s))"
proof (cases ok)
  case True
  have "client_step\<^sup>*\<^sup>* s (init_done name s)" using step_init [of s name] by blast
  also have "client_step\<^sup>*\<^sup>* \<dots> (init_register (init_done name s))" using step_register by blast
  also have "client_step\<^sup>*\<^sup>* \<dots> (client_start (init_register (init_done name s)))" using step_start by blast
  finally show ?thesis using True by (simp add: client_Run_def init_def)
qed (simp add: client_Run_def init_def)

lemma client_Run_reach:
  "reach (client_init config) client_step s \<Longrightarrow> reach (client_init config) client_step (snd (client_Run ok name s))"
  by (rule reach_steps [OF client_Run_steps])

lemma hexdump_from_spec:
  "hexdump_from buf sz i =
    concat (map (\<lambda>i. hex2 (buf ! i) @ (if i < sz - 1 then '' '' else [])) [i..<sz])"
proof (induction buf sz i rule: hexdump_from.induct)
  case (1 buf sz i)
  then show ?case by (subst hexdump_from.simps) (simp add: upt_conv_Cons)
qed

lemma card_config_events: "card (config_events config) = 34"
proof -
  have "inj_on (\<lambda>i. event config + of_nat i :: u16) {0..<34}"
    by (auto simp: inj_on_def word_of_nat_eq_iff take_bit_eq_mod)
  then show ?thesis by (simp add: config_events_def card_image)
qed

section \<open>Properties\<close>

text \<open>
  C14. The SOME/IP client is stopped at most once, however often and in whatever order
  \<open>Run\<close>, \<open>Shutdown\<close> and the vsomeip handlers are called: the handlers are cleared exactly
  when a shutdown has been requested, once, and the application is stopped no more often than
  that and only if it was initialised.
\<close>

theorem someip_stops_once:
  assumes "reach (client_init config) client_step s"
  shows "count_list (sc_calls s) Clear_all_handler = (if sc_stop_requested s then 1 else 0) \<and>
    count_list (sc_calls s) App_stop \<le> (if sc_stop_requested s then 1 else 0) \<and>
    (App_stop \<in> set (sc_calls s) \<longrightarrow> sc_initialized s)"
  using sc.reach_inv [OF assms] by (simp add: client_inv_def)

definition sample_config :: "jv SomeIPConfig" where
  "sample_config = default_config 0xFF 0xFFFFFFFF"

definition stopped_sample :: "jv SomeIPClient" where
  "stopped_sample = client_Shutdown (client_Shutdown (snd (client_Run True ''feeder'' (new_SomeIPClient sample_config))))"

lemma client_reach:
  "reach (client_init config) client_step s \<Longrightarrow> client_step s t \<Longrightarrow> reach (client_init config) client_step t"
  by (erule reach_step)

lemma stopped_sample_reach: "reach (client_init sample_config) client_step stopped_sample"
proof -
  have "reach (client_init sample_config) client_step (new_SomeIPClient sample_config)"
    by (rule reach_init) (simp add: client_init_def)
  note client_Run_reach [OF this, of True "''feeder''"]
  note client_reach [OF this step_shutdown]
  note client_reach [OF this step_shutdown]
  then show ?thesis by (simp only: stopped_sample_def)
qed

theorem someip_stops_once_witness:
  "sc_stop_requested stopped_sample \<and> count_list (sc_calls stopped_sample) Clear_all_handler = 1"
proof -
  have "sc_stop_requested stopped_sample"
    by (simp add: stopped_sample_def)
  with someip_stops_once [OF stopped_sample_reach] show ?thesis by simp
qed

text \<open>
  C40. The calls about events, in any order of operations. Once the handlers are registered, the
  client has subscribed every event of the configured range of 34 consecutive 16-bit numbers, and
  it never subscribes or requests another one; but whatever happens, a service that becomes
  unavailable, \<open>Shutdown\<close> or destruction, it calls \<open>unsubscribe\<close> and \<open>release_event\<close> for the
  first event of the range only.
\<close>

theorem someip_subscriptions:
  assumes "reach (client_init config) client_step s" and "Register_message_handler \<in> set (sc_calls s)"
  shows "(\<lambda>e. Subscribe (service config) (instance_id config) (event_group config) (service_major config) e) `
      config_events config \<subseteq> set (sc_calls s) \<and>
    {e. \<exists>svc inst grp major. Subscribe svc inst grp major e \<in> set (sc_calls s)} = config_events config \<and>
    {e. \<exists>svc inst grps t r. Request_event svc inst e grps t r \<in> set (sc_calls s)} \<subseteq> config_events config \<and>
    card (config_events config) = 34 \<and>
    {e. \<exists>svc inst grp. Unsubscribe svc inst grp e \<in> set (sc_calls s)} \<subseteq> {event config} \<and>
    {e. \<exists>svc inst. Release_event svc inst e \<in> set (sc_calls s)} \<subseteq> {event config}"
proof -
  have c: "all_subscribed config (sc_calls s)" and "list_all (event_call_ok config) (sc_calls s)"
    using sc.reach_inv [OF assms(1)] assms(2) by (simp_all add: client_inv_def)
  then have ok: "event_call_ok config x" if "x \<in> set (sc_calls s)" for x
    using that by (simp add: list_all_iff)
  show ?thesis
    using c card_config_events [of config] by (auto simp: all_subscribed_def dest!: ok) blast
qed

theorem someip_subscriptions_witness:
  "sc_stop_requested stopped_sample \<and>
    (\<exists>svc inst grp major. Subscribe svc inst grp major (SAMPLE_EVENT_ID + 1) \<in> set (sc_calls stopped_sample)) \<and>
    (\<nexists>svc inst grp. Unsubscribe svc inst grp (SAMPLE_EVENT_ID + 1) \<in> set (sc_calls stopped_sample))"
proof -
  have r: "Register_message_handler \<in> set (sc_calls stopped_sample)" and st: "sc_stop_requested stopped_sample"
    by (simp_all add: stopped_sample_def client_Run_def init_def init_register_calls client_start_def
        client_Shutdown_def client_stop_def Let_def)
  have "event sample_config + of_nat 1 \<in> config_events sample_config"
    unfolding config_events_def by (rule imageI) simp
  then have "SAMPLE_EVENT_ID + 1 \<in> config_events sample_config" "SAMPLE_EVENT_ID + 1 \<noteq> event sample_config"
    by (simp_all add: sample_config_def default_config_def SAMPLE_EVENT_ID_def)
  with someip_subscriptions [OF stopped_sample_reach r] st show ?thesis by blast
qed

text \<open>
  When the service becomes available, all 34 events of its range are requested and subscribed;
  when it becomes unavailable, the first is unsubscribed; another service leads to no call, and only
  the request service changes the availability that \<open>SendRequest\<close> looks at.
\<close>

theorem on_availability_effect:
  "sc_calls (on_availability svc inst avail s) = sc_calls s @
    (if svc = sc_service s \<and> inst = sc_instance s
     then if avail then subscription_calls s
          else [Unsubscribe (sc_service s) (sc_instance s) (sc_event_group s) (sc_event s)]
     else []) \<and>
   req_service_available (on_availability svc inst avail s) =
    (if svc = sc_req_service s \<and> inst = sc_req_instance s then avail else req_service_available s)"
  by (auto simp: on_availability_cases Let_def)

text \<open>
  The two hexadecimal dumps of the program, \<open>hexdump\<close> of the SOME/IP client and
  \<open>bytes_to_string\<close> of the wiper library, give the same text for every buffer.
\<close>

lemma hexdump_is_bytes_to_string: "hexdump buf = bytes_to_string buf"
  by (simp add: hexdump_def hexdump_from_spec bytes_to_string_def)

end
