(* ===== verification/Adapter_Actuator.thy ===== *)
theory Adapter_Actuator
  imports Adapter_Codec Actuator_Subscriber Someip_Client
begin

text \<open>
  From the data broker to SOME/IP: \<open>SomeipFeederAdapter::on_actuator_change\<close>.

  The payload array has six bytes and lives as long as the call; it is a byte list threaded
  through the loops, as in the code, which clears it once and not per request. Every index and
  \<open>memcpy\<close> on it is checked in the model; a write outside is the outcome \<open>OOB_write\<close>. The
  argument \<open>string_object\<close> is the object representation of a \<open>std::string\<close>, whose bytes
  the code copies for text values; it depends on the C++ library and holds a pointer.

  The request is sent through \<open>SendRequest\<close> of the SOME/IP client. The locale
  \<open>request_sender\<close> is what the handler relies on: a request that is sent is appended to
  those sent before. The result of \<open>SendRequest\<close> is ignored, as in the code.
\<close>

definition SOMEIP_METHOD_PAYLOAD_SIZE :: nat where "SOMEIP_METHOD_PAYLOAD_SIZE = 6"

section \<open>Writing one value\<close>

definition put_byte :: "bytes \<Rightarrow> u64 \<Rightarrow> u8 \<Rightarrow> cpp_error + bytes" where
  "put_byte buf off b = buf_write buf (unat off) [b]"

text \<open>\<open>(v >> 8) | (v << 8)\<close> on 16 and on 32 bits.\<close>

definition rot16 :: "'a::len word \<Rightarrow> 'a word" where
  "rot16 v = or (drop_bit 8 v) (push_bit 8 v)"

definition put_uint8_array :: "'j VSSNode \<Rightarrow> u32 list \<Rightarrow> bytes \<Rightarrow> cpp_error + bytes" where
  "put_uint8_array node vs buf =
     ebind (efold (\<lambda>i buf. ebind (values_at vs i) (\<lambda>v. put_byte buf (byteOffset node + of_nat i) (ucast v)))
              [0..<unat (node_length node)] buf) (\<lambda>buf.
       if unat (node_length node) = 4 then
         ebind (buf_read buf 2) (\<lambda>b.
         ebind (put_byte buf 3 b) (\<lambda>buf. put_byte buf 2 0))
       else Inr buf)"

definition put_value ::
  "(string \<Rightarrow> bytes) \<Rightarrow> 'j VSSNode \<Rightarrow> DataType \<Rightarrow> kuksa_value \<Rightarrow> bytes \<Rightarrow> cpp_error + bytes" where
  "put_value string_object node ty dat buf =
     (let off = byteOffset node; n = unat (node_length node) in
      case ty of
        BOOL \<Rightarrow> put_byte buf off (if k_bool dat then 1 else 0)
      | UINT8 \<Rightarrow> put_byte buf off (ucast (k_uint32 dat))
      | INT8 \<Rightarrow> put_byte buf off (ucast (k_int32 dat))
      | UINT8_ARRAY \<Rightarrow>
          if has_uint32_array dat then put_uint8_array node (k_uint32_array dat) buf else Inr buf
      | UINT16 \<Rightarrow> obj_copy buf (unat off) (le_bytes 2 (ucast (k_uint32 dat) :: u16)) n
      | UINT16_ARRAY \<Rightarrow>
          if has_uint32_array dat then
            ebind (values_at (k_uint32_array dat) 0) (\<lambda>v0.
            ebind (put_byte buf off (ucast v0)) (\<lambda>buf.
            ebind (values_at (k_uint32_array dat) 1) (\<lambda>v1.
              obj_copy buf (unat (off + 1)) (le_bytes 4 (rot16 v1)) 2)))
          else Inr buf
      | INT16 \<Rightarrow> obj_copy buf (unat off) (le_bytes 2 (ucast (k_int32 dat) :: u16)) n
      | INT16_ARRAY \<Rightarrow>
          if has_int32_array dat then
            ebind (values_at (k_int32_array dat) 0) (\<lambda>v0.
            ebind (obj_copy buf (unat off) (le_bytes 2 (rot16 (ucast v0 :: u16))) 2) (\<lambda>buf.
            ebind (values_at (k_int32_array dat) 1) (\<lambda>v1.
              obj_copy buf (unat (off + 2)) (le_bytes 2 (rot16 (ucast v1 :: u16))) 2)))
          else Inr buf
      | TIMESTAMP_ARRAY \<Rightarrow>
          if has_int32_array dat then
            ebind (values_at (k_int32_array dat) 0) (\<lambda>v0.
            ebind (put_byte buf off (ucast v0)) (\<lambda>buf.
            ebind (values_at (k_int32_array dat) 1) (\<lambda>v1.
              obj_copy buf (unat (off + 1)) (le_bytes 2 (rot16 (ucast v1 :: u16))) 2)))
          else Inr buf
      | UINT32 \<Rightarrow> obj_copy buf (unat off) (le_bytes 4 (k_uint32 dat)) n
      | FLOAT \<Rightarrow> buf_write buf (unat off) (float_to_bytes (k_float dat))
      | STRING \<Rightarrow> obj_copy buf (unat off) (string_object (k_string dat)) n
      | _ \<Rightarrow> Inr buf)"

definition put_node ::
  "'j json \<Rightarrow> (string \<Rightarrow> bytes) \<Rightarrow> 'j VSSNode \<Rightarrow> kuksa_value \<Rightarrow> bytes \<Rightarrow> cpp_error + bytes" where
  "put_node J string_object node dat buf =
     (if 0 < unat (node_length node) then
        if transformMapping node \<noteq> [] then
          (case map_of (transformMapping node) (to_string (if k_bool dat then 1 else 0)) of
             Some v \<Rightarrow> copyJsonValueType J buf (unat (byteOffset node)) v (unat (node_length node))
           | None \<Rightarrow> Inr buf)
        else put_value string_object node (getDataType (node_datatype node)) dat buf
      else Inr buf)"

section \<open>The handler\<close>

definition send_node ::
  "SOMEIPConfigdata \<Rightarrow> 'j VSSNode \<Rightarrow> bytes \<Rightarrow> 'c SomeIPClient option \<Rightarrow> 'c SomeIPClient option" where
  "send_node md node buf client =
     (case client of
        Some c \<Rightarrow>
          if serviceID md \<noteq> 0 \<and> instanceID md \<noteq> 0 \<and> methodId node \<noteq> 0
          then Some (snd (SendRequest id (serviceID md) (instanceID md) (methodId node) buf c))
          else client
      | None \<Rightarrow> client)"

definition node_change ::
  "'j json \<Rightarrow> (string \<Rightarrow> bytes) \<Rightarrow> ActuatorValues \<Rightarrow> SOMEIPConfigdata \<Rightarrow> 'j VSSNode
     \<Rightarrow> bytes \<times> 'c SomeIPClient option \<Rightarrow> cpp_error + bytes \<times> 'c SomeIPClient option" where
  "node_change J string_object target_values md node st =
     (case map_of target_values (node_name node) of
        Some dat \<Rightarrow>
          ebind (put_node J string_object node dat (fst st)) (\<lambda>buf.
            Inr (buf, send_node md node buf (snd st)))
      | None \<Rightarrow> Inr st)"

definition mapping_change ::
  "'j json \<Rightarrow> (string \<Rightarrow> bytes) \<Rightarrow> ActuatorValues \<Rightarrow> 'j VSSConfigInfo
     \<Rightarrow> bytes \<times> 'c SomeIPClient option \<Rightarrow> cpp_error + bytes \<times> 'c SomeIPClient option" where
  "mapping_change J string_object target_values m st =
     (if serviceType (metaData m) = ''Method''
      then efold (node_change J string_object target_values (metaData m)) (vssNodes m) st
      else Inr st)"

definition on_actuator_change ::
  "'j json \<Rightarrow> (string \<Rightarrow> bytes) \<Rightarrow> ActuatorValues \<Rightarrow> 'j SomeIPConfig \<Rightarrow> 'c SomeIPClient option
     \<Rightarrow> cpp_error + 'c SomeIPClient option" where
  "on_actuator_change J string_object target_values config client =
     ebind (efold (mapping_change J string_object target_values) (VSSMap config)
              (replicate SOMEIP_METHOD_PAYLOAD_SIZE 0, client))
       (\<lambda>(vss_payload, client). Inr client)"

section \<open>What the handler relies on\<close>

locale request_sender =
  fixes send :: "u16 \<Rightarrow> u16 \<Rightarrow> u16 \<Rightarrow> bytes \<Rightarrow> 'c \<Rightarrow> 'c"
    and sent :: "'c \<Rightarrow> someip_message list"
    and enabled :: "'c \<Rightarrow> bool"
  assumes send_appends: "enabled c \<Longrightarrow> sent (send s i m p c) =
      sent c @ [\<lparr>msg_service = s, msg_instance = i, msg_method = m, msg_payload = p\<rparr>]"
    and send_enabled: "enabled (send s i m p c) = enabled c"
    and send_disabled: "\<not> enabled c \<Longrightarrow> send s i m p c = c"
begin

lemma send_all:
  "enabled c \<Longrightarrow> sent (fold (\<lambda>r. send (msg_service r) (msg_instance r) (msg_method r) (msg_payload r)) rs c) =
    sent c @ rs"
proof (induction rs arbitrary: c)
  case (Cons r rs)
  have "enabled (send (msg_service r) (msg_instance r) (msg_method r) (msg_payload r) c)"
    using Cons.prems by (simp add: send_enabled)
  from Cons.IH [OF this] Cons.prems show ?case by (simp add: send_appends)
qed simp

lemma send_all_enabled:
  "enabled (fold (\<lambda>r. send (msg_service r) (msg_instance r) (msg_method r) (msg_payload r)) rs c) = enabled c"
  by (induction rs arbitrary: c) (simp_all add: send_enabled)

end

fun sent_message :: "app_call \<Rightarrow> someip_message list" where
  "sent_message (App_send m) = [m]"
| "sent_message _ = []"

definition sent_requests :: "'c SomeIPClient \<Rightarrow> someip_message list" where
  "sent_requests c = concat (map sent_message (sc_calls c))"

definition send_request :: "u16 \<Rightarrow> u16 \<Rightarrow> u16 \<Rightarrow> bytes \<Rightarrow> 'c SomeIPClient \<Rightarrow> 'c SomeIPClient" where
  "send_request svc inst meth payload c = snd (SendRequest id svc inst meth payload c)"

interpretation rs: request_sender send_request sent_requests sc_use_req
  by unfold_locales (auto simp: send_request_def SendRequest_def sent_requests_def Let_def)

section \<open>Specification\<close>

text \<open>The nodes a change set concerns, with their values, in the order of the configuration.\<close>

definition hits :: "ActuatorValues \<Rightarrow> 'j VSSConfigInfo list \<Rightarrow> (SOMEIPConfigdata \<times> 'j VSSNode \<times> kuksa_value) list" where
  "hits target_values ms =
     concat (map (\<lambda>m. if serviceType (metaData m) = ''Method''
       then concat (map (\<lambda>n. case map_of target_values (node_name n) of
              Some v \<Rightarrow> [(metaData m, n, v)] | None \<Rightarrow> []) (vssNodes m))
       else []) ms)"

text \<open>The requests for these nodes, each with the bytes written so far.\<close>

fun hit_requests ::
  "'j json \<Rightarrow> (string \<Rightarrow> bytes) \<Rightarrow> bytes \<Rightarrow> (SOMEIPConfigdata \<times> 'j VSSNode \<times> kuksa_value) list
     \<Rightarrow> cpp_error + someip_message list" where
  "hit_requests J so buf [] = Inr []"
| "hit_requests J so buf ((md, n, v) # hs) =
     ebind (put_node J so n v buf) (\<lambda>buf.
     ebind (hit_requests J so buf hs) (\<lambda>rs.
       Inr ((if serviceID md \<noteq> 0 \<and> instanceID md \<noteq> 0 \<and> methodId n \<noteq> 0
             then [\<lparr>msg_service = serviceID md, msg_instance = instanceID md, msg_method = methodId n,
                    msg_payload = buf\<rparr>] else []) @ rs)))"

definition send_requests :: "someip_message list \<Rightarrow> 'c SomeIPClient \<Rightarrow> 'c SomeIPClient" where
  "send_requests rs c =
     fold (\<lambda>r. send_request (msg_service r) (msg_instance r) (msg_method r) (msg_payload r)) rs c"

text \<open>The size of the object \<open>copyJsonValueType\<close> copies from.\<close>

definition json_room :: "'j json \<Rightarrow> 'j \<Rightarrow> nat \<Rightarrow> bool" where
  "json_room J v n =
     (if j_isBool J v then n \<le> 1
      else if j_isString J v then \<forall>s. j_asString J v = Inr s \<longrightarrow> n \<le> length s + 1
      else if j_isNumeric J v then (if j_isInt J v \<or> j_isUInt J v then n \<le> 4 else n \<le> 8)
      else True)"

text \<open>A node whose value can be written into the payload without leaving it.\<close>

definition node_fits :: "'j json \<Rightarrow> (string \<Rightarrow> bytes) \<Rightarrow> 'j VSSNode \<Rightarrow> kuksa_value \<Rightarrow> bool" where
  "node_fits J so node dat =
     (let off = unat (byteOffset node); n = unat (node_length node) in
      n = 0 \<or>
      (if transformMapping node \<noteq> [] then
         off + n \<le> SOMEIP_METHOD_PAYLOAD_SIZE \<and> (\<forall>kv \<in> set (transformMapping node). json_room J (snd kv) n)
       else
         case getDataType (node_datatype node) of
           BOOL \<Rightarrow> off < SOMEIP_METHOD_PAYLOAD_SIZE
         | UINT8 \<Rightarrow> off < SOMEIP_METHOD_PAYLOAD_SIZE
         | INT8 \<Rightarrow> off < SOMEIP_METHOD_PAYLOAD_SIZE
         | UINT8_ARRAY \<Rightarrow> off + n \<le> SOMEIP_METHOD_PAYLOAD_SIZE \<and>
             (has_uint32_array dat \<longrightarrow> n \<le> length (k_uint32_array dat))
         | UINT16 \<Rightarrow> off + n \<le> SOMEIP_METHOD_PAYLOAD_SIZE \<and> n \<le> 2
         | INT16 \<Rightarrow> off + n \<le> SOMEIP_METHOD_PAYLOAD_SIZE \<and> n \<le> 2
         | UINT16_ARRAY \<Rightarrow> off + 3 \<le> SOMEIP_METHOD_PAYLOAD_SIZE \<and>
             (has_uint32_array dat \<longrightarrow> 2 \<le> length (k_uint32_array dat))
         | INT16_ARRAY \<Rightarrow> off + 4 \<le> SOMEIP_METHOD_PAYLOAD_SIZE \<and>
             (has_int32_array dat \<longrightarrow> 2 \<le> length (k_int32_array dat))
         | TIMESTAMP_ARRAY \<Rightarrow> off + 3 \<le> SOMEIP_METHOD_PAYLOAD_SIZE \<and>
             (has_int32_array dat \<longrightarrow> 2 \<le> length (k_int32_array dat))
         | UINT32 \<Rightarrow> off + n \<le> SOMEIP_METHOD_PAYLOAD_SIZE \<and> n \<le> 4
         | FLOAT \<Rightarrow> off + 4 \<le> SOMEIP_METHOD_PAYLOAD_SIZE
         | STRING \<Rightarrow> off + n \<le> SOMEIP_METHOD_PAYLOAD_SIZE \<and> n \<le> length (so (k_string dat))
         | _ \<Rightarrow> True))"

section \<open>Lemmas on bytes\<close>

lemma le_bytes_2: "le_bytes 2 w = [ucast w, ucast (drop_bit 8 w)]"
  by (simp add: le_bytes_def numeral_2_eq_2)

lemma le_bytes_rot16: "le_bytes 2 (rot16 (w :: u16)) = rev (le_bytes 2 w)"
proof -
  have "ucast (rot16 w) = (ucast (drop_bit 8 w) :: u8)" and "ucast (drop_bit 8 (rot16 w)) = (ucast w :: u8)"
    by (rule bit_word_eqI, auto simp: rot16_def bit_simps dest: bit_imp_le_length)+
  then show ?thesis by (simp add: le_bytes_2)
qed

lemma le_bytes_rot16_wide:
  assumes "v < 2 ^ 16"
  shows "take 2 (le_bytes 4 (rot16 (v :: u32))) = rev (le_bytes 2 (ucast v :: u16))"
proof -
  have hi: "\<not> bit v k" if "16 \<le> k" for k
    using assms that by (metis bit_take_bit_iff less_mask_eq linorder_not_le take_bit_eq_mask word_le_less_eq)
  have t: "take 2 (le_bytes 4 w) = [ucast w, ucast (drop_bit 8 w)]" for w :: u32
    by (simp add: le_bytes_def eval_nat_numeral)
  have "ucast (rot16 v) = (ucast (drop_bit 8 (ucast v :: u16)) :: u8)"
    and "ucast (drop_bit 8 (rot16 v)) = (ucast (ucast v :: u16) :: u8)"
    by (rule bit_word_eqI, auto simp: rot16_def bit_simps hi dest: bit_imp_le_length)+
  then show ?thesis by (simp add: t le_bytes_2)
qed

section \<open>The loops as one pass\<close>

definition hit_step ::
  "'j json \<Rightarrow> (string \<Rightarrow> bytes) \<Rightarrow> SOMEIPConfigdata \<times> 'j VSSNode \<times> kuksa_value
     \<Rightarrow> bytes \<times> 'c SomeIPClient option \<Rightarrow> cpp_error + bytes \<times> 'c SomeIPClient option" where
  "hit_step J so h st =
     (case h of (md, n, v) \<Rightarrow> ebind (put_node J so n v (fst st)) (\<lambda>buf. Inr (buf, send_node md n buf (snd st))))"

lemma node_loop:
  "efold (node_change J so t md) ns st =
    efold (hit_step J so) (concat (map (\<lambda>n. case map_of t (node_name n) of
      Some v \<Rightarrow> [(md, n, v)] | None \<Rightarrow> []) ns)) st"
proof (induction ns arbitrary: st)
  case (Cons n ns)
  show ?case
  proof (cases "map_of t (node_name n)")
    case None
    with Cons show ?thesis by (simp add: node_change_def)
  next
    case (Some v)
    then have "node_change J so t md n st = hit_step J so (md, n, v) st"
      by (simp add: node_change_def hit_step_def)
    with Some Cons show ?thesis by (cases "hit_step J so (md, n, v) st") simp_all
  qed
qed simp

lemma mapping_loop:
  "efold (mapping_change J so t) ms st = efold (hit_step J so) (hits t ms) st"
proof (induction ms arbitrary: st)
  case (Cons m ms)
  show ?case
  proof (cases "serviceType (metaData m) = ''Method''")
    case True
    have h: "hits t (m # ms) = concat (map (\<lambda>n. case map_of t (node_name n) of
        Some v \<Rightarrow> [(metaData m, n, v)] | None \<Rightarrow> []) (vssNodes m)) @ hits t ms"
      using True by (simp add: hits_def)
    have "mapping_change J so t m st = efold (node_change J so t (metaData m)) (vssNodes m) st"
      using True by (simp add: mapping_change_def)
    then have "efold (mapping_change J so t) (m # ms) st =
        ebind (efold (node_change J so t (metaData m)) (vssNodes m) st) (efold (mapping_change J so t) ms)"
      by simp
    also have "\<dots> = efold (hit_step J so) (hits t (m # ms)) st"
      unfolding h efold_append node_loop using Cons.IH by (metis ext)
    finally show ?thesis .
  next
    case False
    with Cons show ?thesis by (simp add: mapping_change_def hits_def)
  qed
qed (simp add: hits_def)

lemma send_node_Some:
  "send_node md n buf (Some c) = Some (if serviceID md \<noteq> 0 \<and> instanceID md \<noteq> 0 \<and> methodId n \<noteq> 0
     then send_request (serviceID md) (instanceID md) (methodId n) buf c else c)"
  by (simp add: send_node_def send_request_def)

lemma hit_loop:
  "ebind (efold (hit_step J so) hs (buf, Some c)) (\<lambda>(b, cl). Inr cl) =
    ebind (hit_requests J so buf hs) (\<lambda>rs. Inr (Some (send_requests rs c)))"
proof (induction hs arbitrary: buf c)
  case (Cons h hs)
  obtain md n v where h: "h = (md, n, v)" by (cases h)
  show ?case
  proof (cases "put_node J so n v buf")
    case (Inr buf')
    let ?c = "if serviceID md \<noteq> 0 \<and> instanceID md \<noteq> 0 \<and> methodId n \<noteq> 0
      then send_request (serviceID md) (instanceID md) (methodId n) buf' c else c"
    have s: "hit_step J so h (buf, Some c) = Inr (buf', Some ?c)"
      using Inr by (simp add: h hit_step_def send_node_Some)
    have "ebind (efold (hit_step J so) (h # hs) (buf, Some c)) (\<lambda>(b, cl). Inr cl) =
        ebind (hit_requests J so buf' hs) (\<lambda>rs. Inr (Some (send_requests rs ?c)))"
      using Cons.IH [of buf' ?c] by (simp add: s)
    also have "\<dots> = ebind (hit_requests J so buf (h # hs)) (\<lambda>rs. Inr (Some (send_requests rs c)))"
      using Inr by (cases "hit_requests J so buf' hs") (simp_all add: h send_requests_def)
    finally show ?thesis .
  qed (simp add: h hit_step_def)
qed (simp add: send_requests_def)

lemma on_actuator_change_hits:
  "on_actuator_change J so t config (Some c) =
    ebind (hit_requests J so (replicate SOMEIP_METHOD_PAYLOAD_SIZE 0) (hits t (VSSMap config)))
      (\<lambda>rs. Inr (Some (send_requests rs c)))"
  by (simp add: on_actuator_change_def mapping_loop hit_loop)

lemma sent_send_requests:
  "sent_requests (send_requests rs c) = sent_requests c @ (if sc_use_req c then rs else [])"
proof (cases "sc_use_req c")
  case True
  then show ?thesis by (simp add: send_requests_def rs.send_all)
next
  case False
  have "send_requests rs c = c" using False
    by (induction rs) (simp_all add: send_requests_def rs.send_disabled)
  with False show ?thesis by simp
qed

section \<open>Bounds\<close>

lemma put_byte_length: "put_byte buf off b = Inr buf' \<Longrightarrow> length buf' = length buf"
  by (auto simp: put_byte_def dest: buf_write_length)

lemma put_byte_ok: "unat off < length buf \<Longrightarrow> \<exists>buf'. put_byte buf off b = Inr buf' \<and> length buf' = length buf"
  by (auto simp: put_byte_def buf_write_def)

lemma put_uint8_array_length: "put_uint8_array node vs buf = Inr buf' \<Longrightarrow> length buf' = length buf"
proof -
  let ?f = "\<lambda>i buf. ebind (values_at vs i) (\<lambda>v. put_byte buf (byteOffset node + of_nat i) (ucast v))"
  have "length b = length buf" if "efold ?f xs buf = Inr b" for xs b
    using that by (rule efold_inv) (auto simp: bind_simps dest: put_byte_length)
  then show "put_uint8_array node vs buf = Inr buf' \<Longrightarrow> ?thesis"
    by (fastforce simp: put_uint8_array_def bind_simps split: if_splits dest: put_byte_length)
qed

lemmas write_lengths = put_byte_length obj_copy_length buf_write_length put_uint8_array_length copyJson_length

lemma put_value_length: "put_value so node ty v buf = Inr buf' \<Longrightarrow> length buf' = length buf"
  by (cases ty) (auto simp: put_value_def bind_simps Let_def split: if_splits dest!: write_lengths)

lemma put_node_length: "put_node J so n v buf = Inr buf' \<Longrightarrow> length buf' = length buf"
  by (auto simp: put_node_def split: if_splits option.splits dest: put_value_length copyJson_length)

lemma unat_offset: "unat (off :: u64) + i < 2 ^ 64 \<Longrightarrow> unat (off + of_nat i) = unat off + i"
  by (subst unat_add_lem [THEN iffD1]) (simp_all add: unat_of_nat)

lemma put_uint8_array_ok:
  assumes "unat (byteOffset node) + unat (node_length node) \<le> length buf" and "length buf \<le> 6"
    and "unat (node_length node) \<le> length vs"
  shows "\<exists>buf'. put_uint8_array node vs buf = Inr buf'"
proof -
  let ?f = "\<lambda>i buf. ebind (values_at vs i) (\<lambda>v. put_byte buf (byteOffset node + of_nat i) (ucast v))"
  have "\<exists>b. efold ?f [0..<unat (node_length node)] buf = Inr b \<and> length b = length buf"
  proof (rule efold_total)
    fix i and b :: bytes assume i: "i \<in> set [0..<unat (node_length node)]" and b: "length b = length buf"
    then have "unat (byteOffset node + of_nat i) < length b"
      using assms by (subst unat_offset) auto
    with put_byte_ok [OF this, of "ucast (vs ! i)"] i assms(3) b
    show "\<exists>s'. ?f i b = Inr s' \<and> length s' = length buf" by (simp add: values_at_def)
  qed simp
  then obtain b where b: "efold ?f [0..<unat (node_length node)] buf = Inr b" "length b = length buf" by blast
  show ?thesis
  proof (cases "unat (node_length node) = 4")
    case True
    have 2: "unat (2 :: u64) < length b" "2 < length b" "unat (3 :: u64) < length b"
      using True assms(1) b(2) by simp_all
    obtain b1 where b1: "put_byte b 3 (b ! 2) = Inr b1" "length b1 = length b"
      using put_byte_ok [OF 2(3)] by blast
    obtain b2 where "put_byte b1 2 0 = Inr b2" using put_byte_ok [of 2 b1] 2(1) b1(2) by auto
    with True b b1 2 show ?thesis by (simp add: put_uint8_array_def)
  qed (use b in \<open>simp add: put_uint8_array_def\<close>)
qed

lemma obj_copy_total:
  "n \<le> length obj \<Longrightarrow> off + n \<le> length buf \<Longrightarrow> \<exists>buf'. obj_copy buf off obj n = Inr buf' \<and> length buf' = length buf"
  by (simp add: obj_copy_ok)

lemma copyJson_ok:
  assumes "json_converts J" and "json_room J v n" and "off + n \<le> length buf"
  shows "\<exists>buf'. copyJsonValueType J buf off v n = Inr buf'"
proof -
  note h = assms(1) [unfolded json_converts_def, THEN spec, of v]
  have w: "\<exists>buf'. buf_write buf off (bytes_of_string (j_write J v)) = Inr buf'" if "length (j_write J v) \<le> n"
    using that assms(3) by (simp add: buf_write_ok_iff bytes_of_string_def)
  have c: "\<exists>buf'. obj_copy buf off obj n = Inr buf'" if "n \<le> length obj" for obj
    using obj_copy_total [OF that assms(3)] by blast
  consider (bool) x where "j_isBool J v" "j_asBool J v = Inr x"
    | (string) x where "\<not> j_isBool J v" "j_isString J v" "j_asString J v = Inr x"
    | (int) x where "\<not> j_isBool J v" "\<not> j_isString J v" "j_isNumeric J v" "j_isInt J v" "j_asInt J v = Inr x"
    | (uint) x where "\<not> j_isBool J v" "\<not> j_isString J v" "j_isNumeric J v" "\<not> j_isInt J v" "j_isUInt J v"
        "j_asUInt J v = Inr x"
    | (wide) "\<not> j_isBool J v" "\<not> j_isString J v" "j_isNumeric J v" "\<not> j_isInt J v" "\<not> j_isUInt J v"
    | (other) "\<not> j_isBool J v" "\<not> j_isString J v" "\<not> j_isNumeric J v"
    using h by blast
  then show ?thesis
  proof cases
    case wide
    then have n: "n \<le> 8" using assms(2) by (simp add: json_room_def)
    consider x where "j_isInt64 J v" "j_asInt64 J v = Inr x"
      | x where "\<not> j_isInt64 J v" "j_isUInt64 J v" "j_asUInt64 J v = Inr x"
      | x where "\<not> j_isInt64 J v" "\<not> j_isUInt64 J v" "j_isDouble J v" "j_asDouble J v = Inr x"
      | "\<not> j_isInt64 J v" "\<not> j_isUInt64 J v" "\<not> j_isDouble J v"
      using h by blast
    then show ?thesis by cases (use wide n c in \<open>simp_all add: copyJsonValueType_def\<close>)
  qed (use assms(2) c w in \<open>simp_all add: copyJsonValueType_def json_room_def bytes_of_string_def Let_def\<close>)
qed

lemma put_byte_Inr:
  "unat off < length buf \<Longrightarrow> put_byte buf off b = Inr (take (unat off) buf @ b # drop (Suc (unat off)) buf)"
  by (simp add: put_byte_def buf_write_def)

lemma unat_offset_small: "unat (off :: u64) + 3 \<le> 6 \<Longrightarrow> unat (off + 1) = unat off + 1"
  "unat (off :: u64) + 4 \<le> 6 \<Longrightarrow> unat (off + 2) = unat off + 2"
  using unat_offset [of off 1] unat_offset [of off 2] by simp_all

lemma put_node_ok:
  assumes j: "json_converts J" and fits: "node_fits J so node dat" and buf: "length buf = SOMEIP_METHOD_PAYLOAD_SIZE"
  shows "\<exists>buf'. put_node J so node dat buf = Inr buf'"
proof -
  consider "unat (node_length node) = 0"
    | (tr) "0 < unat (node_length node)" "transformMapping node \<noteq> []"
    | (ty) "0 < unat (node_length node)" "transformMapping node = []" by blast
  then show ?thesis
  proof cases
    case tr
    then show ?thesis using fits buf copyJson_ok [OF j]
      by (fastforce simp: put_node_def node_fits_def Let_def split: option.splits dest: map_of_SomeD)
  next
    case ty
    note f = fits [unfolded node_fits_def Let_def]
    have "\<exists>buf'. put_value so node (getDataType (node_datatype node)) dat buf = Inr buf'"
    proof (cases "getDataType (node_datatype node)")
      case UINT8_ARRAY
      with f ty buf show ?thesis using put_uint8_array_ok [of node buf "k_uint32_array dat"]
        by (auto simp: put_value_def SOMEIP_METHOD_PAYLOAD_SIZE_def)
    next
      case UINT16_ARRAY
      with f ty buf show ?thesis
        by (auto simp: put_value_def SOMEIP_METHOD_PAYLOAD_SIZE_def values_at_def unat_offset_small
            put_byte_Inr obj_copy_ok Let_def)
    next
      case INT16_ARRAY
      with f ty buf show ?thesis
        by (auto simp: put_value_def SOMEIP_METHOD_PAYLOAD_SIZE_def values_at_def unat_offset_small
            put_byte_Inr obj_copy_ok Let_def)
    next
      case TIMESTAMP_ARRAY
      with f ty buf show ?thesis
        by (auto simp: put_value_def SOMEIP_METHOD_PAYLOAD_SIZE_def values_at_def unat_offset_small
            put_byte_Inr obj_copy_ok Let_def)
    qed (use f ty buf in \<open>auto simp: put_value_def put_byte_def buf_write_def obj_copy_ok float_to_bytes_def
          SOMEIP_METHOD_PAYLOAD_SIZE_def Let_def\<close>)
    with ty show ?thesis by (simp add: put_node_def)
  qed (simp add: put_node_def)
qed

lemma hit_requests_ok:
  assumes "json_converts J" and "length buf = SOMEIP_METHOD_PAYLOAD_SIZE"
    and "list_all (\<lambda>(md, n, v). node_fits J so n v) hs"
  shows "\<exists>rs. hit_requests J so buf hs = Inr rs \<and>
    list_all (\<lambda>r. length (msg_payload r) = SOMEIP_METHOD_PAYLOAD_SIZE) rs"
  using assms(2,3)
proof (induction hs arbitrary: buf)
  case (Cons h hs)
  obtain md n v where h: "h = (md, n, v)" by (cases h)
  with Cons.prems obtain buf' where b: "put_node J so n v buf = Inr buf'"
    using put_node_ok [OF assms(1), of so n v buf] by auto
  then have l: "length buf' = SOMEIP_METHOD_PAYLOAD_SIZE" using Cons.prems put_node_length by metis
  with Cons.IH [of buf'] Cons.prems obtain rs where
    "hit_requests J so buf' hs = Inr rs" "list_all (\<lambda>r. length (msg_payload r) = SOMEIP_METHOD_PAYLOAD_SIZE) rs"
    by auto
  with h b l show ?case by simp
qed simp

lemma hit_requests_targets:
  "hit_requests J so buf hs = Inr rs \<Longrightarrow>
    map (\<lambda>r. (msg_service r, msg_instance r, msg_method r)) rs =
    filter (\<lambda>(s, i, m). s \<noteq> 0 \<and> i \<noteq> 0 \<and> m \<noteq> 0) (map (\<lambda>(md, n, v). (serviceID md, instanceID md, methodId n)) hs)"
proof (induction hs arbitrary: buf rs)
  case (Cons h hs)
  obtain md n v where h: "h = (md, n, v)" by (cases h)
  with Cons show ?case by (auto simp: bind_simps)
qed simp

section \<open>Properties\<close>

text \<open>
  C12. What a change set sends: one request for every node of a \<open>Method\<close> mapping whose name is
  in the set, in the order of the configuration, addressed to the mapping's service and instance
  and to the node's own method, skipped if one of the three is zero, and nothing else; nothing is
  sent when request/response is disabled. The payload of each request is the one array with all
  bytes written so far in the call, so later requests carry the bytes of earlier ones.
\<close>

theorem on_actuator_change_requests:
  assumes "on_actuator_change J so target_values config (Some c) = Inr r"
  shows "\<exists>rs. hit_requests J so (replicate SOMEIP_METHOD_PAYLOAD_SIZE 0) (hits target_values (VSSMap config)) = Inr rs \<and>
    r = Some (send_requests rs c) \<and>
    sent_requests (send_requests rs c) = sent_requests c @ (if sc_use_req c then rs else []) \<and>
    map (\<lambda>q. (msg_service q, msg_instance q, msg_method q)) rs =
      filter (\<lambda>(s, i, m). s \<noteq> 0 \<and> i \<noteq> 0 \<and> m \<noteq> 0)
        (map (\<lambda>(md, n, v). (serviceID md, instanceID md, methodId n)) (hits target_values (VSSMap config)))"
proof -
  let ?hs = "hits target_values (VSSMap config)"
  obtain rs where rs: "hit_requests J so (replicate SOMEIP_METHOD_PAYLOAD_SIZE 0) ?hs = Inr rs"
      "r = Some (send_requests rs c)"
    using assms by (auto simp: on_actuator_change_hits bind_simps)
  with hit_requests_targets [OF rs(1)] sent_send_requests [of rs c] show ?thesis by blast
qed

text \<open>A mapping in the style of the shipped configuration: one method with one target node.\<close>

definition act_node :: "string \<Rightarrow> u64 \<Rightarrow> u8 \<Rightarrow> jv VSSNode" where
  "act_node ty off len = \<lparr>node_name = ''Vehicle.Target'', node_datatype = ty, byteOffset = off, node_length = len,
     methodId = 7, transformMapping = []\<rparr>"

definition act_config :: "jv VSSNode \<Rightarrow> jv SomeIPConfig" where
  "act_config n = (default_config 0xFF 0xFFFFFFFF)\<lparr>req := \<lparr>use_req = True, rq_service = 0x6123, rq_instance = 0xb,
      rq_method = 7, rq_service_major = 1, rq_service_minor = 0\<rparr>,
     VSSMap := [\<lparr>metaData = \<lparr>serviceType = ''Method'', serviceID = 0x6123, instanceID = 0xb, methodID = 7,
       EventID = 0, EventGroup = 0, majorVersion = 1, minorVersion = 0\<rparr>, vssNodes = [n]\<rparr>]\<rparr>"

lemma act_config_hits:
  "hits [(''Vehicle.Target'', v)] (VSSMap (act_config (act_node ty off len))) =
    [(metaData (hd (VSSMap (act_config (act_node ty off len)))), act_node ty off len, v)]"
  by (simp add: hits_def act_config_def act_node_def)

abbreviation act_client :: "jv SomeIPClient" where
  "act_client \<equiv> new_SomeIPClient (act_config (act_node ''UINT8'' 5 1))"

lemma act_hit_requests:
  "hit_requests jv_json (\<lambda>_. []) (replicate SOMEIP_METHOD_PAYLOAD_SIZE 0)
     (hits [(''Vehicle.Target'', K_uint32 2)] (VSSMap (act_config (act_node ''UINT8'' 5 1)))) =
   Inr [\<lparr>msg_service = 0x6123, msg_instance = 0xb, msg_method = 7, msg_payload = [0, 0, 0, 0, 0, 2]\<rparr>]"
proof -
  have "replicate 6 0 = [0, 0, 0, 0, 0, 0 :: u8]" by (simp add: eval_nat_numeral)
  moreover have "put_node jv_json (\<lambda>_. []) (act_node ''UINT8'' 5 1) (K_uint32 2) [0, 0, 0, 0, 0, 0] =
      Inr [0, 0, 0, 0, 0, 2]"
    by (simp add: put_node_def put_value_def act_node_def getDataType_def put_byte_Inr)
  moreover have "serviceID (metaData (hd (VSSMap (act_config n)))) = 0x6123"
    and "instanceID (metaData (hd (VSSMap (act_config n)))) = 0xb" for n
    by (simp_all add: act_config_def)
  moreover have "methodId (act_node ''UINT8'' 5 1) = 7" by (simp add: act_node_def)
  ultimately show ?thesis unfolding act_config_hits SOMEIP_METHOD_PAYLOAD_SIZE_def by simp
qed

lemma act_client_change:
  "on_actuator_change jv_json (\<lambda>_. []) [(''Vehicle.Target'', K_uint32 2)] (act_config (act_node ''UINT8'' 5 1))
     (Some act_client) =
   Inr (Some (send_requests [\<lparr>msg_service = 0x6123, msg_instance = 0xb, msg_method = 7,
     msg_payload = [0, 0, 0, 0, 0, 2]\<rparr>] act_client))"
  unfolding on_actuator_change_hits act_hit_requests by simp

lemma act_config_targets:
  "map (\<lambda>(md, n, v). (serviceID md, instanceID md, methodId n))
     (hits [(''Vehicle.Target'', v)] (VSSMap (act_config (act_node ty off len)))) = [(0x6123, 0xb, 7)]"
  unfolding act_config_hits by (simp add: act_config_def act_node_def)

theorem on_actuator_change_requests_witness:
  "\<exists>rs. sent_requests (send_requests rs act_client) = rs \<and>
    map (\<lambda>q. (msg_service q, msg_instance q, msg_method q)) rs = [(0x6123, 0xb, 7)]"
proof -
  have c: "sent_requests act_client = []" "sc_use_req act_client"
    by (simp_all add: sent_requests_def new_SomeIPClient_def act_config_def)
  have f: "filter (\<lambda>(s, i, m). s \<noteq> 0 \<and> i \<noteq> 0 \<and> m \<noteq> 0) [(0x6123, 0xb, 7)] =
      [(0x6123 :: u16, 0xb :: u16, 7 :: u16)]" by simp
  from on_actuator_change_requests [OF act_client_change, unfolded act_config_targets f]
  show ?thesis using c by auto
qed

text \<open>
  C22. Memory safety of the handler: if every node the change set concerns fits the six-byte
  payload and the value it receives, and JSON conversions of a reported kind do not throw, the
  handler returns and every request it sends has six bytes.
\<close>

theorem on_actuator_change_safe:
  assumes "json_converts J"
    and "list_all (\<lambda>(md, n, v). node_fits J so n v) (hits target_values (VSSMap config))"
  shows "\<exists>rs. on_actuator_change J so target_values config (Some c) = Inr (Some (send_requests rs c)) \<and>
    list_all (\<lambda>r. length (msg_payload r) = SOMEIP_METHOD_PAYLOAD_SIZE) rs"
proof -
  have "length (replicate SOMEIP_METHOD_PAYLOAD_SIZE 0 :: bytes) = SOMEIP_METHOD_PAYLOAD_SIZE" by simp
  from hit_requests_ok [OF assms(1) this assms(2)] show ?thesis
    by (auto simp: on_actuator_change_hits)
qed

theorem on_actuator_change_safe_witness:
  "\<exists>rs. on_actuator_change jv_json (\<lambda>_. []) [(''Vehicle.Target'', K_float 0x42F60000)]
      (act_config (act_node ''FLOAT'' 1 4)) (Some (new_SomeIPClient (act_config (act_node ''FLOAT'' 1 4)))) =
     Inr (Some (send_requests rs (new_SomeIPClient (act_config (act_node ''FLOAT'' 1 4)))))"
proof -
  have "list_all (\<lambda>(md, n, v). node_fits jv_json (\<lambda>_. []) n v)
      (hits [(''Vehicle.Target'', K_float 0x42F60000)] (VSSMap (act_config (act_node ''FLOAT'' 1 4))))"
    unfolding act_config_hits
    by (simp add: node_fits_def act_node_def getDataType_def SOMEIP_METHOD_PAYLOAD_SIZE_def)
  from on_actuator_change_safe [OF jv_json_converts this] show ?thesis by blast
qed

text \<open>
  Byte order of requests: the 16-bit elements of the array types are written most significant
  byte first, while a scalar 16-bit value is written least significant byte first (two bytes of
  length). An unsigned array element is written correctly only if it fits 16 bits.
\<close>

theorem actuator_byte_order:
  assumes "unat (byteOffset node) + 4 \<le> length buf" and "length buf \<le> 6" and "b < 2 ^ 16"
    and "unat (node_length node) = 2"
  shows "put_value so node INT16_ARRAY (K_int32_array (x # y # r)) buf =
      Inr (take (unat (byteOffset node)) buf @ rev (le_bytes 2 (ucast x :: u16)) @ rev (le_bytes 2 (ucast y :: u16)) @
           drop (unat (byteOffset node) + 4) buf) \<and>
    put_value so node UINT16_ARRAY (K_uint32_array (a # b # q)) buf =
      Inr (take (unat (byteOffset node)) buf @ ucast a # rev (le_bytes 2 (ucast b :: u16)) @
           drop (unat (byteOffset node) + 3) buf) \<and>
    put_value so node UINT16 (K_uint32 b) buf =
      Inr (take (unat (byteOffset node)) buf @ le_bytes 2 (ucast b :: u16) @ drop (unat (byteOffset node) + 2) buf)"
proof -
  have o: "unat (byteOffset node + 1) = unat (byteOffset node) + 1"
    "unat (byteOffset node + 2) = unat (byteOffset node) + 2"
    using unat_offset_small [of "byteOffset node"] assms(1,2) by simp_all
  have w: "take 2 (le_bytes 4 (rot16 b)) = rev (le_bytes 2 (ucast b :: u16))"
    by (rule le_bytes_rot16_wide [OF assms(3)])
  show ?thesis using assms(1,2,4) o w
    by (simp add: put_value_def values_at_def put_byte_Inr obj_copy_ok le_bytes_rot16 Let_def
        min_def drop_Cons' add.commute) (simp add: eval_nat_numeral)
qed

theorem actuator_byte_order_witness:
  "put_value (\<lambda>_. []) (act_node ''uint16'' 0 2) UINT16 (K_uint32 0x1234) [0, 0, 0, 0, 0, 0] =
     Inr [0x34, 0x12, 0, 0, 0, 0]"
proof -
  have l: "le_bytes 2 (0x1234 :: u16) = [0x34, 0x12]" by (simp add: le_bytes_2)
  have "unat (byteOffset (act_node ''uint16'' 0 2)) + 4 \<le> length [0, 0, 0, 0, 0, 0 :: u8]"
    and "length [0, 0, 0, 0, 0, 0 :: u8] \<le> 6" and "(0x1234 :: u32) < 2 ^ 16"
    and "unat (node_length (act_node ''uint16'' 0 2)) = 2" by (simp_all add: act_node_def)
  from actuator_byte_order [OF this] l show ?thesis by (simp add: act_node_def)
qed

end
