(* ===== verification/Broker_Feeder.thy ===== *)
theory Broker_Feeder
  imports Datapoint Collector_Client
begin

text \<open>
  The feeder \<^verbatim>\<open>lib/broker_feeder/data_broker_feeder\<close>: the queue of values, the
  registration and the feeding of the broker, and \<open>DataBrokerFeederImpl::Run\<close> as the thread
  it is.

  Containers. \<open>std::unordered_map\<close> and the protobuf maps are association lists with distinct
  keys; the list order stands for one iteration order, and the properties speak about
  \<open>map_of\<close> only.

  Threads. The state \<open>feeder\<close> holds the members of the class, the program point of the
  thread that executes \<open>Run\<close>, and what other threads are in the middle of: batches handed
  to \<open>FeedValue\<close>/\<open>FeedValues\<close> that have passed the test of \<open>feeder_active_\<close> and wait for
  the mutex (\<open>pending\<close>), calls of \<open>Shutdown\<close> before their critical section and before
  their notification. A step of \<open>run_step\<close> is one evaluation of a loop condition, one
  remote call or one critical section of the feeder thread; a step of \<open>call_step\<close> is one
  such part of a call by another thread, or the subscriber thread changing the connection flag
  of the client both share. A critical section is one step because the mutex makes it so. A
  notification moves a waiting feeder thread on; \<open>spurious_step\<close> is the wake-up without a
  notification that \<open>std::condition_variable\<close> allows.

  History variables that the code does not have record, for the statements, the newest value fed
  for a name since the last shutdown (\<open>latest\<close>), the requests made (\<open>registrations\<close> and
  \<open>updates\<close>), and of every batch whose update succeeded the values that the request carried
  under the identifier of their name (\<open>acked\<close>), those it did not carry because the broker had
  given no identifier for their name (\<open>unknown\<close>), and those it did not carry because another name
  of the batch has the same identifier (\<open>clashed\<close>).
\<close>

record DatapointMetadata =
  dm_name :: string
  dm_data_type :: DataType
  dm_change_type :: ChangeType
  dm_initial_value :: Datapoint
  dm_description :: string

type_synonym DatapointConfiguration = "DatapointMetadata list"
type_synonym DatapointValues = "(string \<times> Datapoint) list"
type_synonym DatapointId = i32
type_synonym id_table = "(string \<times> DatapointId) list"

record RegistrationMetadata =
  rm_name :: string
  rm_data_type :: DataType
  rm_description :: string
  rm_change_type :: ChangeType

section \<open>Sequential operations\<close>

definition storeValue :: "string \<Rightarrow> Datapoint \<Rightarrow> DatapointValues \<Rightarrow> DatapointValues" where
  "storeValue name v stored = AList.update name v stored"

definition storeValues :: "DatapointValues \<Rightarrow> DatapointValues \<Rightarrow> DatapointValues" where
  "storeValues values stored = fold (\<lambda>(name, v). storeValue name v) values stored"

text \<open>\<open>insert\<close> of the map containers keeps an entry that is already there.\<close>

definition map_insert :: "'k \<times> 'v \<Rightarrow> ('k \<times> 'v) list \<Rightarrow> ('k \<times> 'v) list" where
  "map_insert kv m = (if fst kv \<in> set (map fst m) then m else m @ [kv])"

definition restoreValues :: "DatapointValues \<Rightarrow> DatapointValues \<Rightarrow> DatapointValues" where
  "restoreValues values stored = fold map_insert values stored"

definition registration_request :: "DatapointConfiguration \<Rightarrow> RegistrationMetadata list" where
  "registration_request dp_config =
     map (\<lambda>m. \<lparr>rm_name = dm_name m, rm_data_type = dm_data_type m,
              rm_description = dm_description m, rm_change_type = dm_change_type m\<rparr>) dp_config"

text \<open>The result of the remote call and the identifiers of its reply are arguments.\<close>

definition registerDatapoints ::
  "grpc_status \<Rightarrow> id_table \<Rightarrow> DatapointConfiguration \<Rightarrow> id_table \<Rightarrow> CollectorClient
     \<Rightarrow> bool \<times> RegistrationMetadata list \<times> id_table \<times> CollectorClient" where
  "registerDatapoints st reply_ids dp_config id_map client =
     (let request = registration_request dp_config in
      if status_ok st then (True, request, reply_ids, client)
      else (False, request, id_map, snd (handleGrpcError st client)))"

text \<open>The same with the remote method: the context of the call carries the client's headers.\<close>

definition registerDatapoints_call ::
  "(RegistrationMetadata list, id_table) grpc_stub \<Rightarrow> DatapointConfiguration \<Rightarrow> id_table \<Rightarrow> CollectorClient
     \<Rightarrow> bool \<times> RegistrationMetadata list \<times> id_table \<times> CollectorClient" where
  "registerDatapoints_call stub dp_config id_map client =
     (let (st, reply_ids) = RegisterDatapoints stub (createClientContext client) (registration_request dp_config)
      in registerDatapoints st reply_ids dp_config id_map client)"

definition values_to_feed :: "bool \<Rightarrow> DatapointConfiguration \<Rightarrow> DatapointValues \<Rightarrow> DatapointValues" where
  "values_to_feed feed_initial_values dp_config stored =
     (if feed_initial_values
      then fold map_insert (map (\<lambda>m. (dm_name m, dm_initial_value m)) dp_config) stored
      else stored)"

definition update_request :: "id_table \<Rightarrow> DatapointValues \<Rightarrow> (DatapointId \<times> Datapoint) list" where
  "update_request id_map values =
     fold (\<lambda>(name, v) request.
             case map_of id_map name of
               Some i \<Rightarrow> AList.update i v request
             | None \<Rightarrow> request) values []"

text \<open>
  A request carries a value of the batch if it has it under the identifier of its name. The map of
  the request has one value per identifier, so of two names with one identifier it carries one.
\<close>

definition in_request :: "id_table \<Rightarrow> (DatapointId \<times> Datapoint) list \<Rightarrow> string \<times> Datapoint \<Rightarrow> bool" where
  "in_request ids request x =
     (case map_of ids (fst x) of None \<Rightarrow> False | Some i \<Rightarrow> map_of request i = Some (snd x))"

definition shares_id :: "id_table \<Rightarrow> DatapointValues \<Rightarrow> string \<Rightarrow> bool" where
  "shares_id ids values name =
     (map_of ids name \<noteq> None \<and> (\<exists>y \<in> set values. fst y \<noteq> name \<and> map_of ids (fst y) = map_of ids name))"

definition feedToBroker ::
  "grpc_status \<Rightarrow> id_table \<Rightarrow> DatapointValues \<Rightarrow> CollectorClient
     \<Rightarrow> bool \<times> (DatapointId \<times> Datapoint) list \<times> CollectorClient" where
  "feedToBroker st id_map values client =
     (let request = update_request id_map values in
      if status_ok st then (True, request, client)
      else (False, request, snd (handleGrpcError st client)))"

definition feedToBroker_call ::
  "((DatapointId \<times> Datapoint) list, 'errors) grpc_stub \<Rightarrow> id_table \<Rightarrow> DatapointValues \<Rightarrow> CollectorClient
     \<Rightarrow> bool \<times> (DatapointId \<times> Datapoint) list \<times> CollectorClient" where
  "feedToBroker_call stub id_map values client =
     (let (st, reply) = UpdateDatapoints stub (createClientContext client) (update_request id_map values)
      in feedToBroker st id_map values client)"

section \<open>The feeder object and its threads\<close>

datatype run_pc =
    Top
  | Connecting
  | Check_register
  | Registering
  | Backoff
  | Inner bool
  | Feeding bool
  | Sending DatapointValues
  | Restoring DatapointValues
  | Fed
  | Before_lock
  | Waiting
  | Done

record feeder =
  dp_config :: DatapointConfiguration
  stored_values :: DatapointValues
  id_map :: id_table
  feeder_active :: bool
  client :: CollectorClient
  pc :: run_pc
  pending :: "DatapointValues list"
  shutdown_entered :: nat
  shutdown_to_notify :: nat
  latest :: "string \<Rightarrow> Datapoint option"
  acked :: "(string \<times> Datapoint) set"
  unknown :: "(string \<times> Datapoint) set"
  clashed :: "(string \<times> Datapoint) set"
  registrations :: "RegistrationMetadata list list"
  updates :: "(DatapointId \<times> Datapoint) list list"

definition new_feeder :: "CollectorClient \<Rightarrow> DatapointConfiguration \<Rightarrow> feeder" where
  "new_feeder c config =
     \<lparr>dp_config = config, stored_values = [], id_map = [], feeder_active = True, client = c,
      pc = Top, pending = [], shutdown_entered = 0, shutdown_to_notify = 0,
      latest = Map.empty, acked = {}, unknown = {}, clashed = {}, registrations = [], updates = []\<rparr>"

text \<open>\<open>notify_all\<close>: the only thread that waits is the one in \<open>Run\<close>; it goes on to the
  condition of the inner loop.\<close>

definition notify_all :: "feeder \<Rightarrow> feeder" where
  "notify_all s = (if pc s = Waiting then s\<lparr>pc := Inner False\<rparr> else s)"

definition run_enabled :: "feeder \<Rightarrow> bool" where
  "run_enabled s = (feeder_active s \<and> Connected (client s))"

inductive run_step :: "feeder \<Rightarrow> feeder \<Rightarrow> bool" where
  top_enter: "pc s = Top \<Longrightarrow> feeder_active s \<Longrightarrow> run_step s (s\<lparr>pc := Connecting\<rparr>)"
| top_exit: "pc s = Top \<Longrightarrow> \<not> feeder_active s \<Longrightarrow> run_step s (s\<lparr>pc := Done\<rparr>)"
| connect: "pc s = Connecting \<Longrightarrow>
    run_step s (s\<lparr>client := snd (WaitForConnected b (client s)), pc := Check_register\<rparr>)"
| check_register: "pc s = Check_register \<Longrightarrow>
    run_step s (s\<lparr>pc := (if run_enabled s then Registering else Inner True)\<rparr>)"
| register: "pc s = Registering \<Longrightarrow>
    registerDatapoints st ids (dp_config s) (id_map s) (client s) = (ok, request, ids', c') \<Longrightarrow>
    run_step s (s\<lparr>id_map := ids', client := c', pc := (if ok then Inner True else Backoff),
                  registrations := registrations s @ [request]\<rparr>)"
| backoff: "pc s = Backoff \<Longrightarrow> run_step s (s\<lparr>pc := Top\<rparr>)"
| inner: "pc s = Inner i \<Longrightarrow> run_step s (s\<lparr>pc := (if run_enabled s then Feeding i else Top)\<rparr>)"
| take_values: "pc s = Feeding i \<Longrightarrow>
    run_step s (s\<lparr>stored_values := [], pc := Sending (values_to_feed i (dp_config s) (stored_values s))\<rparr>)"
| send: "pc s = Sending b \<Longrightarrow> feedToBroker st (id_map s) b (client s) = (ok, request, c') \<Longrightarrow>
    run_step s (s\<lparr>client := c', pc := (if ok then Fed else Restoring b), updates := updates s @ [request],
      acked := (if ok then acked s \<union> {x \<in> set b. in_request (id_map s) request x} else acked s),
      unknown := (if ok then unknown s \<union> {x \<in> set b. map_of (id_map s) (fst x) = None} else unknown s),
      clashed := (if ok then clashed s \<union> {x \<in> set b. \<not> in_request (id_map s) request x \<and>
        shares_id (id_map s) b (fst x)} else clashed s)\<rparr>)"
| restore: "pc s = Restoring b \<Longrightarrow>
    run_step s (s\<lparr>stored_values := restoreValues b (stored_values s), pc := Fed\<rparr>)"
| fed: "pc s = Fed \<Longrightarrow> run_step s (s\<lparr>pc := (if run_enabled s then Before_lock else Inner False)\<rparr>)"
| lock: "pc s = Before_lock \<Longrightarrow>
    run_step s (s\<lparr>pc := (if stored_values s = [] then Waiting else Inner False)\<rparr>)"

inductive call_step :: "feeder \<Rightarrow> feeder \<Rightarrow> bool" where
  feed_enter: "feeder_active s \<Longrightarrow> distinct (map fst values) \<Longrightarrow>
    call_step s (s\<lparr>pending := pending s @ [values]\<rparr>)"
| feed_locked: "pending s = xs @ values # ys \<Longrightarrow>
    call_step s (notify_all (s\<lparr>pending := xs @ ys, stored_values := storeValues values (stored_values s),
      latest := latest s ++ map_of values\<rparr>))"
| shutdown_enter: "feeder_active s \<Longrightarrow>
    call_step s (s\<lparr>shutdown_entered := shutdown_entered s + 1\<rparr>)"
| shutdown_locked: "0 < shutdown_entered s \<Longrightarrow>
    call_step s (s\<lparr>shutdown_entered := shutdown_entered s - 1,
      shutdown_to_notify := shutdown_to_notify s + 1,
      stored_values := [], feeder_active := False, latest := Map.empty\<rparr>)"
| shutdown_notify: "0 < shutdown_to_notify s \<Longrightarrow>
    call_step s (notify_all (s\<lparr>shutdown_to_notify := shutdown_to_notify s - 1\<rparr>))"
| other_wait: "call_step s (s\<lparr>client := snd (WaitForConnected b (client s))\<rparr>)"
| other_error: "call_step s (s\<lparr>client := snd (handleGrpcError st (client s))\<rparr>)"

definition spurious_step :: "feeder \<Rightarrow> feeder \<Rightarrow> bool" where
  "spurious_step s t = (pc s = Waiting \<and> t = s\<lparr>pc := Inner False\<rparr>)"

definition feeder_step :: "feeder \<Rightarrow> feeder \<Rightarrow> bool" where
  "feeder_step s t = (run_step s t \<or> call_step s t \<or> spurious_step s t)"

definition feeder_init :: "feeder \<Rightarrow> bool" where
  "feeder_init s = (\<exists>c config. s = new_feeder c config)"

section \<open>Calls as a whole\<close>

text \<open>A call of \<open>FeedValue\<close> or \<open>Shutdown\<close> that no other thread interrupts.\<close>

definition FeedValues :: "DatapointValues \<Rightarrow> feeder \<Rightarrow> feeder" where
  "FeedValues values s =
     (if feeder_active s
      then notify_all (s\<lparr>stored_values := storeValues values (stored_values s),
             latest := latest s ++ map_of values\<rparr>)
      else s)"

definition FeedValue :: "string \<Rightarrow> Datapoint \<Rightarrow> feeder \<Rightarrow> feeder" where
  "FeedValue name v s =
     (if feeder_active s
      then notify_all (s\<lparr>stored_values := storeValue name v (stored_values s),
             latest := (latest s)(name \<mapsto> v)\<rparr>)
      else s)"

definition feeder_Shutdown :: "feeder \<Rightarrow> feeder" where
  "feeder_Shutdown s =
     (if feeder_active s
      then notify_all (s\<lparr>stored_values := [], feeder_active := False, latest := Map.empty\<rparr>)
      else s)"

definition createInstance_feeder :: "CollectorClient \<Rightarrow> DatapointConfiguration \<Rightarrow> feeder" where
  [simp]: "createInstance_feeder c dpConfig = new_feeder c dpConfig"

definition destroy_feeder :: "feeder \<Rightarrow> feeder" where
  "destroy_feeder s = feeder_Shutdown s"

section \<open>Specification\<close>

definition in_flight :: "feeder \<Rightarrow> string \<Rightarrow> Datapoint option" where
  "in_flight s = (case pc s of Sending b \<Rightarrow> map_of b | Restoring b \<Rightarrow> map_of b | _ \<Rightarrow> Map.empty)"

abbreviation stored :: "feeder \<Rightarrow> string \<Rightarrow> Datapoint option" where
  "stored s \<equiv> map_of (stored_values s)"

abbreviation initial :: "feeder \<Rightarrow> string \<Rightarrow> Datapoint option" where
  "initial s \<equiv> map_of (map (\<lambda>m. (dm_name m, dm_initial_value m)) (dp_config s))"

definition pending_ok :: "feeder \<Rightarrow> bool" where
  "pending_ok s = list_all (\<lambda>values. distinct (map fst values)) (pending s)"

text \<open>The association lists that stand for maps have distinct keys.\<close>

definition keys_ok :: "feeder \<Rightarrow> bool" where
  "keys_ok s = (pending_ok s \<and> distinct (map fst (stored_values s)) \<and>
     (case pc s of Sending b \<Rightarrow> distinct (map fst b) | Restoring b \<Rightarrow> distinct (map fst b) | _ \<Rightarrow> True))"

definition no_loss :: "feeder \<Rightarrow> bool" where
  "no_loss s = (\<forall>n v. latest s n = Some v \<longrightarrow>
     stored s n = Some v \<or> (stored s n = None \<and> in_flight s n = Some v) \<or>
     (n, v) \<in> acked s \<union> unknown s \<union> clashed s)"

definition fresh :: "feeder \<Rightarrow> bool" where
  "fresh s = (feeder_active s \<longrightarrow>
     (\<forall>n v. stored s n = Some v \<longrightarrow> latest s n = Some v \<or> initial s n = Some v) \<and>
     (\<forall>n v. in_flight s n = Some v \<longrightarrow>
        stored s n \<noteq> None \<or> latest s n = Some v \<or> initial s n = Some v))"

definition feeder_inv :: "feeder \<Rightarrow> bool" where
  "feeder_inv s = (keys_ok s \<and> no_loss s \<and> fresh s)"

text \<open>How many steps of its own the feeder thread still needs after a shutdown.\<close>

fun rank :: "run_pc \<Rightarrow> nat" where
  "rank Done = 0"
| "rank Top = 1"
| "rank Backoff = 2"
| "rank (Inner _) = 2"
| "rank Check_register = 3"
| "rank Fed = 3"
| "rank Registering = 4"
| "rank Connecting = 4"
| "rank (Restoring _) = 4"
| "rank (Sending _) = 5"
| "rank (Feeding _) = 6"
| "rank Waiting = 7"
| "rank Before_lock = 8"

definition past_check :: "feeder \<Rightarrow> bool" where
  "past_check s = (pc s \<in> {Before_lock, Waiting})"

section \<open>Lemmas on the containers\<close>

lemma map_of_storeValue [simp]: "map_of (storeValue n v m) = (map_of m)(n \<mapsto> v)"
  by (simp add: storeValue_def update_conv')

lemma map_of_storeValues:
  "distinct (map fst vs) \<Longrightarrow> map_of (storeValues vs m) = map_of m ++ map_of vs"
proof (induction vs arbitrary: m)
  case (Cons x vs)
  obtain a b where [simp]: "x = (a, b)" by (cases x)
  from Cons.prems have none: "map_of vs a = None" by (simp add: map_of_eq_None_iff)
  have "map_of (storeValues (x # vs) m) = (map_of m)(a \<mapsto> b) ++ map_of vs"
    using Cons.IH [of "storeValue a b m"] Cons.prems by (simp add: storeValues_def fun_upd_def)
  also have "\<dots> = map_of m ++ map_of (x # vs)"
    using none by (auto simp: map_add_def fun_eq_iff split: option.split)
  finally show ?case .
qed (simp add: storeValues_def)

lemma map_of_map_insert: "map_of (map_insert kv m) = map_of [kv] ++ map_of m"
  by (cases kv) (auto simp: map_insert_def map_add_def fun_eq_iff weak_map_of_SomeI
      split: option.splits dest: map_of_SomeD)

lemma map_of_fold_insert: "map_of (fold map_insert vs m) = map_of vs ++ map_of m"
proof (induction vs arbitrary: m)
  case (Cons x vs)
  then show ?case by (cases x) (auto simp: map_of_map_insert fun_eq_iff map_add_def split: option.splits)
qed simp

lemma map_of_restoreValues [simp]: "map_of (restoreValues vs m) = map_of vs ++ map_of m"
  by (simp add: restoreValues_def map_of_fold_insert)

lemma map_of_values_to_feed:
  "map_of (values_to_feed i config m) =
    (if i then map_of (map (\<lambda>d. (dm_name d, dm_initial_value d)) config) ++ map_of m else map_of m)"
  by (simp add: values_to_feed_def map_of_fold_insert)

lemma map_of_update_request:
  assumes "distinct (map fst vs)" and "\<And>m n i. map_of ids m = Some i \<Longrightarrow> map_of ids n = Some i \<Longrightarrow> m = n"
  shows "map_of (update_request ids vs) i = Some v \<longleftrightarrow> (\<exists>n. map_of ids n = Some i \<and> map_of vs n = Some v)"
proof -
  let ?f = "\<lambda>(name, v) request. case map_of ids name of Some i \<Rightarrow> AList.update i v request | None \<Rightarrow> request"
  have "map_of (fold ?f vs acc) i = Some v \<longleftrightarrow>
      (\<exists>n. map_of ids n = Some i \<and> map_of vs n = Some v) \<or>
      (map_of acc i = Some v \<and> (\<forall>n. map_of ids n = Some i \<longrightarrow> map_of vs n = None))" for acc
    using assms(1)
  proof (induction vs arbitrary: acc)
    case (Cons x vs)
    obtain a b where [simp]: "x = (a, b)" by (cases x)
    from Cons.prems have none: "map_of vs a = None" by (simp add: map_of_eq_None_iff)
    note IH = Cons.IH [of _, OF Cons.prems [simplified, THEN conjunct2]]
    have other: "map_of (x # vs) n = map_of vs n" if "n \<noteq> a" for n using that by simp
    show ?case
    proof (cases "map_of ids a = Some i")
      case True
      then have u: "map_of ids n = Some i \<longleftrightarrow> n = a" for n using assms(2) by blast
      have step: "fold ?f (x # vs) acc = fold ?f vs (AList.update i b acc)" using True by simp
      have "map_of (AList.update i b acc) i = Some b" by (simp add: update_conv')
      then show ?thesis unfolding step using IH [of "AList.update i b acc"] by (simp add: u none)
    next
      case False
      then have na: "n \<noteq> a" if "map_of ids n = Some i" for n using that by blast
      have acc: "map_of (?f x acc) i = map_of acc i"
        using False by (auto simp: update_conv' split: option.split)
      have step: "fold ?f (x # vs) acc = fold ?f vs (?f x acc)" by simp
      have e: "map_of ids n = Some i \<Longrightarrow> map_of (x # vs) n = map_of vs n" for n
        by (rule other [OF na])
      have ex: "(\<exists>n. map_of ids n = Some i \<and> map_of (x # vs) n = Some v) \<longleftrightarrow>
          (\<exists>n. map_of ids n = Some i \<and> map_of vs n = Some v)"
        and all: "(\<forall>n. map_of ids n = Some i \<longrightarrow> map_of (x # vs) n = None) \<longleftrightarrow>
          (\<forall>n. map_of ids n = Some i \<longrightarrow> map_of vs n = None)"
        by (metis e)+
      show ?thesis unfolding step ex all IH acc ..
    qed
  qed simp
  from this [of "[]"] show ?thesis by (simp add: update_request_def)
qed

lemma update_request_other:
  "\<forall>y \<in> set vs. map_of ids (fst y) \<noteq> Some i \<Longrightarrow>
    map_of (fold (\<lambda>(name, v) request. case map_of ids name of Some i \<Rightarrow> AList.update i v request | None \<Rightarrow> request)
      vs acc) i = map_of acc i"
  by (induction vs arbitrary: acc) (auto simp: update_conv' split: option.splits)

text \<open>A value with an identifier is in the request unless another name has the same one.\<close>

lemma update_request_carries:
  assumes "distinct (map fst vs)" and "x \<in> set vs" and "map_of ids (fst x) \<noteq> None" and "\<not> shares_id ids vs (fst x)"
  shows "in_request ids (update_request ids vs) x"
proof -
  let ?f = "\<lambda>(name, v) request. case map_of ids name of Some i \<Rightarrow> AList.update i v request | None \<Rightarrow> request"
  obtain i where i: "map_of ids (fst x) = Some i" using assms(3) by blast
  obtain as bs where vs: "vs = as @ x # bs" using assms(2) by (auto dest: split_list)
  have "\<forall>y \<in> set bs. map_of ids (fst y) \<noteq> Some i"
  proof
    fix y assume y: "y \<in> set bs"
    then have "fst y \<in> fst ` set bs" by simp
    moreover have "fst x \<notin> fst ` set bs" using assms(1) by (simp add: vs)
    ultimately have "fst y \<noteq> fst x" by metis
    with y vs assms(4) i show "map_of ids (fst y) \<noteq> Some i" by (auto simp: shares_id_def)
  qed
  moreover have "fold ?f vs [] = fold ?f bs (?f x (fold ?f as []))" by (simp add: vs)
  ultimately have "map_of (fold ?f vs []) i = map_of (?f x (fold ?f as [])) i"
    using update_request_other [of bs ids i] by simp
  also have "\<dots> = Some (snd x)" using i by (cases x) (simp add: update_conv')
  finally show ?thesis using i by (simp add: in_request_def update_request_def)
qed

lemma batch_accounted:
  assumes "distinct (map fst b)" and "feedToBroker st ids b c = (ok, request, c')"
  shows "set b = {x \<in> set b. in_request ids request x} \<union> {x \<in> set b. map_of ids (fst x) = None} \<union>
    {x \<in> set b. \<not> in_request ids request x \<and> shares_id ids b (fst x)}"
proof -
  have "request = update_request ids b" using assms(2) by (auto simp: feedToBroker_def Let_def split: if_splits)
  then have "in_request ids request x \<or> map_of ids (fst x) = None \<or> shares_id ids b (fst x)" if "x \<in> set b" for x
    using update_request_carries [OF assms(1) that] by blast
  then show ?thesis by blast
qed

lemma distinct_storeValues: "distinct (map fst m) \<Longrightarrow> distinct (map fst (storeValues vs m))"
  unfolding storeValues_def
  by (induction vs arbitrary: m) (auto simp: storeValue_def distinct_update)

lemma distinct_map_insert: "distinct (map fst m) \<Longrightarrow> distinct (map fst (map_insert kv m))"
  by (simp add: map_insert_def)

lemma distinct_fold_insert: "distinct (map fst m) \<Longrightarrow> distinct (map fst (fold map_insert vs m))"
  by (induction vs arbitrary: m) (simp_all add: distinct_map_insert)

lemma in_flight_simps [simp]:
  "pc s = Sending b \<Longrightarrow> in_flight s = map_of b"
  "pc s = Restoring b \<Longrightarrow> in_flight s = map_of b"
  "pc s \<in> {Top, Connecting, Check_register, Registering, Backoff, Inner i, Feeding i, Fed, Before_lock,
     Waiting, Done} \<Longrightarrow> in_flight s = Map.empty"
  by (auto simp: in_flight_def)

section \<open>The invariant\<close>

lemma run_step_keys: "run_step s t \<Longrightarrow> keys_ok s \<Longrightarrow> keys_ok t"
  by (induction rule: run_step.induct)
     (auto simp: keys_ok_def pending_ok_def restoreValues_def values_to_feed_def distinct_fold_insert)

lemma call_step_keys: "call_step s t \<Longrightarrow> keys_ok s \<Longrightarrow> keys_ok t"
  by (induction rule: call_step.induct)
     (auto simp: keys_ok_def pending_ok_def notify_all_def distinct_storeValues split: run_pc.splits)

interpretation fk: invariant_system feeder_init feeder_step keys_ok
proof unfold_locales
  show "keys_ok s" if "feeder_init s" for s
    using that by (auto simp: feeder_init_def new_feeder_def keys_ok_def pending_ok_def)
  show "keys_ok t" if "keys_ok s" "feeder_step s t" for s t
    using that run_step_keys call_step_keys by (auto simp: feeder_step_def spurious_step_def keys_ok_def pending_ok_def)
qed

lemma run_step_no_loss: "run_step s t \<Longrightarrow> keys_ok s \<Longrightarrow> no_loss s \<Longrightarrow> no_loss t"
proof (induction rule: run_step.induct)
  case (take_values s i)
  then show ?case
    by (fastforce simp: no_loss_def in_flight_def map_of_values_to_feed map_add_Some_iff)
next
  case (send s b st ok request c')
  then have "set b \<subseteq> {x \<in> set b. in_request (id_map s) request x} \<union> {x \<in> set b. map_of (id_map s) (fst x) = None} \<union>
      {x \<in> set b. \<not> in_request (id_map s) request x \<and> shares_id (id_map s) b (fst x)}"
    using batch_accounted [of b st "id_map s" "client s" ok request c'] by (simp add: keys_ok_def)
  with send(1,4) show ?case
    by (cases ok) (fastforce simp: no_loss_def in_flight_def dest: map_of_SomeD)+
next
  case (restore s b)
  then show ?case
    by (fastforce simp: no_loss_def in_flight_def map_add_Some_iff)
next
  case (lock s)
  then show ?case by (fastforce simp: no_loss_def in_flight_def)
qed (auto simp: no_loss_def in_flight_def)

lemma run_step_fresh: "run_step s t \<Longrightarrow> fresh s \<Longrightarrow> fresh t"
proof (induction rule: run_step.induct)
  case (take_values s i)
  then show ?case
    by (auto simp: fresh_def in_flight_def map_of_values_to_feed map_add_Some_iff)
next
  case (restore s b)
  then show ?case
    by (fastforce simp: fresh_def in_flight_def map_add_Some_iff)
qed (auto simp: fresh_def in_flight_def)

lemma notify_all_frame [simp]:
  "stored_values (notify_all s) = stored_values s" "latest (notify_all s) = latest s"
  "acked (notify_all s) = acked s" "unknown (notify_all s) = unknown s" "clashed (notify_all s) = clashed s" "feeder_active (notify_all s) = feeder_active s"
  "pending (notify_all s) = pending s" "dp_config (notify_all s) = dp_config s"
  "id_map (notify_all s) = id_map s" "client (notify_all s) = client s"
  "in_flight (notify_all s) = in_flight s"
  by (auto simp: notify_all_def in_flight_def)

lemma call_step_values:
  "call_step s t \<Longrightarrow> keys_ok s \<Longrightarrow> no_loss s \<Longrightarrow> fresh s \<Longrightarrow> no_loss t \<and> fresh t"
proof (induction rule: call_step.induct)
  case (feed_locked s xs vals ys)
  then have d: "distinct (map fst vals)" by (simp add: keys_ok_def pending_ok_def)
  let ?t = "s\<lparr>pending := xs @ ys, stored_values := storeValues vals (stored_values s),
      latest := latest s ++ map_of vals\<rparr>"
  have i: "in_flight ?t = in_flight s" by (simp add: in_flight_def)
  have "no_loss ?t" using feed_locked.prems(2)
    by (auto simp: no_loss_def i map_of_storeValues [OF d] map_add_Some_iff map_add_None)
  moreover have "fresh ?t" using feed_locked.prems(3)
    by (fastforce simp: fresh_def i map_of_storeValues [OF d] map_add_Some_iff)
  ultimately show ?case by (simp add: no_loss_def fresh_def)
next
  case (shutdown_notify s)
  have "in_flight (s\<lparr>shutdown_to_notify := k\<rparr>) = in_flight s" for k by (simp add: in_flight_def)
  with shutdown_notify show ?case by (simp add: no_loss_def fresh_def)
qed (auto simp: no_loss_def fresh_def in_flight_def)

lemma spurious_step_values: "spurious_step s t \<Longrightarrow> no_loss s \<Longrightarrow> fresh s \<Longrightarrow> no_loss t \<and> fresh t"
  by (auto simp: spurious_step_def no_loss_def fresh_def in_flight_def)

interpretation fd: invariant_system feeder_init feeder_step feeder_inv
proof unfold_locales
  show "feeder_inv s" if "feeder_init s" for s
    using that fk.inv_init [OF that]
    by (auto simp: feeder_init_def new_feeder_def feeder_inv_def no_loss_def fresh_def in_flight_def)
  show "feeder_inv t" if "feeder_inv s" "feeder_step s t" for s t
    using that fk.inv_step [of s t] run_step_no_loss run_step_fresh call_step_values spurious_step_values
    unfolding feeder_inv_def feeder_step_def by blast
qed

section \<open>Shutdown\<close>

lemma run_step_inactive:
  assumes "run_step s t" and "\<not> feeder_active s" and "pc s \<noteq> Before_lock"
  shows "\<not> feeder_active t \<and> \<not> past_check t \<and> rank (pc t) < rank (pc s)"
  using assms by (induction rule: run_step.induct) (auto simp: past_check_def run_enabled_def)

lemma call_step_inactive:
  assumes "call_step s t" and "\<not> feeder_active s" and "\<not> past_check s"
  shows "\<not> feeder_active t \<and> pc t = pc s"
  using assms by (induction rule: call_step.induct) (auto simp: past_check_def notify_all_def)

lemma run_step_progress: "pc s \<noteq> Done \<Longrightarrow> pc s \<noteq> Waiting \<Longrightarrow> \<exists>t. run_step s t"
proof (cases "pc s")
  case Top
  then show ?thesis using top_enter top_exit by (cases "feeder_active s") blast+
next
  case Registering
  then show ?thesis
    using register [of s GRPC_STATUS_OK "[]"] by (auto simp: registerDatapoints_def status_ok_def Let_def)
next
  case (Sending b)
  then show ?thesis using send [of s b GRPC_STATUS_OK] by (auto simp: feedToBroker_def status_ok_def Let_def)
qed (blast intro: run_step.intros)+

text \<open>The feeder thread after a shutdown that it cannot miss.\<close>

definition winding_down :: "feeder \<Rightarrow> bool" where
  "winding_down s = (\<not> feeder_active s \<and> \<not> past_check s)"

interpretation wd: terminating_system run_step winding_down "\<lambda>s. pc s = Done" "\<lambda>s. rank (pc s)" less_than
proof unfold_locales
  show "\<exists>t. run_step s t" if "winding_down s" "pc s \<noteq> Done" for s
    using that by (intro run_step_progress) (auto simp: winding_down_def past_check_def)
qed (auto simp: winding_down_def past_check_def dest!: run_step_inactive)

lemma winding_down_steps: "feeder_step\<^sup>*\<^sup>* s t \<Longrightarrow> winding_down s \<Longrightarrow> winding_down t"
proof (induction rule: rtranclp_induct)
  case (step t u)
  then show ?case using wd.good_step [of t u] call_step_inactive [of t u]
    by (auto simp: feeder_step_def spurious_step_def winding_down_def past_check_def)
qed

text \<open>A call of \<open>Shutdown\<close> that no other thread interrupts wakes the thread if it waits.\<close>

lemma Shutdown_winding_down:
  "feeder_active s \<Longrightarrow> pc s \<noteq> Before_lock \<Longrightarrow> winding_down (feeder_Shutdown s)"
  by (simp add: winding_down_def past_check_def feeder_Shutdown_def notify_all_def)

lemma feeder_Shutdown_steps:
  assumes "feeder_active s"
  shows "call_step\<^sup>*\<^sup>* s (feeder_Shutdown s)"
proof -
  let ?e = "s\<lparr>shutdown_entered := shutdown_entered s + 1\<rparr>"
  let ?l = "s\<lparr>shutdown_to_notify := shutdown_to_notify s + 1, stored_values := [], feeder_active := False,
      latest := Map.empty\<rparr>"
  have "call_step s ?e" by (rule shutdown_enter [OF assms])
  moreover have "call_step ?e ?l" using shutdown_locked [of ?e] by simp
  moreover have "call_step ?l (feeder_Shutdown s)"
    using shutdown_notify [of ?l] assms by (simp add: feeder_Shutdown_def)
  ultimately show ?thesis by (meson converse_rtranclp_into_rtranclp r_into_rtranclp)
qed

lemma feeder_Shutdown_again [simp]: "destroy_feeder (feeder_Shutdown s) = feeder_Shutdown s"
  by (simp add: destroy_feeder_def feeder_Shutdown_def [of "feeder_Shutdown s"]) (simp add: feeder_Shutdown_def)

text \<open>A thread that waits after a shutdown has been completed is not woken by any call.\<close>

definition stuck :: "feeder \<Rightarrow> bool" where
  "stuck s = (pc s = Waiting \<and> \<not> feeder_active s \<and> pending s = [] \<and> shutdown_entered s = 0 \<and>
     shutdown_to_notify s = 0)"

lemma stuck_step: "stuck s \<Longrightarrow> run_step s t \<or> call_step s t \<Longrightarrow> stuck t"
  by (auto simp: stuck_def elim!: run_step.cases call_step.cases)

lemma stuck_forever:
  assumes "(\<lambda>s t. run_step s t \<or> call_step s t)\<^sup>*\<^sup>* s t" and "stuck s"
  shows "stuck t"
  using assms by (induction rule: rtranclp_induct) (auto dest: stuck_step)

text \<open>A feeder with nothing to feed, at a given point of \<open>Run\<close>.\<close>

definition idle :: "CollectorClient \<Rightarrow> run_pc \<Rightarrow> feeder" where
  "idle c p = (new_feeder c [])\<lparr>pc := p,
     registrations := (if p \<in> {Top, Connecting, Check_register, Registering} then [] else [[]]),
     updates := (if p \<in> {Fed, Before_lock} then [[]] else [])\<rparr>"

lemma idle_run:
  assumes "Connected c" and "snd (WaitForConnected True c) = c"
  shows "run_step\<^sup>*\<^sup>* (idle c Top) (idle c Before_lock)"
proof -
  have e: "run_enabled (idle c p)" for p using assms by (simp add: idle_def run_enabled_def new_feeder_def)
  have ok: "status_ok GRPC_STATUS_OK" by (simp add: status_ok_def)
  note d = idle_def new_feeder_def
  have "run_step (idle c Top) (idle c Connecting)"
    using top_enter [of "idle c Top"] by (simp add: d)
  moreover have "run_step (idle c Connecting) (idle c Check_register)"
    using connect [of "idle c Connecting" True] assms by (simp add: d)
  moreover have "run_step (idle c Check_register) (idle c Registering)"
    using check_register [of "idle c Check_register"] e [of Check_register] by (simp add: d)
  moreover have "run_step (idle c Registering) (idle c (Inner True))"
    using register [of "idle c Registering" GRPC_STATUS_OK "[]"] ok by (simp add: d registerDatapoints_def registration_request_def)
  moreover have "run_step (idle c (Inner True)) (idle c (Feeding True))"
    using inner [of "idle c (Inner True)"] e [of "Inner True"] by (simp add: d)
  moreover have "run_step (idle c (Feeding True)) (idle c (Sending []))"
    using take_values [of "idle c (Feeding True)"] by (simp add: d values_to_feed_def)
  moreover have "run_step (idle c (Sending [])) (idle c Fed)"
    using send [of "idle c (Sending [])" "[]" GRPC_STATUS_OK] ok by (simp add: d feedToBroker_def update_request_def)
  moreover have "run_step (idle c Fed) (idle c Before_lock)"
    using fed [of "idle c Fed"] e [of Fed] by (simp add: d)
  ultimately show ?thesis by (meson converse_rtranclp_into_rtranclp rtranclp.rtrancl_refl)
qed

lemma idle_reach:
  assumes "Connected c" and "snd (WaitForConnected True c) = c"
  shows "reach feeder_init feeder_step (idle c Before_lock)"
proof -
  have "reach feeder_init feeder_step (idle c Top)"
    by (rule reach_init) (auto simp: feeder_init_def idle_def new_feeder_def)
  moreover have "feeder_step\<^sup>*\<^sup>* (idle c Top) (idle c Before_lock)"
    using idle_run [OF assms] by (rule rtranclp_into) (simp add: feeder_step_def)
  ultimately show ?thesis by (meson reach_steps)
qed

section \<open>What the callers of the feeder rely on\<close>

locale value_sink =
  fixes feed :: "string \<Rightarrow> Datapoint \<Rightarrow> 's \<Rightarrow> 's"
    and value_of :: "'s \<Rightarrow> string \<Rightarrow> Datapoint option"
    and is_open :: "'s \<Rightarrow> bool"
  assumes feed_value: "is_open s \<Longrightarrow> value_of (feed n v s) = (value_of s)(n \<mapsto> v)"
    and feed_closed: "\<not> is_open s \<Longrightarrow> feed n v s = s"
    and feed_keeps_open: "is_open (feed n v s) = is_open s"
begin

lemma feed_all_open: "is_open (fold (\<lambda>(n, v). feed n v) xs s) = is_open s"
proof (induction xs arbitrary: s)
  case (Cons x xs)
  then show ?case by (cases x) (simp add: feed_keeps_open)
qed simp

text \<open>After a sequence of calls the newest value of every name is the one that is kept.\<close>

lemma feed_all_value:
  "is_open s \<Longrightarrow> value_of (fold (\<lambda>(n, v). feed n v) xs s) = value_of s ++ map_of (rev xs)"
proof (induction xs arbitrary: s)
  case (Cons x xs)
  obtain n v where [simp]: "x = (n, v)" by (cases x)
  have "value_of (fold (\<lambda>(n, v). feed n v) (x # xs) s) = value_of (feed n v s) ++ map_of (rev xs)"
    using Cons.IH [of "feed n v s"] Cons.prems by (simp add: feed_keeps_open)
  also have "\<dots> = (value_of s)(n \<mapsto> v) ++ map_of (rev xs)"
    by (simp only: feed_value [OF Cons.prems])
  finally show ?case by simp
qed simp

lemma feed_all_closed: "\<not> is_open s \<Longrightarrow> fold (\<lambda>(n, v). feed n v) xs s = s"
proof (induction xs)
  case (Cons x xs)
  then show ?case by (cases x) (simp add: feed_closed)
qed simp

end

interpretation fs: value_sink FeedValue stored feeder_active
  by unfold_locales (auto simp: FeedValue_def fun_upd_def)

lemma FeedValue_steps:
  "feeder_active s \<Longrightarrow> call_step\<^sup>*\<^sup>* s (FeedValue n v s)"
proof -
  assume a: "feeder_active s"
  let ?m = "s\<lparr>pending := pending s @ [[(n, v)]]\<rparr>"
  have 1: "call_step s ?m" using a by (rule feed_enter) simp
  have "call_step ?m (notify_all (?m\<lparr>pending := pending s @ [],
      stored_values := storeValues [(n, v)] (stored_values ?m), latest := latest ?m ++ map_of [(n, v)]\<rparr>))"
    by (rule feed_locked) simp
  then have 2: "call_step ?m (FeedValue n v s)"
    using a by (simp add: FeedValue_def storeValues_def)
  from 1 2 show ?thesis by (meson converse_rtranclp_into_rtranclp r_into_rtranclp)
qed

section \<open>Properties\<close>

text \<open>
  C9. No value is lost while the feeder is in service: whatever interleaving of the feeder
  thread, of callers of \<open>FeedValue\<close>, \<open>FeedValues\<close> and \<open>Shutdown\<close>, of failing remote calls
  and of reconnections has happened, the newest value fed for a name since the last shutdown is
  queued, or is part of the batch being sent with nothing newer queued, or was carried by a request
  that the broker accepted, under the identifier of its name, or was left out of one because the
  broker had given no identifier for its name or the same one for another name of the batch.
\<close>

theorem feeder_no_lost_update:
  assumes "reach feeder_init feeder_step s" and "latest s n = Some v"
  shows "map_of (stored_values s) n = Some v \<or>
    (map_of (stored_values s) n = None \<and> in_flight s n = Some v) \<or> (n, v) \<in> acked s \<union> unknown s \<union> clashed s"
  using fd.reach_inv [OF assms(1)] assms(2) by (auto simp: feeder_inv_def no_loss_def)

definition fed_example :: "string \<Rightarrow> Datapoint \<Rightarrow> feeder" where
  "fed_example n v = FeedValue n v (new_feeder (new_CollectorClient Map.empty ''localhost:55555'' []) [])"

lemma fed_example_reach: "reach feeder_init feeder_step (fed_example n v)"
proof -
  let ?s = "new_feeder (new_CollectorClient Map.empty ''localhost:55555'' []) []"
  have "reach feeder_init feeder_step ?s" by (rule reach_init) (auto simp: feeder_init_def)
  moreover have "call_step\<^sup>*\<^sup>* ?s (fed_example n v)"
    unfolding fed_example_def by (rule FeedValue_steps) (simp add: new_feeder_def)
  then have "feeder_step\<^sup>*\<^sup>* ?s (fed_example n v)"
    by (rule rtranclp_into) (simp add: feeder_step_def)
  ultimately show ?thesis by (meson reach_steps)
qed

theorem feeder_no_lost_update_witness:
  "map_of (stored_values (fed_example ''Vehicle.Speed'' createInvalidValue)) ''Vehicle.Speed'' =
    Some createInvalidValue"
proof -
  have "latest (fed_example ''Vehicle.Speed'' createInvalidValue) ''Vehicle.Speed'' = Some createInvalidValue"
    and "in_flight (fed_example ''Vehicle.Speed'' createInvalidValue) = Map.empty"
    and "acked (fed_example ''Vehicle.Speed'' createInvalidValue) = {}"
    and "unknown (fed_example ''Vehicle.Speed'' createInvalidValue) = {}"
    and "clashed (fed_example ''Vehicle.Speed'' createInvalidValue) = {}"
    by (simp_all add: fed_example_def FeedValue_def new_feeder_def notify_all_def in_flight_def)
  with feeder_no_lost_update [OF fed_example_reach, of "''Vehicle.Speed''" createInvalidValue]
  show ?thesis by simp
qed

text \<open>
  What an update request holds: if the broker's identifiers are distinct for distinct names,
  the request assigns to an identifier exactly the value the batch has for the name with that
  identifier; values whose name has none are left out, silently for the caller. Initial values
  are part of the first batch of a connection only where no value was queued.
\<close>

theorem update_request_entries:
  assumes "distinct (map fst vs)" and "\<And>m n i. map_of ids m = Some i \<Longrightarrow> map_of ids n = Some i \<Longrightarrow> m = n"
  shows "(map_of (update_request ids vs) i = Some v \<longleftrightarrow> (\<exists>n. map_of ids n = Some i \<and> map_of vs n = Some v)) \<and>
    map_of (values_to_feed True config vs) =
      map_of (map (\<lambda>m. (dm_name m, dm_initial_value m)) config) ++ map_of vs"
  using map_of_update_request [OF assms] by (simp add: map_of_values_to_feed)

theorem update_request_entries_witness:
  "map_of (update_request [(''A'', 1), (''B'', 2)] [(''B'', createInvalidValue), (''C'', createInvalidValue)]) 2 =
    Some createInvalidValue"
proof -
  let ?ids = "[(''A'', 1), (''B'', 2)] :: id_table"
  let ?vs = "[(''B'', createInvalidValue), (''C'', createInvalidValue)]"
  have n: "map_of ?ids ''B'' = Some 2" "map_of ?vs ''B'' = Some createInvalidValue" by simp_all
  have "map_of (update_request ?ids ?vs) 2 = Some createInvalidValue \<longleftrightarrow>
      (\<exists>n. map_of ?ids n = Some 2 \<and> map_of ?vs n = Some createInvalidValue)"
    by (rule update_request_entries [THEN conjunct1]) (auto split: if_splits)
  with n show ?thesis by blast
qed

text \<open>
  C13. What is sent is never stale: in every reachable state of a feeder in service, a value in
  an update being sent, or being put back after a failure, is the newest value fed for its name
  or the initial value of its data point, or a newer value is queued behind it; and a queued
  value is the newest or an initial one.
\<close>

theorem feeder_sends_fresh:
  assumes "reach feeder_init feeder_step s" and "feeder_active s"
  shows "(in_flight s n = Some v \<longrightarrow> map_of (stored_values s) n \<noteq> None \<or> latest s n = Some v \<or>
      (n, v) \<in> set (map (\<lambda>m. (dm_name m, dm_initial_value m)) (dp_config s))) \<and>
    (map_of (stored_values s) n = Some v \<longrightarrow> latest s n = Some v \<or>
      (n, v) \<in> set (map (\<lambda>m. (dm_name m, dm_initial_value m)) (dp_config s)))"
  using fd.reach_inv [OF assms(1)] assms(2) map_of_SomeD
  unfolding feeder_inv_def fresh_def by metis

theorem feeder_sends_fresh_witness:
  "feeder_active (fed_example ''N'' createInvalidValue) \<and>
   latest (fed_example ''N'' createInvalidValue) ''N'' = Some createInvalidValue"
proof -
  have a: "feeder_active (fed_example ''N'' createInvalidValue)"
    by (simp add: fed_example_def FeedValue_def new_feeder_def)
  have st: "map_of (stored_values (fed_example ''N'' createInvalidValue)) ''N'' = Some createInvalidValue"
    and cf: "dp_config (fed_example ''N'' createInvalidValue) = []"
    by (simp_all add: fed_example_def FeedValue_def new_feeder_def)
  show ?thesis
    using feeder_sends_fresh [OF fed_example_reach a, of "''N''" createInvalidValue] a st cf by simp
qed

text \<open>
  C17. A call of \<open>Shutdown\<close> ends the feeder thread: whatever the thread was doing, waiting included,
  unless it is between the last test of the flag and its wait, in every state that any steps of the
  thread and of its callers lead to from there the feeder is inactive and the thread does not wait;
  every step of the thread brings it closer to the end of \<open>Run\<close>, the steps of others do not move
  it, and it can step until it has returned.
\<close>

theorem feeder_shutdown_terminates:
  assumes "feeder_active s" and "pc s \<noteq> Before_lock"
  shows "call_step\<^sup>*\<^sup>* s (feeder_Shutdown s) \<and>
    (\<exists>t. run_step\<^sup>*\<^sup>* (feeder_Shutdown s) t \<and> pc t = Done) \<and>
    (\<forall>t. feeder_step\<^sup>*\<^sup>* (feeder_Shutdown s) t \<longrightarrow>
       \<not> feeder_active t \<and> pc t \<noteq> Waiting \<and>
       (\<forall>u. run_step t u \<longrightarrow> rank (pc u) < rank (pc t)) \<and> (\<forall>u. call_step t u \<longrightarrow> pc u = pc t) \<and>
       (pc t = Done \<or> (\<exists>u. run_step t u)))"
proof (intro conjI allI impI)
  have w: "winding_down (feeder_Shutdown s)" by (rule Shutdown_winding_down [OF assms])
  show "call_step\<^sup>*\<^sup>* s (feeder_Shutdown s)" by (rule feeder_Shutdown_steps [OF assms(1)])
  show "\<exists>t. run_step\<^sup>*\<^sup>* (feeder_Shutdown s) t \<and> pc t = Done" using wd.returns [OF w] by blast
  fix t assume "feeder_step\<^sup>*\<^sup>* (feeder_Shutdown s) t"
  then have t: "winding_down t" using w by (rule winding_down_steps)
  then show "\<not> feeder_active t" "pc t \<noteq> Waiting" by (auto simp: winding_down_def past_check_def)
  show "pc t = Done \<or> (\<exists>u. run_step t u)" using wd.progress [OF t] by blast
  show "rank (pc u) < rank (pc t)" if "run_step t u" for u using wd.rank_step [OF t that] by simp
  show "pc u = pc t" if "call_step t u" for u
    using call_step_inactive [OF that] t by (simp add: winding_down_def)
qed

theorem feeder_shutdown_terminates_witness:
  "\<exists>t. run_step\<^sup>*\<^sup>* (feeder_Shutdown ((fed_example ''N'' createInvalidValue)\<lparr>pc := Waiting\<rparr>)) t \<and> pc t = Done"
proof -
  have "feeder_active ((fed_example ''N'' createInvalidValue)\<lparr>pc := Waiting\<rparr>)"
    and "pc ((fed_example ''N'' createInvalidValue)\<lparr>pc := Waiting\<rparr>) \<noteq> Before_lock"
    by (simp_all add: fed_example_def FeedValue_def new_feeder_def)
  from feeder_shutdown_terminates [OF this] show ?thesis by blast
qed

text \<open>
  C38. The exception is real: there is a run of the feeder thread and a single call of
  \<open>Shutdown\<close> that leaves the thread waiting for ever. The thread tests the flag, the call
  clears it and notifies, and only then the thread takes the mutex, finds the queue empty and
  waits without testing the flag again; no later call of any thread, \<open>Shutdown\<close> included,
  wakes it, so joining it does not return.
\<close>

theorem feeder_shutdown_can_hang:
  "\<exists>s. reach feeder_init feeder_step s \<and> pc s = Waiting \<and> \<not> feeder_active s \<and>
    {t. (\<lambda>a b. run_step a b \<or> call_step a b)\<^sup>*\<^sup>* s t} \<subseteq> {t. pc t = Waiting \<and> \<not> feeder_active t}"
proof -
  define c where "c = snd (WaitForConnected True (new_CollectorClient Map.empty [] []))"
  have up: "Connected c" by (simp add: c_def cc.wait_up)
  have w: "snd (WaitForConnected True c) = c" by (simp add: c_def WaitForConnected_def)
  let ?b = "idle c Before_lock"
  let ?h = "?b\<lparr>feeder_active := False, pc := Waiting\<rparr>"
  have "call_step ?b (?b\<lparr>shutdown_entered := 1\<rparr>)"
    using shutdown_enter [of ?b] by (simp add: idle_def new_feeder_def)
  moreover have "call_step (?b\<lparr>shutdown_entered := 1\<rparr>) (?b\<lparr>shutdown_to_notify := 1, feeder_active := False\<rparr>)"
    using shutdown_locked [of "?b\<lparr>shutdown_entered := 1\<rparr>"] by (simp add: idle_def new_feeder_def)
  moreover have "call_step (?b\<lparr>shutdown_to_notify := 1, feeder_active := False\<rparr>) (?b\<lparr>feeder_active := False\<rparr>)"
    using shutdown_notify [of "?b\<lparr>shutdown_to_notify := 1, feeder_active := False\<rparr>"]
    by (simp add: idle_def new_feeder_def notify_all_def)
  moreover have "run_step (?b\<lparr>feeder_active := False\<rparr>) ?h"
    using lock [of "?b\<lparr>feeder_active := False\<rparr>"] by (simp add: idle_def new_feeder_def)
  ultimately have "reach feeder_init feeder_step ?h"
    using idle_reach [OF up w] by (meson feeder_step_def reach_step)
  moreover have st: "stuck ?h" by (simp add: stuck_def idle_def new_feeder_def)
  moreover have "{t. (\<lambda>a b. run_step a b \<or> call_step a b)\<^sup>*\<^sup>* ?h t} \<subseteq> {t. pc t = Waiting \<and> \<not> feeder_active t}"
    using stuck_forever [OF _ st] by (auto simp: stuck_def)
  ultimately show ?thesis unfolding stuck_def by blast
qed

end
