(* ===== verification/Adapter_Someip.thy ===== *)
theory Adapter_Someip
  imports Adapter_Codec Someip_Client Broker_Feeder
begin

text \<open>
  From SOME/IP to the data broker: \<open>SomeipFeederAdapter::on_someip_message\<close>.

  The payload is read without looking at its length: every read is checked in the model and a
  read outside is the outcome \<open>OOB_read\<close>. The local \<open>value\<close> lives across the loops, as in
  the code. \<open>tmpValue\<close> is the \<open>int\<close> by which a transformation is looked up.

  Values are fed through \<open>FeedValue\<close>; what the handler relies on of the feeder is the locale
  \<open>value_sink\<close>, interpreted in the theory of the feeder.
\<close>

section \<open>Decoding one node\<close>

definition read_u16 :: "bytes \<Rightarrow> u64 \<Rightarrow> cpp_error + u16" where
  "read_u16 payload off =
     ebind (buf_read payload (unat (off + 1))) (\<lambda>lo.
     ebind (buf_read payload (unat off)) (\<lambda>hi.
       Inr (or (ucast lo) (push_bit 8 (ucast hi)))))"

text \<open>The switch: the new \<open>tmpValue\<close>, \<open>value\<close> and \<open>feed_value\<close>.\<close>

definition decode_type ::
  "'j VSSNode \<Rightarrow> DataType \<Rightarrow> bytes \<Rightarrow> Datapoint \<Rightarrow> cpp_error + (int \<times> Datapoint \<times> bool)" where
  "decode_type node ty payload v =
     (let off = byteOffset node in
      case ty of
        BOOL \<Rightarrow> ebind (buf_read payload (unat off)) (\<lambda>b.
          Inr (uint b, createDatapoint_bool (b \<noteq> 0), True))
      | UINT8 \<Rightarrow> ebind (buf_read payload (unat off)) (\<lambda>b.
          Inr (uint b, createDatapoint_uint32 (ucast b), True))
      | UINT16 \<Rightarrow> ebind (read_u16 payload off) (\<lambda>w.
          Inr (uint w, createDatapoint_uint32 (ucast w), True))
      | INT16 \<Rightarrow> ebind (read_u16 payload off) (\<lambda>w.
          Inr (sint w, createDatapoint_int32 (scast w), True))
      | INT8 \<Rightarrow> ebind (buf_read payload (unat off)) (\<lambda>b.
          Inr (sint b, createDatapoint_int32 (scast b), True))
      | UINT32 \<Rightarrow> ebind (buf_slice payload (unat off) 4) (\<lambda>bs.
          let unsignedintvalue = le_word bs :: u32
          in Inr (sint unsignedintvalue, createDatapoint_uint32 unsignedintvalue, True))
      | FLOAT \<Rightarrow> ebind (buf_slice payload (unat off) 4) (\<lambda>bs.
          let f_value = bytes_to_float bs
          in ebind (f32_to_int f_value) (\<lambda>i. Inr (i, createDatapoint_float f_value, True)))
      | STRING \<Rightarrow> ebind (bytes_to_ascii_string payload (unat off) (unat (node_length node))) (\<lambda>msg.
          Inr (0, createDatapoint_string msg, True))
      | _ \<Rightarrow> Inr (0, v, False))"

definition decode_node :: "'j json \<Rightarrow> 'j VSSNode \<Rightarrow> bytes \<Rightarrow> Datapoint \<Rightarrow> cpp_error + (Datapoint \<times> bool)" where
  "decode_node J node payload v =
     ebind (decode_type node (getDataType (node_datatype node)) payload v) (\<lambda>(tmpValue, v, feed_value).
       if transformMapping node \<noteq> [] then
         (case map_of (transformMapping node) (to_string tmpValue) of
            Some x \<Rightarrow> ebind (createDatapoint_json J x) (\<lambda>v. Inr (v, True))
          | None \<Rightarrow> Inr (v, False))
       else Inr (v, feed_value))"

section \<open>The handler\<close>

definition node_event ::
  "'j json \<Rightarrow> u16 \<Rightarrow> bytes \<Rightarrow> 'j VSSNode \<Rightarrow> Datapoint \<times> feeder \<Rightarrow> cpp_error + Datapoint \<times> feeder" where
  "node_event J method_id payload node st =
     (if methodId node = method_id \<and> 0 < unat (node_length node)
      then ebind (decode_node J node payload (fst st)) (\<lambda>(v, feed_value).
             Inr (v, if feed_value then FeedValue (node_name node) v (snd st) else snd st))
      else Inr st)"

definition mapping_event ::
  "'j json \<Rightarrow> 'j SomeIPConfig \<Rightarrow> u16 \<Rightarrow> u16 \<Rightarrow> u16 \<Rightarrow> bytes \<Rightarrow> 'j VSSConfigInfo
     \<Rightarrow> Datapoint \<times> feeder \<Rightarrow> cpp_error + Datapoint \<times> feeder" where
  "mapping_event J config service_id inst_id method_id payload m st =
     (if serviceType (metaData m) = ''Event'' \<and> service_id = service config \<and> inst_id = instance_id config
      then efold (node_event J method_id payload) (vssNodes m) st
      else Inr st)"

definition on_someip_message ::
  "'j json \<Rightarrow> 'j SomeIPConfig \<Rightarrow> u16 \<Rightarrow> u16 \<Rightarrow> u16 \<Rightarrow> bytes \<Rightarrow> feeder \<Rightarrow> cpp_error + (int \<times> feeder)" where
  "on_someip_message J config service_id inst_id method_id payload f =
     ebind (efold (mapping_event J config service_id inst_id method_id payload) (VSSMap config)
              (empty_Datapoint, f))
       (\<lambda>(v, f). Inr (0, f))"

section \<open>Specification\<close>

text \<open>The nodes a message concerns: of every event mapping, whatever its own service.\<close>

definition event_nodes :: "'j SomeIPConfig \<Rightarrow> u16 \<Rightarrow> u16 \<Rightarrow> u16 \<Rightarrow> 'j VSSNode list" where
  "event_nodes config service_id inst_id method_id =
     (if service_id = service config \<and> inst_id = instance_id config
      then filter (\<lambda>n. methodId n = method_id \<and> 0 < unat (node_length n))
             (concat (map (\<lambda>m. if serviceType (metaData m) = ''Event'' then vssNodes m else []) (VSSMap config)))
      else [])"

definition node_value :: "'j json \<Rightarrow> 'j VSSNode \<Rightarrow> bytes \<Rightarrow> cpp_error + (string \<times> Datapoint) list" where
  "node_value J node payload =
     ebind (decode_node J node payload empty_Datapoint) (\<lambda>(v, feed_value).
       Inr (if feed_value then [(node_name node, v)] else []))"

fun node_values :: "'j json \<Rightarrow> bytes \<Rightarrow> 'j VSSNode list \<Rightarrow> cpp_error + (string \<times> Datapoint) list" where
  "node_values J payload [] = Inr []"
| "node_values J payload (n # ns) =
     ebind (node_value J n payload) (\<lambda>xs. ebind (node_values J payload ns) (\<lambda>ys. Inr (xs @ ys)))"

definition feed_all :: "(string \<times> Datapoint) list \<Rightarrow> feeder \<Rightarrow> feeder" where
  "feed_all xs f = fold (\<lambda>(n, v). FeedValue n v) xs f"

text \<open>A node whose bytes are all in a payload of this length.\<close>

definition node_in :: "nat \<Rightarrow> 'j VSSNode \<Rightarrow> bool" where
  "node_in len node =
     (unat (byteOffset node) +
       (case getDataType (node_datatype node) of
          BOOL \<Rightarrow> 1 | UINT8 \<Rightarrow> 1 | INT8 \<Rightarrow> 1 | UINT16 \<Rightarrow> 2 | INT16 \<Rightarrow> 2 | UINT32 \<Rightarrow> 4 | FLOAT \<Rightarrow> 4
        | STRING \<Rightarrow> unat (node_length node) | _ \<Rightarrow> 0) \<le> len)"

text \<open>A \<open>float\<close> node whose bytes hold a value that converts to \<open>int\<close>.\<close>

definition float_in_range :: "bytes \<Rightarrow> 'j VSSNode \<Rightarrow> bool" where
  "float_in_range payload node =
     (getDataType (node_datatype node) = FLOAT \<longrightarrow>
       unat (take_bit 8 (drop_bit 23 (bytes_to_float (take 4 (drop (unat (byteOffset node)) payload))))) < 158)"

section \<open>The loops as one pass\<close>

text \<open>The value left over from an earlier node is never fed.\<close>

lemma decode_type_value:
  "decode_type node ty payload v = ebind (decode_type node ty payload w)
     (\<lambda>(i, x, fd). Inr (i, if fd then x else v, fd))"
proof -
  have r: "ebind m f = ebind m g" if "\<And>x. f x = g x" for m :: "cpp_error + 'z" and f g :: "'z \<Rightarrow> cpp_error + 'y"
    using that by (cases m) simp_all
  show ?thesis by (cases ty) (auto simp: decode_type_def ebind_assoc Let_def intro!: r)
qed

lemma node_event_value:
  assumes "methodId n = m" and "0 < unat (node_length n)"
  shows "\<exists>v'. node_event J m p n (v, f) = ebind (node_value J n p) (\<lambda>xs. Inr (v', feed_all xs f))"
proof (cases "decode_type n (getDataType (node_datatype n)) p empty_Datapoint")
  case (Inl e)
  then have "decode_type n (getDataType (node_datatype n)) p v = Inl e"
    using decode_type_value [of n _ p v empty_Datapoint] by simp
  with Inl assms show ?thesis by (simp add: node_event_def node_value_def decode_node_def)
next
  case (Inr r)
  obtain i x fd where r: "r = (i, x, fd)" by (cases r)
  have d: "decode_type n (getDataType (node_datatype n)) p v = Inr (i, if fd then x else v, fd)"
    using decode_type_value [of n _ p v empty_Datapoint] Inr r by simp
  consider (plain) "transformMapping n = []"
    | (none) "transformMapping n \<noteq> []" "map_of (transformMapping n) (to_string i) = None"
    | (some) y where "transformMapping n \<noteq> []" "map_of (transformMapping n) (to_string i) = Some y" by blast
  then show ?thesis
  proof cases
    case (some y)
    then show ?thesis using assms d Inr r
      by (cases "createDatapoint_json J y")
         (simp_all add: node_event_def node_value_def decode_node_def feed_all_def)
  qed (use assms d Inr r in \<open>simp_all add: node_event_def node_value_def decode_node_def feed_all_def\<close>)
qed

lemma node_values_append:
  "node_values J p (ns @ ms) = ebind (node_values J p ns) (\<lambda>xs. ebind (node_values J p ms) (\<lambda>ys. Inr (xs @ ys)))"
proof (induction ns)
  case Nil
  show ?case by (cases "node_values J p ms") simp_all
next
  case (Cons n ns)
  then show ?case
    by (cases "node_value J n p"; cases "node_values J p ns"; cases "node_values J p ms") simp_all
qed

lemma feed_all_append: "feed_all (xs @ ys) f = feed_all ys (feed_all xs f)"
  by (simp add: feed_all_def)

lemma event_node_loop:
  "\<exists>v'. efold (node_event J m p) ns (v, f) =
    ebind (node_values J p (filter (\<lambda>n. methodId n = m \<and> 0 < unat (node_length n)) ns))
      (\<lambda>xs. Inr (v', feed_all xs f))"
proof (induction ns arbitrary: v f)
  case Nil
  show ?case by (simp add: feed_all_def)
next
  case (Cons n ns)
  let ?P = "\<lambda>n. methodId n = m \<and> 0 < unat (node_length n)"
  show ?case
  proof (cases "?P n")
    case True
    then obtain v1 where v1: "node_event J m p n (v, f) = ebind (node_value J n p) (\<lambda>xs. Inr (v1, feed_all xs f))"
      using node_event_value [of n m J p v f] by blast
    show ?thesis
    proof (cases "node_value J n p")
      case (Inr xs)
      obtain v2 where "efold (node_event J m p) ns (v1, feed_all xs f) =
          ebind (node_values J p (filter ?P ns)) (\<lambda>ys. Inr (v2, feed_all ys (feed_all xs f)))"
        using Cons.IH by blast
      with True v1 Inr show ?thesis
        by (cases "node_values J p (filter ?P ns)") (auto simp: feed_all_append)
    qed (use True v1 in simp)
  next
    case False
    then have "node_event J m p n (v, f) = Inr (v, f)" by (auto simp: node_event_def)
    with Cons.IH [of v f] show ?thesis using False by auto
  qed
qed

lemma event_mapping_loop:
  assumes "svc = service config" and "inst = instance_id config"
  shows "\<exists>v'. efold (mapping_event J config svc inst m p) ms (v, f) =
    ebind (node_values J p (filter (\<lambda>n. methodId n = m \<and> 0 < unat (node_length n))
        (concat (map (\<lambda>m. if serviceType (metaData m) = ''Event'' then vssNodes m else []) ms))))
      (\<lambda>xs. Inr (v', feed_all xs f))"
proof (induction ms arbitrary: v f)
  case Nil
  show ?case by (simp add: feed_all_def)
next
  case (Cons k ms)
  let ?P = "\<lambda>n. methodId n = m \<and> 0 < unat (node_length n)"
  let ?N = "\<lambda>ms. filter ?P (concat (map (\<lambda>m. if serviceType (metaData m) = ''Event'' then vssNodes m else []) ms))"
  show ?case
  proof (cases "serviceType (metaData k) = ''Event''")
    case True
    have k: "?N (k # ms) = filter ?P (vssNodes k) @ ?N ms" using True by simp
    obtain v1 where v1: "mapping_event J config svc inst m p k (v, f) =
        ebind (node_values J p (filter ?P (vssNodes k))) (\<lambda>xs. Inr (v1, feed_all xs f))"
      using event_node_loop [of J m p "vssNodes k" v f] True assms by (auto simp: mapping_event_def)
    show ?thesis
    proof (cases "node_values J p (filter ?P (vssNodes k))")
      case (Inr xs)
      obtain v2 where "efold (mapping_event J config svc inst m p) ms (v1, feed_all xs f) =
          ebind (node_values J p (?N ms)) (\<lambda>ys. Inr (v2, feed_all ys (feed_all xs f)))"
        using Cons.IH by blast
      with v1 Inr show ?thesis unfolding k node_values_append
        by (cases "node_values J p (?N ms)") (auto simp: feed_all_append)
    qed (use v1 in \<open>simp add: True node_values_append\<close>)
  next
    case False
    then have "mapping_event J config svc inst m p k (v, f) = Inr (v, f)" by (simp add: mapping_event_def)
    with Cons.IH [of v f] show ?thesis using False by simp
  qed
qed

lemma on_someip_message_values:
  "on_someip_message J config svc inst m p f =
    ebind (node_values J p (event_nodes config svc inst m)) (\<lambda>xs. Inr (0, feed_all xs f))"
proof (cases "svc = service config \<and> inst = instance_id config")
  case True
  then obtain v' where "efold (mapping_event J config svc inst m p) (VSSMap config) (empty_Datapoint, f) =
      ebind (node_values J p (event_nodes config svc inst m)) (\<lambda>xs. Inr (v', feed_all xs f))"
    using event_mapping_loop [of svc config inst J m p "VSSMap config" empty_Datapoint f]
    by (auto simp: event_nodes_def)
  then show ?thesis
    by (cases "node_values J p (event_nodes config svc inst m)") (simp_all add: on_someip_message_def)
next
  case False
  have "efold (mapping_event J config svc inst m p) ms st = Inr st" for ms st
    using False by (induction ms) (auto simp: mapping_event_def)
  with False show ?thesis by (auto simp: on_someip_message_def event_nodes_def feed_all_def)
qed

section \<open>Bounds\<close>

lemma unat_Suc_le: "unat (off + 1 :: u64) \<le> unat off + 1"
  by (simp add: unat_word_ariths)

lemma read_u16_Inr:
  assumes "unat off + 2 \<le> length p"
  shows "read_u16 p off = Inr (le_word [p ! unat (off + 1), p ! unat off])"
proof -
  have "unat (off + 1) < length p" using assms unat_Suc_le [of off] by linarith
  with assms show ?thesis by (simp add: read_u16_def)
qed

lemma read_u16_be:
  assumes "unat off + 2 \<le> length p" and "length p < 2 ^ 64"
  shows "read_u16 p off = Inr (be_word (take 2 (drop (unat off) p)))"
proof -
  have "unat (off + 1) = unat off + 1"
    using assms by (subst unat_add_lem [THEN iffD1]) simp_all
  moreover have "take 2 (drop (unat off) p) = [p ! unat off, p ! (unat off + 1)]"
    using assms(1) by (simp add: numeral_2_eq_2 take_Suc_conv_app_nth)
  ultimately show ?thesis using read_u16_Inr [OF assms(1)] by (simp add: be_word_def)
qed

lemma decode_type_ok:
  assumes "node_in (length p) n" and "float_in_range p n"
  shows "\<exists>r. decode_type n (getDataType (node_datatype n)) p v = Inr r"
proof (cases "getDataType (node_datatype n)")
  case FLOAT
  then have off: "unat (byteOffset n) + 4 \<le> length p" using assms(1) by (simp add: node_in_def)
  obtain i where "f32_to_int (bytes_to_float (take 4 (drop (unat (byteOffset n)) p))) = Inr i"
    using f32_to_int_ok assms(2) FLOAT by (metis float_in_range_def)
  with FLOAT off show ?thesis by (auto simp: decode_type_def)
qed (use assms in \<open>auto simp: decode_type_def node_in_def read_u16_Inr bytes_to_ascii_string_def Let_def\<close>)

lemma node_value_ok:
  assumes "json_converts J" and "node_in (length p) n" and "float_in_range p n"
  shows "\<exists>xs. node_value J n p = Inr xs"
proof -
  obtain i x fd where "decode_type n (getDataType (node_datatype n)) p empty_Datapoint = Inr (i, x, fd)"
    using decode_type_ok [OF assms(2,3)] by (metis prod_cases3)
  moreover have "\<exists>d. createDatapoint_json J y = Inr d" for y
    by (rule createDatapoint_json_total [OF assms(1)])
  ultimately show ?thesis
    by (fastforce simp: node_value_def decode_node_def bind_simps split: option.splits)
qed

lemma node_values_ok:
  assumes "json_converts J" and "list_all (\<lambda>n. node_in (length p) n \<and> float_in_range p n) ns"
  shows "\<exists>xs. node_values J p ns = Inr xs"
  using assms(2)
proof (induction ns)
  case (Cons n ns)
  then obtain xs where "node_value J n p = Inr xs" using node_value_ok [OF assms(1)] by auto
  with Cons show ?case by auto
qed simp

lemma read_u16_oob:
  assumes "length p < unat off + 2" and "length p < 2 ^ 64"
  shows "read_u16 p off = Inl OOB_read"
proof -
  have "unat (off + 1) = unat off + 1" if "unat off < length p"
    using that assms(2) by (subst unat_add_lem [THEN iffD1]) simp_all
  with assms(1) show ?thesis by (auto simp: read_u16_def buf_read_def)
qed

abbreviation scalar_types :: "DataType set" where
  "scalar_types \<equiv> {BOOL, UINT8, INT8, UINT16, INT16, UINT32, FLOAT, STRING}"

lemma decode_type_oob:
  assumes "\<not> node_in (length p) n" and "length p < 2 ^ 64" and "getDataType (node_datatype n) \<in> scalar_types"
  shows "decode_type n (getDataType (node_datatype n)) p v = Inl OOB_read"
  using assms read_u16_oob [of p "byteOffset n"]
  by (auto simp: decode_type_def node_in_def bytes_to_ascii_string_def buf_read_def buf_slice_def)

section \<open>Properties\<close>

text \<open>
  C11. What a SOME/IP message feeds: the decoded values of exactly the event nodes whose method
  identifier is the message's, in the order of the configuration, and only if the message comes
  from the service and instance the client subscribed to; nodes of every event mapping take part,
  also of one that names another service. Afterwards the feeder's queue holds for every name the
  last value decoded for it, and its old value otherwise; an inactive feeder is left unchanged.
\<close>

theorem on_someip_message_feeds:
  assumes "on_someip_message J config svc inst m p f = Inr (rc, f')"
  shows "\<exists>xs. node_values J p (event_nodes config svc inst m) = Inr xs \<and> rc = 0 \<and> f' = feed_all xs f \<and>
    map_of (stored_values f') =
      (if feeder_active f then map_of (stored_values f) ++ map_of (rev xs) else map_of (stored_values f))"
proof -
  obtain xs where xs: "node_values J p (event_nodes config svc inst m) = Inr xs" "rc = 0" "f' = feed_all xs f"
    using assms by (auto simp: on_someip_message_values bind_simps)
  show ?thesis
    using xs fs.feed_all_value [of f xs] fs.feed_all_closed [of f xs] by (auto simp: feed_all_def)
qed

text \<open>An event with a 16-bit and a transformed 8-bit node.\<close>

definition ev_node :: "string \<Rightarrow> string \<Rightarrow> u64 \<Rightarrow> u8 \<Rightarrow> (string \<times> jv) list \<Rightarrow> jv VSSNode" where
  "ev_node name ty off len tm = \<lparr>node_name = name, node_datatype = ty, byteOffset = off, node_length = len,
     methodId = 0x8001, transformMapping = tm\<rparr>"

definition ev_config :: "jv VSSNode list \<Rightarrow> jv SomeIPConfig" where
  "ev_config ns = (default_config 0xFF 0xFFFFFFFF)\<lparr>service := 0x60D0, instance_id := 1,
     VSSMap := [\<lparr>metaData = \<lparr>serviceType = ''Event'', serviceID = 0x60D0, instanceID = 1, methodID = 0,
       EventID = 0x8001, EventGroup = 0x64, majorVersion = 1, minorVersion = 0\<rparr>, vssNodes = ns\<rparr>]\<rparr>"

definition ev_sample :: "jv VSSNode list" where
  "ev_sample = [ev_node ''Vehicle.Speed'' ''uint16'' 0 2 [],
     ev_node ''Vehicle.Mode'' ''uint8'' 2 1 [(''2'', JStr ''WIPE'')]]"

lemma ev_sample_nodes: "event_nodes (ev_config ev_sample) 0x60D0 1 0x8001 = ev_sample"
  by (simp add: event_nodes_def ev_config_def ev_sample_def ev_node_def)

lemma ev_sample_values:
  "node_values jv_json [0x12, 0x34, 2] ev_sample =
    Inr [(''Vehicle.Speed'', createDatapoint_uint32 0x1234), (''Vehicle.Mode'', createDatapoint_string ''WIPE'')]"
proof -
  have "to_string 2 = ''2''" by code_simp
  then show ?thesis
    by (simp add: ev_sample_def ev_node_def node_value_def decode_node_def decode_type_def getDataType_def
        read_u16_def jv_eval createDatapoint_json_def createDatapoint_string_def Let_def)
qed

definition fresh_feeder :: feeder where
  "fresh_feeder = new_feeder (new_CollectorClient Map.empty [] []) []"

lemma ev_sample_message:
  "on_someip_message jv_json (ev_config ev_sample) 0x60D0 1 0x8001 [0x12, 0x34, 2] fresh_feeder =
    Inr (0, feed_all [(''Vehicle.Speed'', createDatapoint_uint32 0x1234),
      (''Vehicle.Mode'', createDatapoint_string ''WIPE'')] fresh_feeder)"
  by (simp add: on_someip_message_values ev_sample_nodes ev_sample_values)

theorem on_someip_message_feeds_witness:
  "map_of (stored_values (feed_all [(''Vehicle.Speed'', createDatapoint_uint32 0x1234),
      (''Vehicle.Mode'', createDatapoint_string ''WIPE'')] fresh_feeder)) ''Vehicle.Speed'' =
    Some (createDatapoint_uint32 0x1234)"
proof -
  have "feeder_active fresh_feeder" by (simp add: fresh_feeder_def new_feeder_def)
  with on_someip_message_feeds [OF ev_sample_message] show ?thesis
    by (auto simp: ev_sample_nodes ev_sample_values)
qed

text \<open>
  C21. A message is handled without an invalid read or conversion, and with result 0, if the bytes
  of every node it concerns are within its payload, every \<open>float\<close> among them is smaller than
  \<open>2\<^sup>3\<^sup>1\<close> in magnitude, and JSON conversions of a reported kind do not throw.
\<close>

theorem on_someip_message_safe:
  assumes "json_converts J"
    and "list_all (\<lambda>n. node_in (length p) n \<and> float_in_range p n) (event_nodes config svc inst m)"
  shows "\<exists>f'. on_someip_message J config svc inst m p f = Inr (0, f')"
  using node_values_ok [OF assms] by (auto simp: on_someip_message_values)

theorem on_someip_message_safe_witness:
  "\<exists>f'. on_someip_message jv_json (ev_config ev_sample) 0x60D0 1 0x8001 [0x12, 0x34, 2] fresh_feeder = Inr (0, f')"
proof -
  have "list_all (\<lambda>n. node_in (length [0x12, 0x34, 2 :: u8]) n \<and> float_in_range [0x12, 0x34, 2] n)
      (event_nodes (ev_config ev_sample) 0x60D0 1 0x8001)"
    unfolding ev_sample_nodes
    by (simp add: ev_sample_def ev_node_def node_in_def float_in_range_def getDataType_def)
  from on_someip_message_safe [OF jv_json_converts this] show ?thesis by blast
qed

text \<open>
  The length of the payload is not checked: if the first node a message concerns reaches
  beyond the payload, the handler reads out of bounds, whatever the payload is.
\<close>

theorem on_someip_message_oob:
  assumes "event_nodes config svc inst m = n # ns" and "\<not> node_in (length p) n" and "length p < 2 ^ 64"
    and "getDataType (node_datatype n) \<in> scalar_types"
  shows "on_someip_message J config svc inst m p f = Inl OOB_read"
  using decode_type_oob [OF assms(2-4)]
  by (simp add: on_someip_message_values assms(1) node_value_def decode_node_def)

theorem on_someip_message_oob_witness:
  "on_someip_message jv_json (ev_config ev_sample) 0x60D0 1 0x8001 [0x12] fresh_feeder = Inl OOB_read"
proof -
  let ?n = "ev_node ''Vehicle.Speed'' ''uint16'' 0 2 []"
  have e: "event_nodes (ev_config ev_sample) 0x60D0 1 0x8001 =
      ?n # [ev_node ''Vehicle.Mode'' ''uint8'' 2 1 [(''2'', JStr ''WIPE'')]]"
    unfolding ev_sample_nodes by (simp add: ev_sample_def)
  have "\<not> node_in (length [0x12 :: u8]) ?n" and "getDataType (node_datatype ?n) \<in> scalar_types"
    by (simp_all add: node_in_def ev_node_def getDataType_def)
  with on_someip_message_oob [OF e] show ?thesis by simp
qed

text \<open>
  Byte order of events: for a node within the payload, 16-bit values are read most significant
  byte first and sign-extended for the signed type, \<open>float\<close> values most significant byte
  first, but 32-bit unsigned values least significant byte first.
\<close>

theorem event_byte_order:
  assumes "unat (byteOffset n) + 4 \<le> length p" and "length p < 2 ^ 64"
  shows "decode_type n UINT16 p v = (let w = be_word (take 2 (drop (unat (byteOffset n)) p)) :: u16
      in Inr (uint w, createDatapoint_uint32 (ucast w), True)) \<and>
    decode_type n INT16 p v = (let w = be_word (take 2 (drop (unat (byteOffset n)) p)) :: u16
      in Inr (sint w, createDatapoint_int32 (scast w), True)) \<and>
    decode_type n UINT32 p v = (let w = le_word (take 4 (drop (unat (byteOffset n)) p))
      in Inr (sint w, createDatapoint_uint32 w, True)) \<and>
    decode_type n FLOAT p v = (let w = be_word (take 4 (drop (unat (byteOffset n)) p))
      in ebind (f32_to_int w) (\<lambda>i. Inr (i, createDatapoint_float w, True)))"
proof -
  have "bytes_to_float bs = be_word bs" if "length bs = 4" for bs
    using that by (auto simp: bytes_to_float_def be_word_def eval_nat_numeral length_Suc_conv)
  with assms read_u16_be [of "byteOffset n" p] show ?thesis by (simp add: decode_type_def Let_def)
qed

theorem event_byte_order_witness:
  "decode_type (ev_node ''N'' ''uint16'' 0 2 []) UINT16 [0x12, 0x34, 0, 0] empty_Datapoint =
    Inr (0x1234, createDatapoint_uint32 0x1234, True)"
  using event_byte_order [of "ev_node ''N'' ''uint16'' 0 2 []" "[0x12, 0x34, 0, 0]" empty_Datapoint]
  by (simp add: ev_node_def be_word_def Let_def)

text \<open>
  Transformations: a node with a transformation table feeds the table's value for the decimal
  text of the decoded integer, and feeds nothing if the table has no such text; two different
  integers never share an entry.
\<close>

theorem transform_lookup:
  assumes "transformMapping n \<noteq> []"
    and "decode_type n (getDataType (node_datatype n)) p empty_Datapoint = Inr (i, x, fd)"
  shows "node_value J n p =
      (case map_of (transformMapping n) (to_string i) of
         None \<Rightarrow> Inr []
       | Some y \<Rightarrow> ebind (createDatapoint_json J y) (\<lambda>v. Inr [(node_name n, v)])) \<and>
    (to_string i = to_string j \<longleftrightarrow> i = j)"
  using assms
  by (cases "map_of (transformMapping n) (to_string i)")
     (simp_all add: node_value_def decode_node_def ebind_assoc to_string_inj)

theorem transform_lookup_witness:
  "node_value jv_json (ev_node ''N'' ''uint8'' 0 1 [(''2'', JStr ''WIPE'')]) [2] = Inr [(''N'', createDatapoint_string ''WIPE'')]"
proof -
  let ?n = "ev_node ''N'' ''uint8'' 0 1 [(''2'', JStr ''WIPE'')]"
  have t: "to_string 2 = ''2''" by code_simp
  have "transformMapping ?n \<noteq> []"
    and "decode_type ?n (getDataType (node_datatype ?n)) [2] empty_Datapoint =
      Inr (2, createDatapoint_uint32 2, True)"
    by (simp_all add: ev_node_def decode_type_def getDataType_def)
  from transform_lookup [OF this, of jv_json 2] t show ?thesis
    by (simp add: ev_node_def jv_eval createDatapoint_json_def createDatapoint_string_def Let_def)
qed

end
