(* ===== verification/Ieee.thy ===== *)
theory Ieee
  imports Prelude
begin

text \<open>
  Binary floating point as the sources use it on their targets: \<open>float\<close> is binary32 and
  \<open>double\<close> binary64, every operation rounds to nearest with ties to even in the type of its
  operands, and a \<open>double\<close> operand converts a \<open>float\<close> one exactly.

  A value is \<open>Fin neg m e\<close>, standing for \<open>m * 2 ^ e\<close> with a sign (zeros are signed), an
  infinity or a NaN. Which NaN it is is not modelled: \<open>NaN\<close> is encoded as the default quiet
  NaN. An operation is the exact result followed by \<open>fround\<close>; the quotient is computed with
  enough extra bits and a sticky bit, so that rounding it is rounding the exact quotient.
\<close>

datatype fl = Fin bool int int | Inf bool | NaN

function bitlen :: "int \<Rightarrow> int" where
  "bitlen n = (if n \<le> 0 then 0 else 1 + bitlen (n div 2))"
  by pat_completeness auto

termination by (relation "measure nat") auto

declare bitlen.simps [simp del]

definition round_shift :: "int \<Rightarrow> nat \<Rightarrow> int" where
  "round_shift m k =
     (let q = m div 2 ^ k; r = m mod 2 ^ k in
      if 2 ^ k < 2 * r \<or> (2 ^ k = 2 * r \<and> odd q) then q + 1 else q)"

text \<open>Rounding to \<open>p\<close> bits, with smallest exponent \<open>emin\<close> and overflow from \<open>2 ^ emax\<close>.\<close>

definition fround :: "int \<Rightarrow> int \<Rightarrow> int \<Rightarrow> fl \<Rightarrow> fl" where
  "fround p emin emax x =
     (case x of
        Fin s m e \<Rightarrow>
          let e' = max emin (e + bitlen m - p);
              (m1, e1) = (if e' \<le> e then (m, e) else (round_shift m (nat (e' - e)), e'))
          in if m1 \<noteq> 0 \<and> emax < e1 + bitlen m1 then Inf s else Fin s m1 e1
      | _ \<Rightarrow> x)"

definition round32 :: "fl \<Rightarrow> fl" where "round32 = fround 24 (- 149) 128"
definition round64 :: "fl \<Rightarrow> fl" where "round64 = fround 53 (- 1074) 1024"

definition signed :: "bool \<Rightarrow> int \<Rightarrow> int" where
  "signed s m = (if s then - m else m)"

definition fadd :: "fl \<Rightarrow> fl \<Rightarrow> fl" where
  "fadd x y =
     (case (x, y) of
        (Fin s1 m1 e1, Fin s2 m2 e2) \<Rightarrow>
          let e = min e1 e2;
              v = signed s1 (m1 * 2 ^ nat (e1 - e)) + signed s2 (m2 * 2 ^ nat (e2 - e))
          in if v = 0 then Fin (s1 \<and> s2) 0 e else Fin (v < 0) \<bar>v\<bar> e
      | (NaN, _) \<Rightarrow> NaN
      | (_, NaN) \<Rightarrow> NaN
      | (Inf s1, Inf s2) \<Rightarrow> if s1 = s2 then Inf s1 else NaN
      | (Inf s1, _) \<Rightarrow> Inf s1
      | (_, Inf s2) \<Rightarrow> Inf s2)"

definition fmul :: "fl \<Rightarrow> fl \<Rightarrow> fl" where
  "fmul x y =
     (case (x, y) of
        (Fin s1 m1 e1, Fin s2 m2 e2) \<Rightarrow> Fin (s1 \<noteq> s2) (m1 * m2) (e1 + e2)
      | (NaN, _) \<Rightarrow> NaN
      | (_, NaN) \<Rightarrow> NaN
      | (Inf s1, Inf s2) \<Rightarrow> Inf (s1 \<noteq> s2)
      | (Inf s1, Fin s2 m _) \<Rightarrow> if m = 0 then NaN else Inf (s1 \<noteq> s2)
      | (Fin s1 m _, Inf s2) \<Rightarrow> if m = 0 then NaN else Inf (s1 \<noteq> s2))"

text \<open>Division by a finite value that is not zero.\<close>

definition fdiv :: "fl \<Rightarrow> bool \<Rightarrow> int \<Rightarrow> int \<Rightarrow> fl" where
  "fdiv x s2 m2 e2 =
     (case x of
        Fin s1 m1 e1 \<Rightarrow>
          let k = bitlen m2 + 66; n = m1 * 2 ^ nat k; q = n div m2; sticky = (if n mod m2 = 0 then 0 else 1)
          in Fin (s1 \<noteq> s2) (2 * q + sticky) (e1 - e2 - k - 1)
      | Inf s1 \<Rightarrow> Inf (s1 \<noteq> s2)
      | NaN \<Rightarrow> NaN)"

definition fneg :: "fl \<Rightarrow> fl" where
  "fneg x = (case x of Fin s m e \<Rightarrow> Fin (\<not> s) m e | Inf s \<Rightarrow> Inf (\<not> s) | NaN \<Rightarrow> NaN)"

definition fless :: "fl \<Rightarrow> fl \<Rightarrow> bool" where
  "fless x y =
     (case (x, y) of
        (Fin s1 m1 e1, Fin s2 m2 e2) \<Rightarrow>
          let e = min e1 e2
          in signed s1 (m1 * 2 ^ nat (e1 - e)) < signed s2 (m2 * 2 ^ nat (e2 - e))
      | (NaN, _) \<Rightarrow> False
      | (_, NaN) \<Rightarrow> False
      | (Inf s1, Inf s2) \<Rightarrow> s1 \<and> \<not> s2
      | (Inf s1, _) \<Rightarrow> s1
      | (_, Inf s2) \<Rightarrow> \<not> s2)"

definition fge :: "fl \<Rightarrow> fl \<Rightarrow> bool" where
  "fge x y = (x \<noteq> NaN \<and> y \<noteq> NaN \<and> \<not> fless x y)"

definition fl_of_int :: "int \<Rightarrow> fl" where
  "fl_of_int i = Fin (i < 0) \<bar>i\<bar> 0"

section \<open>Encodings\<close>

definition f32_decode :: "f32 \<Rightarrow> fl" where
  "f32_decode w =
     (let s = bit w 31; e = uint (take_bit 8 (drop_bit 23 w)); m = uint (take_bit 23 w) in
      if e = 255 then (if m = 0 then Inf s else NaN)
      else if e = 0 then Fin s m (- 149)
      else Fin s (m + 2 ^ 23) (e - 150))"

definition sign_bit :: "bool \<Rightarrow> int" where
  "sign_bit s = (if s then 2 ^ 31 else 0)"

text \<open>Of a value that \<open>round32\<close> leaves unchanged.\<close>

definition f32_encode :: "fl \<Rightarrow> f32" where
  "f32_encode x =
     (case x of
        NaN \<Rightarrow> 0x7FC00000
      | Inf s \<Rightarrow> word_of_int (sign_bit s + 255 * 2 ^ 23)
      | Fin s m e \<Rightarrow>
          if m = 0 then word_of_int (sign_bit s)
          else
            let b = bitlen m; E = e + b - 1 in
            if - 126 \<le> E then
              let mant = (if b \<le> 24 then m * 2 ^ nat (24 - b) else m div 2 ^ nat (b - 24))
              in word_of_int (sign_bit s + (E + 127) * 2 ^ 23 + (mant - 2 ^ 23))
            else word_of_int (sign_bit s + m * 2 ^ nat (e + 149)))"

text \<open>\<open>float\<close> arithmetic.\<close>

definition add32 :: "f32 \<Rightarrow> f32 \<Rightarrow> f32" where
  "add32 a b = f32_encode (round32 (fadd (f32_decode a) (f32_decode b)))"

definition less32 :: "f32 \<Rightarrow> f32 \<Rightarrow> bool" where
  "less32 a b = fless (f32_decode a) (f32_decode b)"

end
