(* ===== verification/Adapter.thy ===== *)
theory Adapter
  imports Adapter_Actuator Adapter_Someip Ieee
begin

text \<open>
  The adapter object \<open>SomeipFeederAdapter\<close>: construction, \<open>InitDataBrokerFeeder\<close>,
  \<open>InitSomeipClient\<close>, \<open>Start\<close>, \<open>Shutdown\<close> and \<open>FeedDummyData\<close>.

  The record holds the members of the class; a \<open>shared_ptr\<close> is an option, a thread is its
  state as far as \<open>joinable\<close> shows it. Feeder and subscriber share one collector client in
  the code; here each has its value, and their step relations let it change at any time. The
  environment, the existence of files and the clock are arguments. \<open>ad_log\<close> records the
  calls \<open>Shutdown\<close> makes on the parts, in order; the waiting inside \<open>join\<close> is the subject of
  the thread models.
\<close>

datatype thread = No_thread | Joinable | Not_joinable

datatype stop_act =
    Stop_subscriber | Stop_feeder | Stop_someip
  | Join_someip | Detach_someip | Join_feeder | Join_subscriber

record 'j adapter =
  ad_feeder_active :: bool
  ad_collector :: "CollectorClient option"
  ad_feeder :: "feeder option"
  ad_feeder_thread :: thread
  ad_subscriber :: "subscriber option"
  ad_subscriber_thread :: thread
  ad_use_tcp :: bool
  ad_someip :: "'j SomeIPClient option"
  ad_someip_thread :: thread
  ad_someip_active :: bool
  ad_shutdown_requested :: bool
  ad_log_level :: int
  ad_log :: "stop_act list"

section \<open>Operations\<close>

definition new_adapter :: "env \<Rightarrow> 'j adapter" where
  "new_adapter E =
     \<lparr>ad_feeder_active = False, ad_collector = None, ad_feeder = None, ad_feeder_thread = No_thread,
      ad_subscriber = None, ad_subscriber_thread = No_thread, ad_use_tcp = False, ad_someip = None,
      ad_someip_thread = No_thread, ad_someip_active = False, ad_shutdown_requested = False,
      ad_log_level = getEnvironmentInt E ''SOMEIP_CLI_DEBUG'' 1, ad_log = []\<rparr>"

definition feeder_metadata :: "'j VSSConfigInfo list \<Rightarrow> DatapointConfiguration" where
  "feeder_metadata ms =
     fold (\<lambda>m md. if serviceType (metaData m) = ''Event''
       then fold (\<lambda>n md. md @ [\<lparr>dm_name = node_name n, dm_data_type = getDataType (node_datatype n),
              dm_change_type = ON_CHANGE, dm_initial_value = createNotAvailableValue,
              dm_description = ''No description''\<rparr>]) (vssNodes m) md
       else md) ms []"

definition actuator_list :: "'j VSSConfigInfo list \<Rightarrow> string list" where
  "actuator_list ms =
     fold (\<lambda>m acts. if serviceType (metaData m) = ''Event'' then acts
       else if serviceType (metaData m) = ''Method''
       then fold (\<lambda>n acts. acts @ [node_name n]) (vssNodes m) acts
       else acts) ms []"

definition InitDataBrokerFeeder ::
  "env \<Rightarrow> string \<Rightarrow> string \<Rightarrow> 'j SomeIPConfig \<Rightarrow> 'j adapter \<Rightarrow> bool \<times> 'j adapter" where
  "InitDataBrokerFeeder E databroker_addr auth_token config a =
     (let c = createInstance_collector E databroker_addr auth_token
      in (True, a\<lparr>ad_collector := Some c,
            ad_feeder := Some (createInstance_feeder c (feeder_metadata (VSSMap config))),
            ad_subscriber := Some (sub_Init (actuator_list (VSSMap config)) True (createInstance_subscriber c))\<rparr>))"

definition InitSomeipClient ::
  "env \<Rightarrow> (string \<Rightarrow> bool) \<Rightarrow> 'j SomeIPConfig \<Rightarrow> 'j adapter \<Rightarrow> bool \<times> 'j adapter" where
  "InitSomeipClient E file_exists config a =
     (let a = a\<lparr>ad_use_tcp := use_tcp config\<rparr>;
          someip_app = E ''VSOMEIP_APPLICATION_NAME'';
          someip_config = E ''VSOMEIP_CONFIGURATION'';
          someip_ok = True;
          someip_ok = (if someip_app = None then False else someip_ok);
          someip_ok = (case someip_config of
             None \<Rightarrow> False
           | Some f \<Rightarrow> if \<not> file_exists f then False else someip_ok);
          a = (if someip_ok then a\<lparr>ad_someip := Some (createInstance_someip config)\<rparr> else a)
      in (someip_ok, a\<lparr>ad_someip_active := someip_ok\<rparr>))"

definition adapter_Start :: "'j adapter \<Rightarrow> 'j adapter" where
  "adapter_Start a =
     (let a = (if ad_feeder a \<noteq> None then a\<lparr>ad_feeder_thread := Joinable\<rparr> else a);
          a = (if ad_subscriber a \<noteq> None then a\<lparr>ad_subscriber_thread := Joinable\<rparr> else a);
          a = (if ad_someip_active a \<and> ad_someip a \<noteq> None then a\<lparr>ad_someip_thread := Joinable\<rparr> else a)
      in a\<lparr>ad_feeder_active := True\<rparr>)"

definition note_act :: "stop_act \<Rightarrow> 'j adapter \<Rightarrow> 'j adapter" where
  "note_act x a = a\<lparr>ad_log := ad_log a @ [x]\<rparr>"

text \<open>\<open>same_thread\<close>: the caller is the SOME/IP thread itself.\<close>

definition adapter_Shutdown :: "bool \<Rightarrow> 'j adapter \<Rightarrow> 'j adapter" where
  "adapter_Shutdown same_thread a =
     (if ad_shutdown_requested a then a
      else
        let a = a\<lparr>ad_shutdown_requested := True, ad_feeder_active := False\<rparr>;
            a = (if ad_subscriber_thread a \<noteq> No_thread \<and> ad_subscriber a \<noteq> None
                 then note_act Stop_subscriber (a\<lparr>ad_subscriber := map_option sub_Shutdown (ad_subscriber a)\<rparr>) else a);
            a = (if ad_feeder_thread a \<noteq> No_thread \<and> ad_feeder a \<noteq> None
                 then note_act Stop_feeder (a\<lparr>ad_feeder := map_option feeder_Shutdown (ad_feeder a)\<rparr>) else a);
            a = (if ad_someip a \<noteq> None then
                   let a = note_act Stop_someip (a\<lparr>ad_someip := map_option client_Shutdown (ad_someip a)\<rparr>)
                   in if ad_someip_thread a = Joinable then
                        note_act (if \<not> same_thread then Join_someip else Detach_someip)
                          (a\<lparr>ad_someip_thread := Not_joinable\<rparr>)
                      else a
                 else a);
            a = (if ad_feeder_thread a = Joinable
                 then note_act Join_feeder (a\<lparr>ad_feeder_thread := Not_joinable\<rparr>) else a);
            a = (if ad_subscriber_thread a = Joinable
                 then note_act Join_subscriber (a\<lparr>ad_subscriber_thread := Not_joinable\<rparr>) else a)
        in a)"

text \<open>Destruction of the adapter is a shutdown from the thread that destroys it, then that of its parts.\<close>

definition destroy_adapter :: "'j adapter \<Rightarrow> 'j adapter" where
  "destroy_adapter a = adapter_Shutdown False a"

section \<open>The dummy feeder\<close>

definition WIPER_VSS_PATH :: string where
  "WIPER_VSS_PATH = ''Vehicle.Body.Windshield.Front.Wiping.System''"

definition dummy_vss :: string where
  "dummy_vss = WIPER_VSS_PATH @ ''.ActualPosition''"

definition dummy_vss_target :: string where
  "dummy_vss_target = WIPER_VSS_PATH @ ''.ActualPosition''"

definition dummy_target_pos :: f32 where
  "dummy_target_pos = f32_encode (round32 (fl_of_int 110))"

text \<open>\<open>pos += 3.14\<close>: the sum is a \<open>double\<close>, rounded again when it is stored.\<close>

definition dummy_step :: "f32 \<Rightarrow> f32" where
  "dummy_step pos = f32_encode (round32 (round64 (fadd (f32_decode pos) (Fin False 7070651414971679 (- 51)))))"

definition dummy_feed :: "(i64 \<times> i32) option \<Rightarrow> f32 \<Rightarrow> feeder \<Rightarrow> feeder" where
  "dummy_feed clock pos f =
     (let ts = (case clock of Some t \<Rightarrow> t | None \<Rightarrow> (0, 0));
          f = FeedValue dummy_vss \<lparr>dp_timestamp = Some ts, dp_val = Float_value pos\<rparr> f
      in FeedValue dummy_vss_target \<lparr>dp_timestamp = None, dp_val = Float_value dummy_target_pos\<rparr> f)"

text \<open>\<open>active i\<close>: the flag at the \<open>i\<close>-th test of the loop condition.\<close>

fun dummy_loop ::
  "nat \<Rightarrow> (nat \<Rightarrow> bool) \<Rightarrow> (nat \<Rightarrow> (i64 \<times> i32) option) \<Rightarrow> nat \<Rightarrow> f32 \<Rightarrow> feeder \<Rightarrow> feeder option" where
  "dummy_loop 0 active clock i pos f = None"
| "dummy_loop (Suc fuel) active clock i pos f =
     (if active i \<and> less32 pos dummy_target_pos
      then dummy_loop fuel active clock (Suc i) (dummy_step pos) (dummy_feed (clock i) pos f)
      else Some f)"

definition FeedDummyData ::
  "nat \<Rightarrow> (nat \<Rightarrow> bool) \<Rightarrow> (nat \<Rightarrow> (i64 \<times> i32) option) \<Rightarrow> 'j adapter \<Rightarrow> 'j adapter option" where
  "FeedDummyData fuel running clock a =
     (case ad_feeder a of
        None \<Rightarrow> Some a
      | Some f \<Rightarrow>
          (case dummy_loop fuel (\<lambda>i. ad_feeder_active a \<and> running i) clock 0 0 f of
             Some f' \<Rightarrow> Some (a\<lparr>ad_feeder := Some f'\<rparr>)
           | None \<Rightarrow> None))"

section \<open>The adapter over time\<close>

inductive adapter_step :: "'j adapter \<Rightarrow> 'j adapter \<Rightarrow> bool" where
  ad_init_broker: "adapter_step a (snd (InitDataBrokerFeeder E addr tok config a))"
| ad_init_someip: "adapter_step a (snd (InitSomeipClient E file_exists config a))"
| ad_start: "\<not> ad_shutdown_requested a \<Longrightarrow> adapter_step a (adapter_Start a)"
| ad_shutdown: "adapter_step a (adapter_Shutdown same_thread a)"

definition adapter_init :: "'j adapter \<Rightarrow> bool" where
  "adapter_init a = (\<exists>E. a = new_adapter E)"

text \<open>A started thread has its object, and after a shutdown no thread is left to be joined.\<close>

definition adapter_inv :: "'j adapter \<Rightarrow> bool" where
  "adapter_inv a =
     ((ad_someip_thread a \<noteq> No_thread \<longrightarrow> ad_someip a \<noteq> None) \<and>
      (ad_feeder_thread a \<noteq> No_thread \<longrightarrow> ad_feeder a \<noteq> None) \<and>
      (ad_subscriber_thread a \<noteq> No_thread \<longrightarrow> ad_subscriber a \<noteq> None) \<and>
      (ad_shutdown_requested a \<longrightarrow> \<not> ad_feeder_active a \<and>
         ad_feeder_thread a \<noteq> Joinable \<and> ad_subscriber_thread a \<noteq> Joinable \<and> ad_someip_thread a \<noteq> Joinable) \<and>
      (\<not> ad_shutdown_requested a \<longrightarrow> ad_log a = []))"

section \<open>Lemmas\<close>

lemma note_act_fields [simp]:
  "ad_log (note_act x a) = ad_log a @ [x]" "ad_feeder_active (note_act x a) = ad_feeder_active a"
  "ad_feeder (note_act x a) = ad_feeder a" "ad_feeder_thread (note_act x a) = ad_feeder_thread a"
  "ad_subscriber (note_act x a) = ad_subscriber a" "ad_subscriber_thread (note_act x a) = ad_subscriber_thread a"
  "ad_someip (note_act x a) = ad_someip a" "ad_someip_thread (note_act x a) = ad_someip_thread a"
  "ad_shutdown_requested (note_act x a) = ad_shutdown_requested a"
  by (simp_all add: note_act_def)

lemma Shutdown_requested [simp]: "ad_shutdown_requested (adapter_Shutdown b a)"
  by (simp add: adapter_Shutdown_def Let_def)

lemma Shutdown_parts:
  "ad_someip (adapter_Shutdown b a) =
    (if ad_shutdown_requested a then ad_someip a else map_option client_Shutdown (ad_someip a))"
  "ad_feeder (adapter_Shutdown b a) =
    (if ad_shutdown_requested a \<or> ad_feeder_thread a = No_thread then ad_feeder a else map_option feeder_Shutdown (ad_feeder a))"
  "ad_subscriber (adapter_Shutdown b a) =
    (if ad_shutdown_requested a \<or> ad_subscriber_thread a = No_thread then ad_subscriber a
     else map_option sub_Shutdown (ad_subscriber a))"
  "ad_feeder_active (adapter_Shutdown b a) = (ad_shutdown_requested a \<and> ad_feeder_active a)"
  by (simp_all add: adapter_Shutdown_def Let_def)

lemma Shutdown_threads:
  "ad_someip_thread (adapter_Shutdown b a) =
    (if \<not> ad_shutdown_requested a \<and> ad_someip a \<noteq> None \<and> ad_someip_thread a = Joinable then Not_joinable
     else ad_someip_thread a)"
  "ad_feeder_thread (adapter_Shutdown b a) =
    (if \<not> ad_shutdown_requested a \<and> ad_feeder_thread a = Joinable then Not_joinable else ad_feeder_thread a)"
  "ad_subscriber_thread (adapter_Shutdown b a) =
    (if \<not> ad_shutdown_requested a \<and> ad_subscriber_thread a = Joinable then Not_joinable else ad_subscriber_thread a)"
  by (simp_all add: adapter_Shutdown_def Let_def)

lemma Shutdown_inv: "adapter_inv a \<Longrightarrow> adapter_inv (adapter_Shutdown b a)"
  by (auto simp: adapter_inv_def Shutdown_parts Shutdown_threads)

text \<open>
  The destructors that run when the program ends find nothing left to do after a shutdown of a
  started adapter: neither the adapter nor its parts change again.
\<close>

lemma destroy_after_shutdown:
  assumes "adapter_inv a" and "\<not> ad_shutdown_requested a"
    and "ad_feeder_thread a \<noteq> No_thread" and "ad_subscriber_thread a \<noteq> No_thread"
  shows "destroy_adapter (adapter_Shutdown b a) = adapter_Shutdown b a"
    and "map_option destroy_feeder (ad_feeder (adapter_Shutdown b a)) = ad_feeder (adapter_Shutdown b a)"
    and "map_option destroy_subscriber (ad_subscriber (adapter_Shutdown b a)) = ad_subscriber (adapter_Shutdown b a)"
    and "map_option destroy_SomeIPClient (ad_someip (adapter_Shutdown b a)) = ad_someip (adapter_Shutdown b a)"
proof -
  show "destroy_adapter (adapter_Shutdown b a) = adapter_Shutdown b a"
    by (simp add: destroy_adapter_def adapter_Shutdown_def [of False])
  have "ad_feeder (adapter_Shutdown b a) = map_option feeder_Shutdown (ad_feeder a)"
    "ad_subscriber (adapter_Shutdown b a) = map_option sub_Shutdown (ad_subscriber a)"
    "ad_someip (adapter_Shutdown b a) = map_option client_Shutdown (ad_someip a)"
    using assms by (simp_all add: Shutdown_parts)
  then show "map_option destroy_feeder (ad_feeder (adapter_Shutdown b a)) = ad_feeder (adapter_Shutdown b a)"
    and "map_option destroy_subscriber (ad_subscriber (adapter_Shutdown b a)) = ad_subscriber (adapter_Shutdown b a)"
    and "map_option destroy_SomeIPClient (ad_someip (adapter_Shutdown b a)) = ad_someip (adapter_Shutdown b a)"
    by (simp_all add: option.map_comp comp_def)
qed

lemma Start_inv: "adapter_inv a \<Longrightarrow> \<not> ad_shutdown_requested a \<Longrightarrow> adapter_inv (adapter_Start a)"
  by (auto simp: adapter_inv_def adapter_Start_def Let_def)

interpretation ad: invariant_system adapter_init adapter_step adapter_inv
proof unfold_locales
  show "adapter_inv a" if "adapter_init a" for a :: "'a adapter"
    using that by (auto simp: adapter_init_def new_adapter_def adapter_inv_def)
  show "adapter_inv b" if "adapter_inv a" "adapter_step a b" for a b :: "'a adapter"
    using that(2,1)
  proof (induction rule: adapter_step.induct)
    case (ad_init_broker a E addr tok config)
    then show ?case by (simp add: InitDataBrokerFeeder_def adapter_inv_def Let_def)
  next
    case (ad_init_someip a E file_exists config)
    then show ?case by (auto simp: InitSomeipClient_def adapter_inv_def Let_def)
  qed (simp_all add: Start_inv Shutdown_inv)
qed

lemma fold_append_map: "fold (\<lambda>x acc. acc @ [f x]) xs acc = acc @ map f xs"
  by (induction xs arbitrary: acc) simp_all

lemma feeder_metadata_names:
  "map dm_name (feeder_metadata ms) =
    map node_name (concat (map (\<lambda>m. if serviceType (metaData m) = ''Event'' then vssNodes m else []) ms))"
  unfolding feeder_metadata_def
  by (induction ms rule: rev_induct) (simp_all add: fold_append_map)

lemma actuator_list_names:
  "actuator_list ms =
    map node_name (concat (map (\<lambda>m. if serviceType (metaData m) = ''Method'' then vssNodes m else []) ms))"
  unfolding actuator_list_def
  by (induction ms rule: rev_induct) (simp_all add: fold_append_map)

lemma feeder_metadata_initial:
  "d \<in> set (feeder_metadata ms) \<Longrightarrow> dm_initial_value d = createNotAvailableValue"
  unfolding feeder_metadata_def
  by (induction ms rule: rev_induct) (auto simp: fold_append_map split: if_splits)

text \<open>The dummy loop.\<close>

lemma dummy_loop_returns:
  assumes "j < fuel" and "\<not> less32 ((dummy_step ^^ j) pos) dummy_target_pos"
  shows "\<exists>f'. dummy_loop fuel active clock i pos f = Some f'"
  using assms
proof (induction fuel arbitrary: i pos f j)
  case (Suc fuel)
  show ?case
  proof (cases j)
    case (Suc k)
    then have "k < fuel" "\<not> less32 ((dummy_step ^^ k) (dummy_step pos)) dummy_target_pos"
      using Suc.prems by (simp_all add: funpow_swap1)
    from Suc.IH [OF this] show ?thesis by simp
  qed (use Suc.prems in simp)
qed simp

text \<open>The positions of the loop, until the first that is not below the target.\<close>

definition dummy_positions :: "f32 list" where
  "dummy_positions =
    [0, 0x4048F5C3, 0x40C8F5C3, 0x4116B852, 0x4148F5C3, 0x417B3334, 0x4196B852, 0x41AFD70A,
     0x41C8F5C2, 0x41E2147A, 0x41FB3332, 0x420A28F5, 0x4216B851, 0x422347AD, 0x422FD709, 0x423C6665,
     0x4248F5C1, 0x4255851D, 0x42621479, 0x426EA3D5, 0x427B3331, 0x4283E147, 0x428A28F5, 0x429070A3,
     0x4296B851, 0x429CFFFF, 0x42A347AD, 0x42A98F5B, 0x42AFD709, 0x42B61EB7, 0x42BC6665, 0x42C2AE13,
     0x42C8F5C1, 0x42CF3D6F, 0x42D5851D, 0x42DBCCCB, 0x42E21479]"

lemma dummy_positions_steps: "map dummy_step (butlast dummy_positions) = tl dummy_positions"
  by code_simp

lemma dummy_positions_nth: "i < length dummy_positions \<Longrightarrow> (dummy_step ^^ i) 0 = dummy_positions ! i"
proof (induction i)
  case 0
  then show ?case by (simp add: dummy_positions_def)
next
  case (Suc i)
  then have "dummy_step (dummy_positions ! i) = map dummy_step (butlast dummy_positions) ! i"
    by (simp add: nth_butlast)
  also have "\<dots> = dummy_positions ! Suc i"
    unfolding dummy_positions_steps using Suc.prems by (simp add: nth_tl)
  finally show ?case using Suc by simp
qed

lemma dummy_positions_end: "\<not> less32 ((dummy_step ^^ 36) 0) dummy_target_pos"
proof -
  have "\<not> less32 (last dummy_positions) dummy_target_pos" by code_simp
  then show ?thesis by (subst dummy_positions_nth) (simp_all add: dummy_positions_def)
qed

lemma dummy_feed_stored:
  "feeder_active f \<Longrightarrow> feeder_active (dummy_feed c pos f) \<and>
    map_of (stored_values (dummy_feed c pos f)) dummy_vss =
      Some \<lparr>dp_timestamp = None, dp_val = Float_value dummy_target_pos\<rparr>"
  by (simp add: dummy_feed_def Let_def fs.feed_keeps_open fs.feed_value dummy_vss_def dummy_vss_target_def)

lemma dummy_loop_stored:
  assumes "dummy_loop fuel active clock i pos f = Some f'" and "feeder_active f"
  shows "f' = f \<or> map_of (stored_values f') dummy_vss =
    Some \<lparr>dp_timestamp = None, dp_val = Float_value dummy_target_pos\<rparr>"
  using assms
proof (induction fuel arbitrary: i pos f)
  case (Suc fuel)
  show ?case
  proof (cases "active i \<and> less32 pos dummy_target_pos")
    case True
    from dummy_feed_stored [OF Suc.prems(2)] Suc.IH [of "Suc i" "dummy_step pos" "dummy_feed (clock i) pos f"]
      Suc.prems(1) True show ?thesis by auto
  qed (use Suc.prems in auto)
qed simp

section \<open>Properties\<close>

text \<open>
  C15. Shutdown of the adapter: in every reachable state, \<open>Shutdown\<close> stops every part that was
  started before it joins any thread, in the order subscriber, feeder, SOME/IP client; it joins
  (or, called from the SOME/IP thread, detaches) every joinable thread exactly once; afterwards
  no thread is joinable, and a second call changes nothing.
\<close>

theorem adapter_shutdown:
  assumes "reach adapter_init adapter_step a" and "\<not> ad_shutdown_requested a"
  shows "ad_log (adapter_Shutdown same a) =
      (if ad_subscriber_thread a \<noteq> No_thread then [Stop_subscriber] else []) @
      (if ad_feeder_thread a \<noteq> No_thread then [Stop_feeder] else []) @
      (if ad_someip a \<noteq> None then [Stop_someip] else []) @
      (if ad_someip_thread a = Joinable then [if same then Detach_someip else Join_someip] else []) @
      (if ad_feeder_thread a = Joinable then [Join_feeder] else []) @
      (if ad_subscriber_thread a = Joinable then [Join_subscriber] else []) \<and>
    Joinable \<notin> {ad_feeder_thread (adapter_Shutdown same a), ad_subscriber_thread (adapter_Shutdown same a),
      ad_someip_thread (adapter_Shutdown same a)} \<and>
    adapter_Shutdown other (adapter_Shutdown same a) = adapter_Shutdown same a"
proof (intro conjI)
  have i: "adapter_inv a" by (rule ad.reach_inv [OF assms(1)])
  show "ad_log (adapter_Shutdown same a) =
      (if ad_subscriber_thread a \<noteq> No_thread then [Stop_subscriber] else []) @
      (if ad_feeder_thread a \<noteq> No_thread then [Stop_feeder] else []) @
      (if ad_someip a \<noteq> None then [Stop_someip] else []) @
      (if ad_someip_thread a = Joinable then [if same then Detach_someip else Join_someip] else []) @
      (if ad_feeder_thread a = Joinable then [Join_feeder] else []) @
      (if ad_subscriber_thread a = Joinable then [Join_subscriber] else [])"
    using i assms(2)
    by (cases "ad_feeder_thread a"; cases "ad_subscriber_thread a"; cases "ad_someip_thread a")
       (auto simp: adapter_inv_def adapter_Shutdown_def Let_def)
  show "Joinable \<notin> {ad_feeder_thread (adapter_Shutdown same a), ad_subscriber_thread (adapter_Shutdown same a),
      ad_someip_thread (adapter_Shutdown same a)}"
    using Shutdown_inv [OF i, of same] by (auto simp: adapter_inv_def)
  show "adapter_Shutdown other (adapter_Shutdown same a) = adapter_Shutdown same a"
    using Shutdown_requested [of same a] by (simp add: adapter_Shutdown_def [of other])
qed

text \<open>An adapter that has been initialised, with SOME/IP available, and started.\<close>

definition started_adapter :: "jv SomeIPConfig \<Rightarrow> jv adapter" where
  "started_adapter config =
     adapter_Start (snd (InitSomeipClient [''VSOMEIP_APPLICATION_NAME'' \<mapsto> ''feeder'',
         ''VSOMEIP_CONFIGURATION'' \<mapsto> ''feeder.json''] (\<lambda>_. True) config
       (snd (InitDataBrokerFeeder Map.empty ''localhost:55555'' [] config (new_adapter Map.empty)))))"

lemma started_adapter_reach: "reach adapter_init adapter_step (started_adapter config)"
proof -
  have r: "reach adapter_init adapter_step a \<Longrightarrow> adapter_step a b \<Longrightarrow> reach adapter_init adapter_step b"
    for a b :: "jv adapter" by (erule reach_step)
  have "reach adapter_init adapter_step (new_adapter Map.empty :: jv adapter)"
    by (rule reach_init) (auto simp: adapter_init_def)
  note i = r [OF r [OF this ad_init_broker] ad_init_someip]
  let ?c = "snd (InitSomeipClient [''VSOMEIP_APPLICATION_NAME'' \<mapsto> ''feeder'',
         ''VSOMEIP_CONFIGURATION'' \<mapsto> ''feeder.json''] (\<lambda>_. True) config
       (snd (InitDataBrokerFeeder Map.empty ''localhost:55555'' [] config (new_adapter Map.empty))))"
  have "\<not> ad_shutdown_requested ?c"
    by (simp add: InitSomeipClient_def InitDataBrokerFeeder_def new_adapter_def Let_def)
  then show ?thesis unfolding started_adapter_def by (rule r [OF i ad_start])
qed

theorem adapter_shutdown_witness:
  "ad_log (adapter_Shutdown False (started_adapter (ev_config ev_sample))) =
    [Stop_subscriber, Stop_feeder, Stop_someip, Join_someip, Join_feeder, Join_subscriber]"
proof -
  let ?a = "started_adapter (ev_config ev_sample)"
  have t: "ad_subscriber_thread ?a = Joinable" "ad_feeder_thread ?a = Joinable" "ad_someip_thread ?a = Joinable"
    "ad_someip ?a \<noteq> None" and n: "\<not> ad_shutdown_requested ?a"
    by (simp_all add: started_adapter_def adapter_Start_def InitSomeipClient_def InitDataBrokerFeeder_def
        new_adapter_def Let_def)
  from adapter_shutdown [OF started_adapter_reach n, of False False] t show ?thesis by simp
qed

text \<open>
  C35. What is registered and subscribed: \<open>InitDataBrokerFeeder\<close> configures one data point, not
  available at first, for every node of every event mapping, in order, and one actuator for every
  node of every method mapping; so every name a SOME/IP message can feed is registered, and every
  node an actuator change can concern is subscribed.
\<close>

theorem InitDataBrokerFeeder_covers:
  assumes "InitDataBrokerFeeder E addr tok config a = (ok, a')"
  shows "\<exists>f s. ad_feeder a' = Some f \<and> ad_subscriber a' = Some s \<and>
    (\<forall>d \<in> set (dp_config f). dm_initial_value d = createNotAvailableValue) \<and>
    node_name ` set (event_nodes config svc inst m) \<subseteq> set (map dm_name (dp_config f)) \<and>
    (\<lambda>(md, n, v). node_name n) ` set (hits t (VSSMap config)) \<subseteq> set (actuators s)"
proof -
  let ?c = "new_CollectorClient E addr tok"
  let ?f = "new_feeder ?c (feeder_metadata (VSSMap config))"
  let ?s = "sub_Init (actuator_list (VSSMap config)) True (new_subscriber ?c)"
  have "node_name ` set (event_nodes config svc inst m) \<subseteq> set (map dm_name (dp_config ?f))"
    by (auto simp: event_nodes_def new_feeder_def feeder_metadata_names split: if_splits)
  moreover have "(\<lambda>(md, n, v). node_name n) ` set (hits t (VSSMap config)) \<subseteq> set (actuators ?s)"
    by (auto simp: hits_def sub_Init_def actuator_list_names split: if_splits option.splits)
  moreover have "\<forall>d \<in> set (dp_config ?f). dm_initial_value d = createNotAvailableValue"
    using feeder_metadata_initial by (auto simp: new_feeder_def)
  moreover have "ad_feeder a' = Some ?f" "ad_subscriber a' = Some ?s"
    using assms by (auto simp: InitDataBrokerFeeder_def Let_def)
  ultimately show ?thesis by blast
qed

theorem InitDataBrokerFeeder_covers_witness:
  "\<exists>f. ad_feeder (snd (InitDataBrokerFeeder Map.empty [] [] (ev_config ev_sample) (new_adapter Map.empty))) = Some f \<and>
    {''Vehicle.Speed'', ''Vehicle.Mode''} \<subseteq> set (map dm_name (dp_config f))"
proof -
  have n: "node_name ` set (event_nodes (ev_config ev_sample) 0x60D0 1 0x8001) = {''Vehicle.Speed'', ''Vehicle.Mode''}"
    unfolding ev_sample_nodes by (simp add: ev_sample_def ev_node_def)
  from InitDataBrokerFeeder_covers [OF surjective_pairing, of Map.empty "[]" "[]" "ev_config ev_sample"
      "new_adapter Map.empty" "0x60D0" 1 "0x8001" "[]"]
  show ?thesis unfolding n by blast
qed

text \<open>
  The dummy feeder: its loop always ends, within 37 tests of its condition. It feeds nothing
  at all unless the adapter has been started, and after every round the queue holds the target
  110 for the position, because target and position have the same name.
\<close>

theorem FeedDummyData_ends:
  assumes "ad_feeder a = Some f" and "feeder_active f"
  shows "\<exists>f'. FeedDummyData 37 running clock a = Some (a\<lparr>ad_feeder := Some f'\<rparr>) \<and>
    (ad_feeder_active a \<or> f' = f) \<and>
    (f' = f \<or> map_of (stored_values f') dummy_vss = Some \<lparr>dp_timestamp = None, dp_val = Float_value dummy_target_pos\<rparr>)"
proof -
  have "(36::nat) < 37" by simp
  from dummy_loop_returns [OF this dummy_positions_end] obtain f' where
    f': "dummy_loop 37 (\<lambda>i. ad_feeder_active a \<and> running i) clock 0 0 f = Some f'" by blast
  have "f' = f" if "\<not> ad_feeder_active a" using f' that by (simp add: numeral_eq_Suc)
  with f' dummy_loop_stored [OF f' assms(2)] assms(1) show ?thesis by (auto simp: FeedDummyData_def)
qed

theorem FeedDummyData_ends_witness:
  "\<exists>f'. FeedDummyData 37 (\<lambda>_. True) (\<lambda>_. None) (snd (InitDataBrokerFeeder Map.empty [] [] (ev_config []) (new_adapter Map.empty))) =
    Some ((snd (InitDataBrokerFeeder Map.empty [] [] (ev_config []) (new_adapter Map.empty)))\<lparr>ad_feeder := Some f'\<rparr>)
    \<and> stored_values f' = []"
proof -
  let ?a = "snd (InitDataBrokerFeeder Map.empty [] [] (ev_config []) (new_adapter Map.empty)) :: jv adapter"
  let ?f = "new_feeder (new_CollectorClient Map.empty [] []) (feeder_metadata (VSSMap (ev_config [])))"
  have "ad_feeder ?a = Some ?f" and "feeder_active ?f" and "\<not> ad_feeder_active ?a" and "stored_values ?f = []"
    by (simp_all add: InitDataBrokerFeeder_def new_adapter_def new_feeder_def Let_def)
  with FeedDummyData_ends [OF this(1,2), of "\<lambda>_. True" "\<lambda>_. None"] show ?thesis by metis
qed

end
