(* ===== verification/Feeder_Main.thy ===== *)
theory Feeder_Main
  imports Adapter
begin

text \<open>
  The program \<^verbatim>\<open>someip_feeder/main.cc\<close>: the command line, the token file, and \<open>main\<close>.

  The environment, the sizes of files (\<open>stat_size\<close>), what opening a file for reading and writing
  gives (\<open>open_rw\<close>: its contents, or \<open>None\<close> if it does not exist or lacks one of the permissions), the
  mapping file behind \<open>open_file\<close> and \<open>parse\<close>, and the existence of the vsomeip
  configuration are arguments; so are the results of \<open>pipe\<close> and \<open>fcntl\<close>, the signals the
  process receives and, for each, what the successive calls of \<open>write\<close> in the signal handler
  return, and whether \<open>read\<close> fails. A run ends with an exit code, with an exception nobody catches, or after the dummy feeder
  has returned or the adapter has been shut down; or it waits for a signal that does not come.
  Output is left out, except for the help text.
\<close>

record options =
  target_str :: string
  token_file_str :: string
  someip_config :: string
  someip_app :: string

definition default_options :: "env \<Rightarrow> options" where
  "default_options E =
     \<lparr>target_str = getEnvironmentStr E ''BROKER_ADDR'' ''localhost:55555'',
      token_file_str = getEnvironmentStr E ''BROKER_TOKEN_FILE'' [],
      someip_config = [], someip_app = []\<rparr>"

text \<open>The loop over the arguments; \<open>Inl\<close> is a call of \<open>exit\<close>.\<close>

fun parse_args :: "string list \<Rightarrow> options \<Rightarrow> int + options" where
  "parse_args [] opts = Inr opts"
| "parse_args (arg_val # rest) opts =
     (if arg_val = ''--help'' then Inl 0
      else if arg_val = ''--someip-cfg'' \<and> rest \<noteq> [] then
        (case rest of v # rest \<Rightarrow> parse_args rest (opts\<lparr>someip_config := v\<rparr>) | [] \<Rightarrow> Inl 1)
      else if arg_val = ''--someip-app'' \<and> rest \<noteq> [] then
        (case rest of v # rest \<Rightarrow> parse_args rest (opts\<lparr>someip_app := v\<rparr>) | [] \<Rightarrow> Inl 1)
      else if arg_val = ''--token'' \<and> rest \<noteq> [] then
        (case rest of v # rest \<Rightarrow> parse_args rest (opts\<lparr>token_file_str := v\<rparr>) | [] \<Rightarrow> Inl 1)
      else
        (case find_sub ''--target'' arg_val of
           Some start_pos \<Rightarrow>
             let start_pos = start_pos + length ''--target''
             in if start_pos < length arg_val \<and> arg_val ! start_pos = CHR ''=''
                then parse_args rest (opts\<lparr>target_str := drop (start_pos + 1) arg_val\<rparr>)
                else Inl 1
         | None \<Rightarrow> Inl 1))"

definition get_file_size :: "(string \<Rightarrow> nat option) \<Rightarrow> string \<Rightarrow> bool \<times> nat" where
  "get_file_size stat_size fname =
     (case stat_size fname of None \<Rightarrow> (False, 0) | Some n \<Rightarrow> (True, n))"

text \<open>
  The default mode of the \<open>fstream\<close> opens the file for reading and writing; a stream that is not
  open puts nothing into the string stream.
\<close>

definition read_file :: "(string \<Rightarrow> string option) \<Rightarrow> string \<Rightarrow> string" where
  "read_file open_rw fname = (case open_rw fname of Some contents \<Rightarrow> contents | None \<Rightarrow> [])"

text \<open>The lines of the help text.\<close>

definition print_help :: "string \<Rightarrow> string list" where
  "print_help app =
     [''Usage: '' @ app @ '' <OPTIONS>'',
      '''',
      ''OPTIONS:'',
      ''  --target=<ip>:<port>            Databroker address. [Default: localhost:55555].'' @ [CHR 0x27],
      ''  --someip-cfg <config.json>      Specify vsomeip json configuration file.'',
      ''  --someip-app <ApplicationName>  Specify vsomeip Application name.'',
      ''  --dummy-feeder                  Feed some dummy data to Databroker and exit.'',
      ''  --token <FILE>                  Use token from specified file to authorize with Databroker.'',
      ''  --help                          This message.'',
      '''',
      '''',
      ''Environment variables (if not set by command line arguments):'',
      ''  BROKER_ADDR               Override Databroker address (host:port)'',
      ''  BROKER_TOKEN_FILE         Use token from specified file to authorize with Databroker.'',
      ''  BROKER_TOKEN              Use value as token to authorize with Databroker.'',
      ''  VSOMEIP_CONFIGURATION     Specify vsomeip json configuration file.'',
      ''  FEEDER_CONFIGURATION      Feeder configuration for mapping service to vss'',
      ''  VSOMEIP_APPLICATION_NAME  Specify vsomeip application name.'',
      ''  SOMEIP_CLI_DEBUG          SOME/IP Client debug level [0=OFF, 1=INFO, 2=DEBUG, 3=TRACE]'',
      ''  DBF_DEBUG                 Databroker Feeder debug levels [0=OFF, 1=INFO, 2=DEBUG, 3=TRACE]'',
      ''  KUKSA_DEBUG               Kuksa/GRPC debug levels [0=OFF, 1=INFO, 2=DEBUG, 3=TRACE]'',
      ''  WIPER_STATUS              0=disable printing of Wiper event status lines, 1=normal printing (default), 2=same line printing.'',
      '''']"

definition load_token :: "(string \<Rightarrow> nat option) \<Rightarrow> (string \<Rightarrow> string option) \<Rightarrow> string \<Rightarrow> int + string" where
  "load_token stat_size open_rw fname =
     (if fname \<noteq> [] then
        let (ok, token_size) = get_file_size stat_size fname in
        if \<not> ok then Inl 1
        else if token_size = 0 \<or> 16000 < token_size then Inl 1
        else Inr (read_file open_rw fname)
      else Inr [])"

text \<open>Command-line options for vsomeip override configuration and environment.\<close>

definition override_env :: "options \<Rightarrow> env \<Rightarrow> env" where
  "override_env opts E =
     (let E = (if someip_config opts \<noteq> [] then E(''VSOMEIP_CONFIGURATION'' \<mapsto> someip_config opts) else E)
      in if someip_app opts \<noteq> [] then E(''VSOMEIP_APPLICATION_NAME'' \<mapsto> someip_app opts) else E)"

definition override_config :: "options \<Rightarrow> 'j SomeIPConfig \<Rightarrow> 'j SomeIPConfig" where
  "override_config opts config =
     (let config = (if someip_config opts \<noteq> [] then config\<lparr>app_config := someip_config opts\<rparr> else config)
      in if someip_app opts \<noteq> [] then config\<lparr>app_name := someip_app opts\<rparr> else config)"

section \<open>Signals\<close>

text \<open>
  The self pipe: the handler writes the signal's number into it, again if it was interrupted, and
  gives up on any other error. \<open>wait_for_signal\<close> makes one call of \<open>read\<close>, which blocks, here
  \<open>None\<close>, while the pipe is empty, unless it returns an error or the end of the file; the function
  returns in each of the three cases.
\<close>

datatype write_result = Written | Interrupted | Write_error

fun signal_handler :: "int \<Rightarrow> write_result list \<Rightarrow> int list \<Rightarrow> int list" where
  "signal_handler sig (Written # ws) pipe = pipe @ [sig]"
| "signal_handler sig (Interrupted # ws) pipe = signal_handler sig ws pipe"
| "signal_handler sig (Write_error # ws) pipe = pipe"
| "signal_handler sig [] pipe = pipe"

datatype read_fault = Read_error | Read_eof

datatype wait_result = Received_signal int | Wait_read_error | Unexpected_eof

definition wait_for_signal :: "read_fault option \<Rightarrow> int list \<Rightarrow> wait_result option" where
  "wait_for_signal fault pipe =
     (case fault of
        Some Read_error \<Rightarrow> Some Wait_read_error
      | Some Read_eof \<Rightarrow> Some Unexpected_eof
      | None \<Rightarrow> (case pipe of [] \<Rightarrow> None | sig # r \<Rightarrow> Some (Received_signal sig)))"

text \<open>A successful \<open>pipe\<close> gives an empty pipe; a failure of either call is exit code 1.\<close>

definition setup_signal_handler :: "bool \<Rightarrow> bool \<Rightarrow> int + int list" where
  "setup_signal_handler pipe_ok fcntl_ok =
     (if \<not> pipe_ok then Inl 1 else if \<not> fcntl_ok then Inl 1 else Inr [])"

datatype 'j main_result =
    Exit int
  | Uncaught cpp_error
  | Waiting_for_signal "'j adapter"
  | Ended bool "'j adapter option"

record 'j world =
  w_env :: env
  w_stat :: "string \<Rightarrow> nat option"
  w_open_rw :: "string \<Rightarrow> string option"
  w_exists :: "string \<Rightarrow> bool"
  w_mapping :: "string \<Rightarrow> 'j option option"
  w_clock :: "nat \<Rightarrow> (i64 \<times> i32) option"
  w_pipe :: bool
  w_fcntl :: bool
  w_signals :: "(int \<times> write_result list) list"
  w_read_fault :: "read_fault option"

text \<open>\<open>AdapterRun\<close>: started, and shut down from the main thread when \<open>wait_for_signal\<close> has returned.\<close>

definition AdapterRun :: "'j world \<Rightarrow> 'j adapter \<Rightarrow> 'j main_result" where
  "AdapterRun W a =
     (case setup_signal_handler (w_pipe W) (w_fcntl W) of
        Inl code \<Rightarrow> Exit code
      | Inr pipe \<Rightarrow>
          let a = adapter_Start a
          in case wait_for_signal (w_read_fault W) (fold (\<lambda>(sig, ws). signal_handler sig ws) (w_signals W) pipe) of
               None \<Rightarrow> Waiting_for_signal a
             | Some _ \<Rightarrow> Ended False (Some (adapter_Shutdown False a)))"

text \<open>\<open>Ended dummy a\<close>: the final adapter, after the dummy feeder or after a run.\<close>

definition main_body ::
  "'j json \<Rightarrow> u8 \<Rightarrow> u32 \<Rightarrow> 'j world \<Rightarrow> options \<Rightarrow> string \<Rightarrow> 'j SomeIPConfig \<Rightarrow> 'j main_result" where
  "main_body J any_major any_minor W opts token_str config =
     (let E = override_env opts (w_env W);
          config = override_config opts config;
          a = snd (InitDataBrokerFeeder E (target_str opts) token_str config (new_adapter (w_env W)));
          (ok, a) = InitSomeipClient E (w_exists W) config a;
          use_dummy_feeder = \<not> ok
      in if use_dummy_feeder then Ended True (FeedDummyData 37 (\<lambda>_. True) (w_clock W) a)
         else AdapterRun W a)"

definition feeder_main ::
  "'j json \<Rightarrow> u8 \<Rightarrow> u32 \<Rightarrow> 'j world \<Rightarrow> string list \<Rightarrow> 'j main_result" where
  "feeder_main J any_major any_minor W args =
     (case parse_args args (default_options (w_env W)) of
        Inl code \<Rightarrow> Exit code
      | Inr opts \<Rightarrow>
          (case load_token (w_stat W) (w_open_rw W) (token_file_str opts) of
             Inl code \<Rightarrow> Exit code
           | Inr token_str \<Rightarrow>
               (case createEnvConfig J (w_mapping W) (\<lambda>x. x) any_major any_minor (w_env W) of
                  Inl e \<Rightarrow> Uncaught e
                | Inr config \<Rightarrow> main_body J any_major any_minor W opts token_str config)))"

section \<open>Lemmas\<close>

lemma find_sub_prefix: "find_sub pat (pat @ s) = Some 0"
proof (cases "pat @ s")
  case (Cons a list)
  then have "take (length pat) (a # list) = pat" by (metis append_eq_conv_conj)
  with Cons show ?thesis by simp
qed simp

lemma parse_args_target:
  "parse_args ((''--target='' @ t) # rest) opts = parse_args rest (opts\<lparr>target_str := t\<rparr>)"
  using find_sub_prefix [of "''--target''" "CHR ''='' # t"] by (simp add: Let_def)

definition someip_available :: "env \<Rightarrow> (string \<Rightarrow> bool) \<Rightarrow> bool" where
  "someip_available E file_exists =
     (E ''VSOMEIP_APPLICATION_NAME'' \<noteq> None \<and>
      (case E ''VSOMEIP_CONFIGURATION'' of None \<Rightarrow> False | Some f \<Rightarrow> file_exists f))"

lemma InitSomeipClient_ok: "fst (InitSomeipClient E file_exists config a) = someip_available E file_exists"
  by (simp add: InitSomeipClient_def someip_available_def Let_def split: option.split)

lemma InitSomeipClient_frame:
  "ad_feeder (snd (InitSomeipClient E x config a)) = ad_feeder a"
  "ad_feeder_active (snd (InitSomeipClient E x config a)) = ad_feeder_active a"
  by (simp_all add: InitSomeipClient_def Let_def)

lemma run_feeder:
  assumes "ad_feeder a = Some f" and "\<not> ad_shutdown_requested a"
  shows "ad_feeder (adapter_Shutdown False (adapter_Start a)) = Some (feeder_Shutdown f) \<and>
    ad_shutdown_requested (adapter_Shutdown False (adapter_Start a)) \<and> \<not> feeder_active (feeder_Shutdown f)"
  using assms
  by (simp add: adapter_Start_def adapter_Shutdown_def feeder_Shutdown_def Let_def)

definition signal_delivered :: "write_result list \<Rightarrow> bool" where
  "signal_delivered ws = (case dropWhile (\<lambda>w. w = Interrupted) ws of Written # _ \<Rightarrow> True | _ \<Rightarrow> False)"

lemma signal_handler_pipe: "signal_handler sig ws pipe = (if signal_delivered ws then pipe @ [sig] else pipe)"
  by (induction sig ws pipe rule: signal_handler.induct) (simp_all add: signal_delivered_def)

lemma pipe_empty_iff:
  "fold (\<lambda>(sig, ws). signal_handler sig ws) sigs pipe = [] \<longleftrightarrow> pipe = [] \<and> \<not> (\<exists>x \<in> set sigs. signal_delivered (snd x))"
  by (induction sigs arbitrary: pipe) (auto simp: signal_handler_pipe split: prod.splits)

lemma AdapterRun_eq:
  "AdapterRun W a =
    (if \<not> (w_pipe W \<and> w_fcntl W) then Exit 1
     else if w_read_fault W \<noteq> None \<or> (\<exists>x \<in> set (w_signals W). signal_delivered (snd x)) then Ended False (Some (adapter_Shutdown False (adapter_Start a)))
     else Waiting_for_signal (adapter_Start a))"
  using pipe_empty_iff [of "w_signals W" "[]"]
  by (auto simp: AdapterRun_def setup_signal_handler_def wait_for_signal_def Let_def
      split: list.splits option.splits read_fault.splits)

section \<open>Properties\<close>

text \<open>
  The command line is read back: options given in any of the documented forms end up in the
  options of the run, later ones overriding the environment; the documented option
  \<open>--dummy-feeder\<close> and an option without its value end the program with exit code 1.
\<close>

theorem parse_args_reads_options:
  "parse_args [''--target='' @ t, ''--someip-cfg'', c, ''--someip-app'', a, ''--token'', k] opts =
     Inr (opts\<lparr>target_str := t, someip_config := c, someip_app := a, token_file_str := k\<rparr>) \<and>
   parse_args (''--dummy-feeder'' # rest) opts = Inl 1 \<and>
   parse_args [''--token''] opts = Inl 1 \<and> parse_args [''--target''] opts = Inl 1"
  by (simp only: parse_args_target) simp

text \<open>
  A token file is used only if it can be inspected and holds between 1 and 16000 bytes;
  otherwise the program ends with exit code 1 before anything is connected. Without a file the
  token is empty.
\<close>

theorem token_file_checked:
  "load_token stat_size open_rw fname =
    (if fname = [] then Inr []
     else if \<exists>n \<in> {1..16000}. stat_size fname = Some n then Inr (read_file open_rw fname) else Inl 1) \<and>
   (parse_args args (default_options (w_env W)) = Inr opts \<and>
    load_token (w_stat W) (w_open_rw W) (token_file_str opts) = Inl code \<longrightarrow>
      feeder_main J any_major any_minor W args = Exit code)"
  by (auto simp: load_token_def get_file_size_def feeder_main_def split: option.splits)

definition empty_world :: "jv world" where
  "empty_world = \<lparr>w_env = Map.empty, w_stat = (\<lambda>_. None), w_open_rw = (\<lambda>_. None), w_exists = (\<lambda>_. False),
     w_mapping = (\<lambda>_. None), w_clock = (\<lambda>_. None), w_pipe = True, w_fcntl = True, w_signals = [],
     w_read_fault = None\<rparr>"

theorem token_file_checked_witness:
  "feeder_main jv_json 0 0 empty_world [''--token'', ''missing.txt''] = Exit 1"
proof -
  let ?o = "(default_options (w_env empty_world))\<lparr>token_file_str := ''missing.txt''\<rparr>"
  have "parse_args [''--token'', ''missing.txt''] (default_options (w_env empty_world)) = Inr ?o" by simp
  moreover have "load_token (w_stat empty_world) (w_open_rw empty_world) (token_file_str ?o) = Inl 1"
    by (simp add: load_token_def get_file_size_def empty_world_def)
  ultimately show ?thesis using token_file_checked by blast
qed

text \<open>
  The help text offers \<open>--dummy-feeder\<close>, which the program rejects.
\<close>

lemma help_offers_dummy_feeder:
  "\<exists>line \<in> set (print_help app). find_sub ''--dummy-feeder'' line = Some 2 \<and> parse_args (''--dummy-feeder'' # rest) opts = Inl 1"
  by (rule bexI [of _ "print_help app ! 6"]) (simp_all add: print_help_def)

text \<open>
  C26. A token file that can be inspected and has an acceptable size, but cannot be opened for writing,
  is silently ignored: the program goes on with an empty token, and unless \<open>BROKER_TOKEN\<close> gives
  another one its calls to the broker carry no authorization at all. A token file that can be
  opened is used as it is.
\<close>

theorem token_file_must_be_writable:
  assumes "parse_args args (default_options (w_env W)) = Inr opts" and "token_file_str opts \<noteq> []"
    and "w_stat W (token_file_str opts) = Some n" and "1 \<le> n" and "n \<le> 16000"
    and "createEnvConfig J (w_mapping W) (\<lambda>x. x) any_major any_minor (w_env W) = Inr config"
  shows "feeder_main J any_major any_minor W args =
      main_body J any_major any_minor W opts (case w_open_rw W (token_file_str opts) of Some t \<Rightarrow> t | None \<Rightarrow> []) config \<and>
    map_of (cl_metadata (new_CollectorClient E addr (read_file (w_open_rw W) (token_file_str opts)))) ''authorization'' =
      (case w_open_rw W (token_file_str opts) of
         Some (c # t) \<Rightarrow> Some (''Bearer '' @ c # t)
       | _ \<Rightarrow> if getEnvVar E ''BROKER_TOKEN'' [] = [] then None else Some (''Bearer '' @ getEnvVar E ''BROKER_TOKEN'' []))"
proof -
  have "load_token (w_stat W) (w_open_rw W) (token_file_str opts) =
      Inr (case w_open_rw W (token_file_str opts) of Some t \<Rightarrow> t | None \<Rightarrow> [])"
    using assms(2-5) by (simp add: load_token_def get_file_size_def read_file_def)
  then show ?thesis
    using assms(1,6)
    by (simp add: feeder_main_def read_file_def new_CollectorClient_def getGrpcMetadata_def Let_def
        split: option.split list.split)
qed

theorem token_file_must_be_writable_witness:
  "\<exists>config. feeder_main jv_json 0xFF 0xFFFFFFFF (empty_world\<lparr>w_stat := (\<lambda>_. Some 200)\<rparr>) [''--token'', ''secret.txt''] =
    main_body jv_json 0xFF 0xFFFFFFFF (empty_world\<lparr>w_stat := (\<lambda>_. Some 200)\<rparr>)
      ((default_options Map.empty)\<lparr>token_file_str := ''secret.txt''\<rparr>) [] config"
proof -
  let ?W = "empty_world\<lparr>w_stat := (\<lambda>_. Some 200)\<rparr>"
  let ?o = "(default_options Map.empty)\<lparr>token_file_str := ''secret.txt''\<rparr>"
  have p: "parse_args [''--token'', ''secret.txt''] (default_options (w_env ?W)) = Inr ?o"
    by (simp add: empty_world_def)
  have t: "token_file_str ?o \<noteq> []" "w_stat ?W (token_file_str ?o) = Some 200" by simp_all
  obtain config where c: "createEnvConfig jv_json (w_mapping ?W) (\<lambda>x. x) 0xFF 0xFFFFFFFF (w_env ?W) = Inr config"
    by (simp add: createEnvConfig_def getjsonConfig_def empty_world_def Let_def)
  have "w_open_rw ?W (token_file_str ?o) = None" by (simp add: empty_world_def)
  with token_file_must_be_writable [OF p t _ _ c] show ?thesis by auto
qed

text \<open>
  C25. What the program does when the arguments, the token and the mapping file are accepted.
  Without SOME/IP, that is when the vsomeip variables (from the environment or the command line)
  or the configuration file are missing, it runs the dummy feeder, which returns with an empty
  queue because the adapter was never started. Otherwise it ends with exit code 1 if the self pipe
  cannot be set up, and else starts the adapter and shuts it down exactly if the handler of some
  signal has got its byte into the pipe, retrying after interruptions, or reading the pipe fails
  or meets its end; the signal may arrive before the program waits. In the remaining case it waits
  with the adapter running.
\<close>

theorem feeder_main_outcome:
  assumes "parse_args args (default_options (w_env W)) = Inr opts"
    and "load_token (w_stat W) (w_open_rw W) (token_file_str opts) = Inr token"
    and "createEnvConfig J (w_mapping W) (\<lambda>x. x) any_major any_minor (w_env W) = Inr config"
  shows "if \<not> someip_available (override_env opts (w_env W)) (w_exists W)
    then (\<exists>a f. feeder_main J any_major any_minor W args = Ended True (Some a) \<and>
      ad_feeder a = Some f \<and> stored_values f = [] \<and> feeder_active f)
    else if \<not> (w_pipe W \<and> w_fcntl W) then feeder_main J any_major any_minor W args = Exit 1
    else if w_read_fault W \<noteq> None \<or> (\<exists>x \<in> set (w_signals W). signal_delivered (snd x))
    then (\<exists>a f. feeder_main J any_major any_minor W args = Ended False (Some a) \<and>
      ad_feeder a = Some f \<and> ad_shutdown_requested a \<and> \<not> feeder_active f)
    else (\<exists>a. feeder_main J any_major any_minor W args = Waiting_for_signal (adapter_Start a))"
proof -
  let ?E = "override_env opts (w_env W)"
  let ?c = "override_config opts config"
  let ?b = "snd (InitDataBrokerFeeder ?E (target_str opts) token ?c (new_adapter (w_env W)))"
  let ?a = "snd (InitSomeipClient ?E (w_exists W) ?c ?b)"
  let ?f = "new_feeder (new_CollectorClient ?E (target_str opts) token) (feeder_metadata (VSSMap ?c))"
  have m: "feeder_main J any_major any_minor W args =
      (if someip_available ?E (w_exists W) then AdapterRun W ?a
       else Ended True (FeedDummyData 37 (\<lambda>_. True) (w_clock W) ?a))"
    by (simp add: feeder_main_def main_body_def assms case_prod_beta InitSomeipClient_ok Let_def)
  have f: "ad_feeder ?a = Some ?f" "\<not> ad_feeder_active ?a" "feeder_active ?f" "stored_values ?f = []"
    by (simp_all add: InitSomeipClient_frame InitDataBrokerFeeder_def new_adapter_def new_feeder_def Let_def)
  show ?thesis
  proof (cases "someip_available ?E (w_exists W)")
    case True
    have "\<not> ad_shutdown_requested ?a"
      by (simp add: InitSomeipClient_def InitDataBrokerFeeder_def new_adapter_def Let_def)
    from run_feeder [OF f(1) this] True m show ?thesis by (auto simp: AdapterRun_eq)
  next
    case False
    have "dummy_loop 37 (\<lambda>i. ad_feeder_active ?a \<and> True) (w_clock W) 0 0 ?f = Some ?f"
      using f(2) by (simp add: numeral_eq_Suc)
    then have "FeedDummyData 37 (\<lambda>_. True) (w_clock W) ?a = Some (?a\<lparr>ad_feeder := Some ?f\<rparr>)"
      using f(1) by (simp add: FeedDummyData_def)
    with False m f(3,4) show ?thesis by auto
  qed
qed

theorem feeder_main_outcome_witness:
  "\<exists>a f. feeder_main jv_json 0xFF 0xFFFFFFFF empty_world [] = Ended True (Some a) \<and> ad_feeder a = Some f \<and>
    stored_values f = []"
proof -
  have p: "parse_args [] (default_options (w_env empty_world)) = Inr (default_options (w_env empty_world))" by simp
  have t: "load_token (w_stat empty_world) (w_open_rw empty_world)
      (token_file_str (default_options (w_env empty_world))) = Inr []"
    by (simp add: load_token_def default_options_def empty_world_def getEnvironmentStr_def)
  obtain config where c: "createEnvConfig jv_json (w_mapping empty_world) (\<lambda>x. x) 0xFF 0xFFFFFFFF (w_env empty_world) = Inr config"
    by (simp add: createEnvConfig_def getjsonConfig_def empty_world_def Let_def)
  have "\<not> someip_available (override_env (default_options (w_env empty_world)) (w_env empty_world)) (w_exists empty_world)"
    by (simp add: someip_available_def override_env_def default_options_def empty_world_def)
  with feeder_main_outcome [OF p t c] show ?thesis by auto
qed

end
