(* ===== verification/Feeder_System.thy ===== *)
theory Feeder_System
  imports Adapter "HOL-Library.Multiset"
begin

text \<open>
  The running program: the feeder thread, the subscriber thread, the SOME/IP thread with the
  message handlers vsomeip calls, and the thread that calls \<open>SomeipFeederAdapter::Shutdown\<close>,
  interleaved, as \<open>Start\<close> leaves them after \<open>InitDataBrokerFeeder\<close> and
  \<open>InitSomeipClient\<close>.

  The parts are the states of their own theories and a step of the system is a step of a part:
  \<open>run_step\<close> of the feeder, \<open>sub_run_step\<close> of the subscriber, an operation of the SOME/IP
  client. What the component models leave open is fixed here: the feeder and the subscriber have
  one collector client, the values fed come from SOME/IP messages, the callback of the subscriber
  is \<open>on_actuator_change\<close>, and \<open>Shutdown\<close> is called once and waits in its joins.

  \<^item> A message handler decodes the payload and then calls \<open>FeedValue\<close> for one value after the
    other; each call is a test of the flag and a critical section, with other threads in
    between. Decoding depends on the payload only (\<open>on_someip_message_values\<close>).
  \<^item> The callback sends its requests one by one, with other threads in between; the subscriber
    thread goes on when all are sent.
  \<^item> \<open>init\<close> of the SOME/IP client is two steps: another thread may stop the client after its flag is
    set and before the handlers are registered.
  \<^item> \<open>shutdown_pc\<close> is the program point of \<open>Shutdown\<close>; a join is a step that is possible once
    the thread has returned.
  \<^item> vsomeip: \<open>start\<close> returns after a later \<open>stop\<close>, when no handler is active; handlers are
    called between registration and \<open>clear_all_handler\<close>. gRPC: as in the theory of the
    subscriber.
  \<^item> A handler that leaves defined behaviour or throws ends the run: \<open>sys_error\<close>.
\<close>

section \<open>State\<close>

datatype handler =
    Next "(string \<times> Datapoint) list"
  | Locking string Datapoint "(string \<times> Datapoint) list"

datatype someip_pc = So_init | So_register | So_start | So_running | So_done

datatype shutdown_pc =
    Sd_idle
  | Sd_sub_test | Sd_sub_clear | Sd_sub_cancel
  | Sd_feeder_test | Sd_feeder_lock | Sd_feeder_notify
  | Sd_someip
  | Sd_join_someip | Sd_join_feeder | Sd_join_sub
  | Sd_returned

text \<open>The program points of \<open>Shutdown\<close> in the order of the code.\<close>

fun sd_position :: "shutdown_pc \<Rightarrow> nat" where
  "sd_position Sd_idle = 0"
| "sd_position Sd_sub_test = 1" | "sd_position Sd_sub_clear = 2" | "sd_position Sd_sub_cancel = 3"
| "sd_position Sd_feeder_test = 4" | "sd_position Sd_feeder_lock = 5" | "sd_position Sd_feeder_notify = 6"
| "sd_position Sd_someip = 7"
| "sd_position Sd_join_someip = 8" | "sd_position Sd_join_feeder = 9" | "sd_position Sd_join_sub = 10"
| "sd_position Sd_returned = 11"

instantiation shutdown_pc :: linorder
begin

definition less_eq_shutdown_pc :: "shutdown_pc \<Rightarrow> shutdown_pc \<Rightarrow> bool" where
  [simp]: "p \<le> q = (sd_position p \<le> sd_position q)"

definition less_shutdown_pc :: "shutdown_pc \<Rightarrow> shutdown_pc \<Rightarrow> bool" where
  [simp]: "p < q = (sd_position p < sd_position q)"

instance
proof
  show "p = q" if "p \<le> q" "q \<le> p" for p q :: shutdown_pc
    using that by (cases p; cases q; simp)
qed auto

end

record 'j system =
  sys_feeder :: feeder
  sys_sub :: subscriber
  sys_someip :: "'j SomeIPClient"
  so_pc :: someip_pc
  sys_handlers :: "handler list"
  sys_sending :: "someip_message list"
  sd_pc :: shutdown_pc
  sys_error :: "cpp_error option"

definition new_system :: "CollectorClient \<Rightarrow> 'j SomeIPConfig \<Rightarrow> 'j system" where
  "new_system c config =
     \<lparr>sys_feeder = new_feeder c (feeder_metadata (VSSMap config)),
      sys_sub = sub_Init (actuator_list (VSSMap config)) True (new_subscriber c),
      sys_someip = new_SomeIPClient config, so_pc = So_init, sys_handlers = [], sys_sending = [],
      sd_pc = Sd_idle, sys_error = None\<rparr>"

definition sys_init :: "'j SomeIPConfig \<Rightarrow> 'j system \<Rightarrow> bool" where
  "sys_init config s = (\<exists>c. s = new_system c config)"

text \<open>The shared collector client: a part that changed it changes it for the other.\<close>

definition put_feeder :: "feeder \<Rightarrow> 'j system \<Rightarrow> 'j system" where
  "put_feeder f s = s\<lparr>sys_feeder := f, sys_sub := (sys_sub s)\<lparr>sub_client := client f\<rparr>\<rparr>"

definition put_sub :: "subscriber \<Rightarrow> 'j system \<Rightarrow> 'j system" where
  "put_sub b s = s\<lparr>sys_sub := b, sys_feeder := (sys_feeder s)\<lparr>client := sub_client b\<rparr>\<rparr>"

text \<open>What vsomeip has been told so far.\<close>

fun note_handlers :: "app_call \<Rightarrow> bool \<Rightarrow> bool" where
  "note_handlers Register_message_handler b = True"
| "note_handlers Clear_all_handler b = False"
| "note_handlers _ b = b"

definition handlers_on :: "'j SomeIPClient \<Rightarrow> bool" where
  "handlers_on c = fold note_handlers (sc_calls c) False"

datatype app_state = App_idle | App_running | App_stopped

fun note_app :: "app_call \<Rightarrow> app_state \<Rightarrow> app_state" where
  "note_app App_start a = App_running"
| "note_app App_stop a = (if a = App_running then App_stopped else a)"
| "note_app _ a = a"

definition app_state :: "'j SomeIPClient \<Rightarrow> app_state" where
  "app_state c = fold note_app (sc_calls c) App_idle"

text \<open>The subscriber thread is about to call the callback.\<close>

definition at_callback :: "subscriber \<Rightarrow> bool" where
  "at_callback b = ((case sub_pc b of Sub_deliver _ \<Rightarrow> True | _ \<Rightarrow> False) \<and> cb b \<and> subscriber_active b)"

abbreviation change_requests ::
  "'j json \<Rightarrow> (string \<Rightarrow> bytes) \<Rightarrow> 'j SomeIPConfig \<Rightarrow> ActuatorValues \<Rightarrow> cpp_error + someip_message list" where
  "change_requests J so config changes \<equiv>
     hit_requests J so (replicate SOMEIP_METHOD_PAYLOAD_SIZE 0) (hits changes (VSSMap config))"

section \<open>Steps\<close>

text \<open>Steps of the threads of the program.\<close>

inductive prog_step ::
  "'j json \<Rightarrow> (string \<Rightarrow> bytes) \<Rightarrow> 'j SomeIPConfig \<Rightarrow> 'j system \<Rightarrow> 'j system \<Rightarrow> bool"
  for J :: "'j json" and so :: "string \<Rightarrow> bytes" and config :: "'j SomeIPConfig" where
  feeder_thread: "sys_error s = None \<Longrightarrow> run_step (sys_feeder s) f \<Longrightarrow>
    prog_step J so config s (put_feeder f s)"
| subscriber_thread: "sys_error s = None \<Longrightarrow> sys_sending s = [] \<Longrightarrow> \<not> at_callback (sys_sub s) \<Longrightarrow>
    sub_run_step (sys_sub s) b \<Longrightarrow> prog_step J so config s (put_sub b s)"
| callback: "sys_error s = None \<Longrightarrow> sys_sending s = [] \<Longrightarrow> at_callback (sys_sub s) \<Longrightarrow>
    sub_pc (sys_sub s) = Sub_deliver changes \<Longrightarrow> change_requests J so config changes = Inr rs \<Longrightarrow>
    sub_run_step (sys_sub s) b \<Longrightarrow> prog_step J so config s ((put_sub b s)\<lparr>sys_sending := rs\<rparr>)"
| callback_error: "sys_error s = None \<Longrightarrow> sys_sending s = [] \<Longrightarrow> at_callback (sys_sub s) \<Longrightarrow>
    sub_pc (sys_sub s) = Sub_deliver changes \<Longrightarrow> change_requests J so config changes = Inl e \<Longrightarrow>
    prog_step J so config s (s\<lparr>sys_error := Some e\<rparr>)"
| callback_send: "sys_error s = None \<Longrightarrow> sys_sending s = r # rs \<Longrightarrow>
    prog_step J so config s (s\<lparr>sys_sending := rs, sys_someip :=
      send_request (msg_service r) (msg_instance r) (msg_method r) (msg_payload r) (sys_someip s)\<rparr>)"
| someip_init_fails: "sys_error s = None \<Longrightarrow> so_pc s = So_init \<Longrightarrow>
    prog_step J so config s (s\<lparr>so_pc := So_done\<rparr>)"
| someip_init: "sys_error s = None \<Longrightarrow> so_pc s = So_init \<Longrightarrow>
    prog_step J so config s (s\<lparr>sys_someip := init_done name (sys_someip s), so_pc := So_register\<rparr>)"
| someip_register: "sys_error s = None \<Longrightarrow> so_pc s = So_register \<Longrightarrow>
    prog_step J so config s (s\<lparr>sys_someip := init_register (sys_someip s), so_pc := So_start\<rparr>)"
| someip_start: "sys_error s = None \<Longrightarrow> so_pc s = So_start \<Longrightarrow>
    prog_step J so config s (s\<lparr>sys_someip := client_start (sys_someip s), so_pc := So_running\<rparr>)"
| someip_return: "sys_error s = None \<Longrightarrow> so_pc s = So_running \<Longrightarrow> app_state (sys_someip s) = App_stopped \<Longrightarrow>
    sys_handlers s = [] \<Longrightarrow> prog_step J so config s (s\<lparr>so_pc := So_done\<rparr>)"
| handler_test: "sys_error s = None \<Longrightarrow> sys_handlers s = hs @ Next ((n, v) # xs) # hs' \<Longrightarrow>
    prog_step J so config s
      (if feeder_active (sys_feeder s)
       then (put_feeder ((sys_feeder s)\<lparr>pending := pending (sys_feeder s) @ [[(n, v)]]\<rparr>) s)
              \<lparr>sys_handlers := hs @ Locking n v xs # hs'\<rparr>
       else s\<lparr>sys_handlers := hs @ Next xs # hs'\<rparr>)"
| handler_feed: "sys_error s = None \<Longrightarrow> sys_handlers s = hs @ Locking n v xs # hs' \<Longrightarrow>
    pending (sys_feeder s) = ps @ [(n, v)] # qs \<Longrightarrow>
    prog_step J so config s
      ((put_feeder (notify_all ((sys_feeder s)\<lparr>pending := ps @ qs,
          stored_values := storeValues [(n, v)] (stored_values (sys_feeder s)),
          latest := latest (sys_feeder s) ++ map_of [(n, v)]\<rparr>)) s)\<lparr>sys_handlers := hs @ Next xs # hs'\<rparr>)"
| handler_done: "sys_error s = None \<Longrightarrow> sys_handlers s = hs @ Next [] # hs' \<Longrightarrow>
    prog_step J so config s (s\<lparr>sys_handlers := hs @ hs'\<rparr>)"
| sd_begin: "sys_error s = None \<Longrightarrow> sd_pc s = Sd_idle \<Longrightarrow>
    prog_step J so config s (s\<lparr>sd_pc := Sd_sub_test\<rparr>)"
| sd_sub_test: "sys_error s = None \<Longrightarrow> sd_pc s = Sd_sub_test \<Longrightarrow>
    prog_step J so config s
      (if subscriber_active (sys_sub s)
       then s\<lparr>sys_sub := (sys_sub s)\<lparr>stop_entered := stop_entered (sys_sub s) + 1\<rparr>, sd_pc := Sd_sub_clear\<rparr>
       else s\<lparr>sd_pc := Sd_feeder_test\<rparr>)"
| sd_sub_clear: "sys_error s = None \<Longrightarrow> sd_pc s = Sd_sub_clear \<Longrightarrow> 0 < stop_entered (sys_sub s) \<Longrightarrow>
    prog_step J so config s (s\<lparr>sys_sub := (sys_sub s)\<lparr>stop_entered := stop_entered (sys_sub s) - 1,
      stop_cancelling := stop_cancelling (sys_sub s) + 1, subscriber_active := False\<rparr>, sd_pc := Sd_sub_cancel\<rparr>)"
| sd_sub_cancel: "sys_error s = None \<Longrightarrow> sd_pc s = Sd_sub_cancel \<Longrightarrow> 0 < stop_cancelling (sys_sub s) \<Longrightarrow>
    prog_step J so config s (s\<lparr>sys_sub := try_cancel ((sys_sub s)\<lparr>stop_cancelling :=
      stop_cancelling (sys_sub s) - 1\<rparr>), sd_pc := Sd_feeder_test\<rparr>)"
| sd_feeder_test: "sys_error s = None \<Longrightarrow> sd_pc s = Sd_feeder_test \<Longrightarrow>
    prog_step J so config s
      (if feeder_active (sys_feeder s)
       then s\<lparr>sys_feeder := (sys_feeder s)\<lparr>shutdown_entered := shutdown_entered (sys_feeder s) + 1\<rparr>,
              sd_pc := Sd_feeder_lock\<rparr>
       else s\<lparr>sd_pc := Sd_someip\<rparr>)"
| sd_feeder_lock: "sys_error s = None \<Longrightarrow> sd_pc s = Sd_feeder_lock \<Longrightarrow> 0 < shutdown_entered (sys_feeder s) \<Longrightarrow>
    prog_step J so config s (s\<lparr>sys_feeder := (sys_feeder s)\<lparr>shutdown_entered := shutdown_entered (sys_feeder s) - 1,
      shutdown_to_notify := shutdown_to_notify (sys_feeder s) + 1, stored_values := [],
      feeder_active := False, latest := Map.empty\<rparr>, sd_pc := Sd_feeder_notify\<rparr>)"
| sd_feeder_notify: "sys_error s = None \<Longrightarrow> sd_pc s = Sd_feeder_notify \<Longrightarrow> 0 < shutdown_to_notify (sys_feeder s) \<Longrightarrow>
    prog_step J so config s (s\<lparr>sys_feeder := notify_all ((sys_feeder s)\<lparr>shutdown_to_notify :=
      shutdown_to_notify (sys_feeder s) - 1\<rparr>), sd_pc := Sd_someip\<rparr>)"
| sd_someip: "sys_error s = None \<Longrightarrow> sd_pc s = Sd_someip \<Longrightarrow>
    prog_step J so config s (s\<lparr>sys_someip := client_Shutdown (sys_someip s), sd_pc := Sd_join_someip\<rparr>)"
| sd_join_someip: "sys_error s = None \<Longrightarrow> sd_pc s = Sd_join_someip \<Longrightarrow> so_pc s = So_done \<Longrightarrow>
    prog_step J so config s (s\<lparr>sd_pc := Sd_join_feeder\<rparr>)"
| sd_join_feeder: "sys_error s = None \<Longrightarrow> sd_pc s = Sd_join_feeder \<Longrightarrow> pc (sys_feeder s) = Done \<Longrightarrow>
    prog_step J so config s (s\<lparr>sd_pc := Sd_join_sub\<rparr>)"
| sd_join_sub: "sys_error s = None \<Longrightarrow> sd_pc s = Sd_join_sub \<Longrightarrow> sub_pc (sys_sub s) = Sub_done \<Longrightarrow>
    sys_sending s = [] \<Longrightarrow> prog_step J so config s (s\<lparr>sd_pc := Sd_returned\<rparr>)"

text \<open>Steps of the libraries and the outside world.\<close>

inductive env_step ::
  "'j json \<Rightarrow> 'j SomeIPConfig \<Rightarrow> 'j system \<Rightarrow> 'j system \<Rightarrow> bool"
  for J :: "'j json" and config :: "'j SomeIPConfig" where
  message: "sys_error s = None \<Longrightarrow> so_pc s = So_running \<Longrightarrow> handlers_on (sys_someip s) \<Longrightarrow>
    node_values J p (event_nodes config svc inst m) = Inr xs \<Longrightarrow>
    env_step J config s (s\<lparr>sys_handlers := sys_handlers s @ [Next xs]\<rparr>)"
| message_error: "sys_error s = None \<Longrightarrow> so_pc s = So_running \<Longrightarrow> handlers_on (sys_someip s) \<Longrightarrow>
    node_values J p (event_nodes config svc inst m) = Inl e \<Longrightarrow>
    env_step J config s (s\<lparr>sys_error := Some e\<rparr>)"
| state_change: "sys_error s = None \<Longrightarrow> so_pc s = So_running \<Longrightarrow> handlers_on (sys_someip s) \<Longrightarrow>
    env_step J config s (s\<lparr>sys_someip := on_state st (sys_someip s)\<rparr>)"
| availability: "sys_error s = None \<Longrightarrow> so_pc s = So_running \<Longrightarrow> handlers_on (sys_someip s) \<Longrightarrow>
    env_step J config s (s\<lparr>sys_someip := on_availability svc inst avail (sys_someip s)\<rparr>)"
| spurious_wakeup: "sys_error s = None \<Longrightarrow> spurious_step (sys_feeder s) f \<Longrightarrow>
    env_step J config s (s\<lparr>sys_feeder := f\<rparr>)"
| server_closes: "sys_error s = None \<Longrightarrow> server_close (sys_sub s) b \<Longrightarrow>
    env_step J config s (s\<lparr>sys_sub := b\<rparr>)"

definition sys_step ::
  "'j json \<Rightarrow> (string \<Rightarrow> bytes) \<Rightarrow> 'j SomeIPConfig \<Rightarrow> 'j system \<Rightarrow> 'j system \<Rightarrow> bool" where
  "sys_step J so config s t = (prog_step J so config s t \<or> env_step J config s t)"

section \<open>The parts of the system\<close>

definition shared_client :: "'j system \<Rightarrow> bool" where
  "shared_client s = (client (sys_feeder s) = sub_client (sys_sub s))"

fun locking :: "handler \<Rightarrow> DatapointValues list" where
  "locking (Next xs) = []"
| "locking (Locking n v xs) = [[(n, v)]]"

text \<open>The values waiting for the feeder's mutex are those of the handlers.\<close>

definition handlers_ok :: "'j system \<Rightarrow> bool" where
  "handlers_ok s = (mset (pending (sys_feeder s)) = mset (concat (map locking (sys_handlers s))))"

definition sys_inv :: "'j system \<Rightarrow> bool" where
  "sys_inv s = (shared_client s \<and> handlers_ok s)"

definition client_change :: "CollectorClient \<Rightarrow> CollectorClient \<Rightarrow> bool" where
  "client_change c d =
     (d = c \<or> (\<exists>b. d = snd (WaitForConnected b c)) \<or> (\<exists>st. d = snd (handleGrpcError st c)))"

lemma run_step_client: "run_step f g \<Longrightarrow> client_change (client f) (client g)"
  by (induction rule: run_step.induct)
     (auto simp: client_change_def registerDatapoints_def feedToBroker_def Let_def split: if_splits)

lemma sub_run_step_client: "sub_run_step b d \<Longrightarrow> client_change (sub_client b) (sub_client d)"
  by (induction rule: sub_run_step.induct) (auto simp: client_change_def)

lemma feeder_sees_change: "client_change (client f) c \<Longrightarrow> feeder_step\<^sup>*\<^sup>* f (f\<lparr>client := c\<rparr>)"
  using other_wait [of f] other_error [of f]
  by (auto simp: client_change_def feeder_step_def)

lemma sub_sees_change: "client_change (sub_client b) c \<Longrightarrow> sub_step\<^sup>*\<^sup>* b (b\<lparr>sub_client := c\<rparr>)"
  using sub_other_wait [of b] sub_other_error [of b]
  by (auto simp: client_change_def sub_step_def)

lemma put_fields [simp]:
  "sys_feeder (put_feeder f s) = f" "sys_sub (put_feeder f s) = (sys_sub s)\<lparr>sub_client := client f\<rparr>"
  "sys_sub (put_sub b s) = b" "sys_feeder (put_sub b s) = (sys_feeder s)\<lparr>client := sub_client b\<rparr>"
  "sys_someip (put_feeder f s) = sys_someip s" "sys_someip (put_sub b s) = sys_someip s"
  "so_pc (put_feeder f s) = so_pc s" "so_pc (put_sub b s) = so_pc s"
  "sys_handlers (put_feeder f s) = sys_handlers s" "sys_handlers (put_sub b s) = sys_handlers s"
  "sys_sending (put_feeder f s) = sys_sending s" "sys_sending (put_sub b s) = sys_sending s"
  "sd_pc (put_feeder f s) = sd_pc s" "sd_pc (put_sub b s) = sd_pc s"
  "sys_error (put_feeder f s) = sys_error s" "sys_error (put_sub b s) = sys_error s"
  by (simp_all add: put_feeder_def put_sub_def)

lemma run_step_pending_same: "run_step f g \<Longrightarrow> pending g = pending f"
  by (induction rule: run_step.induct) auto

lemma prog_step_shared: "prog_step J so config s t \<Longrightarrow> shared_client s \<Longrightarrow> shared_client t"
  by (induction rule: prog_step.induct) (auto simp: shared_client_def try_cancel_def)

lemma prog_step_handlers: "prog_step J so config s t \<Longrightarrow> handlers_ok s \<Longrightarrow> handlers_ok t"
  by (induction rule: prog_step.induct) (auto simp: handlers_ok_def run_step_pending_same)

lemma env_step_inv: "env_step J config s t \<Longrightarrow> sys_inv s \<Longrightarrow> sys_inv t"
  by (induction rule: env_step.induct)
     (auto simp: sys_inv_def shared_client_def handlers_ok_def spurious_step_def server_close_def)

interpretation sy: invariant_system "sys_init config" "sys_step J so config" sys_inv for J so config
proof unfold_locales
  show "sys_inv s" if "sys_init config s" for s
    using that by (auto simp: sys_init_def new_system_def sys_inv_def shared_client_def handlers_ok_def
        new_feeder_def sub_Init_def new_subscriber_def)
  show "sys_inv t" if "sys_inv s" "sys_step J so config s t" for s t
    using that prog_step_shared [of J so config s t] prog_step_handlers [of J so config s t] env_step_inv [of J config s t]
    by (auto simp: sys_step_def sys_inv_def)
qed

text \<open>Every step of the system is a step of its parts.\<close>

lemma feeder_calls: "call_step f g \<Longrightarrow> feeder_step\<^sup>*\<^sup>* f g"
  by (auto simp: feeder_step_def)

lemma sub_calls: "sub_call_step b d \<Longrightarrow> sub_step\<^sup>*\<^sup>* b d"
  by (auto simp: sub_step_def)

lemma shared_put_sub:
  assumes "shared_client s" and "sub_run_step (sys_sub s) b"
  shows "feeder_step\<^sup>*\<^sup>* (sys_feeder s) (sys_feeder (put_sub b s))"
  using feeder_sees_change [of "sys_feeder s" "sub_client b"] sub_run_step_client [OF assms(2)] assms(1)
  by (simp add: shared_client_def)

lemma prog_step_feeder:
  "prog_step J so config s t \<Longrightarrow> shared_client s \<Longrightarrow> feeder_step\<^sup>*\<^sup>* (sys_feeder s) (sys_feeder t)"
proof (induction rule: prog_step.induct)
  case (feeder_thread s f)
  then show ?case by (auto simp: feeder_step_def)
next
  case (subscriber_thread s b)
  then show ?case using shared_put_sub by blast
next
  case (callback s changes rs b)
  then show ?case using shared_put_sub [of s b] by simp
next
  case (handler_test s hs n v xs hs')
  then show ?case using feeder_calls [OF feed_enter [of "sys_feeder s" "[(n, v)]"]] by simp
next
  case (handler_feed s hs n v xs hs' ps qs)
  then show ?case using feeder_calls [OF feed_locked [of "sys_feeder s" ps "[(n, v)]" qs]] by simp
next
  case (sd_feeder_test s)
  then show ?case using feeder_calls [OF shutdown_enter [of "sys_feeder s"]] by simp
next
  case (sd_feeder_lock s)
  then show ?case using feeder_calls [OF shutdown_locked [of "sys_feeder s"]] by simp
next
  case (sd_feeder_notify s)
  then show ?case using feeder_calls [OF shutdown_notify [of "sys_feeder s"]] by simp
qed simp_all

lemma shared_put_feeder:
  assumes "shared_client s" and "client_change (client (sys_feeder s)) (client f)"
  shows "sub_step\<^sup>*\<^sup>* (sys_sub s) (sys_sub (put_feeder f s))"
  using sub_sees_change [of "sys_sub s" "client f"] assms by (simp add: shared_client_def)

lemma prog_step_sub:
  "prog_step J so config s t \<Longrightarrow> shared_client s \<Longrightarrow> sub_step\<^sup>*\<^sup>* (sys_sub s) (sys_sub t)"
proof (induction rule: prog_step.induct)
  case (feeder_thread s f)
  then show ?case using shared_put_feeder run_step_client by blast
next
  case (subscriber_thread s b)
  then show ?case by (auto simp: sub_step_def)
next
  case (callback s changes rs b)
  then show ?case by (auto simp: sub_step_def)
next
  case (sd_sub_test s)
  then show ?case using sub_calls [OF stop_test [of "sys_sub s"]] by simp
next
  case (sd_sub_clear s)
  then show ?case using sub_calls [OF stop_clear [of "sys_sub s"]] by simp
next
  case (sd_sub_cancel s)
  then show ?case using sub_calls [OF stop_cancel [of "sys_sub s"]] by simp
qed (simp_all add: shared_client_def)

lemma prog_step_someip: "prog_step J so config s t \<Longrightarrow> client_step\<^sup>*\<^sup>* (sys_someip s) (sys_someip t)"
proof (induction rule: prog_step.induct)
  case (callback_send s r rs)
  then show ?case
    using step_send [of "sys_someip s" "msg_service r" "msg_instance r" "msg_method r" "msg_payload r"]
    by (simp add: send_request_def r_into_rtranclp)
qed (auto intro: step_init step_register step_start step_shutdown)

lemma env_step_parts:
  "env_step J config s t \<Longrightarrow> feeder_step\<^sup>*\<^sup>* (sys_feeder s) (sys_feeder t) \<and>
    sub_step\<^sup>*\<^sup>* (sys_sub s) (sys_sub t) \<and> client_step\<^sup>*\<^sup>* (sys_someip s) (sys_someip t)"
  by (induction rule: env_step.induct)
     (auto simp: feeder_step_def sub_step_def intro: step_state step_availability)

lemma sys_init_parts:
  assumes "sys_init config s"
  shows "feeder_init (sys_feeder s) \<and> sub_init (sys_sub s) \<and> client_init config (sys_someip s)"
proof -
  obtain c where "s = new_system c config" using assms by (auto simp: sys_init_def)
  then show ?thesis by (simp add: new_system_def feeder_init_def sub_init_def client_init_def) blast
qed

interpretation sf: simulation_invariant "sys_init config" "sys_step J so config" sys_inv
    sys_feeder feeder_init feeder_step feeder_inv for J so config
proof unfold_locales
  show "feeder_init (sys_feeder s)" if "sys_init config s" for s
    using sys_init_parts [OF that] by simp
  show "feeder_step\<^sup>*\<^sup>* (sys_feeder s) (sys_feeder t)" if "sys_inv s" "sys_step J so config s t" for s t
    using that prog_step_feeder env_step_parts unfolding sys_step_def sys_inv_def by blast
qed (rule sy.reach_inv)

interpretation sb: simulation_invariant "sys_init config" "sys_step J so config" sys_inv
    sys_sub sub_init sub_step sub_inv for J so config
proof unfold_locales
  show "sub_init (sys_sub s)" if "sys_init config s" for s
    using sys_init_parts [OF that] by simp
  show "sub_step\<^sup>*\<^sup>* (sys_sub s) (sys_sub t)" if "sys_inv s" "sys_step J so config s t" for s t
    using that prog_step_sub env_step_parts unfolding sys_step_def sys_inv_def by blast
qed (rule sy.reach_inv)

interpretation sp: simulation_invariant "sys_init config" "sys_step J so config" sys_inv
    sys_someip "client_init config" client_step "client_inv config" for J so config
proof unfold_locales
  show "client_init config (sys_someip s)" if "sys_init config s" for s
    using sys_init_parts [OF that] by simp
  show "client_step\<^sup>*\<^sup>* (sys_someip s) (sys_someip t)" if "sys_inv s" "sys_step J so config s t" for s t
    using that prog_step_someip env_step_parts unfolding sys_step_def by blast
qed (rule sy.reach_inv)

section \<open>From the broker to SOME/IP\<close>

text \<open>The requests for a sequence of change sets.\<close>

fun requests_of ::
  "'j json \<Rightarrow> (string \<Rightarrow> bytes) \<Rightarrow> 'j SomeIPConfig \<Rightarrow> ActuatorValues list \<Rightarrow> cpp_error + someip_message list" where
  "requests_of J so config [] = Inr []"
| "requests_of J so config (ch # chs) =
     ebind (change_requests J so config ch) (\<lambda>rs.
     ebind (requests_of J so config chs) (\<lambda>ss. Inr (rs @ ss)))"

lemma requests_of_snoc:
  "requests_of J so config (chs @ [ch]) =
    ebind (requests_of J so config chs) (\<lambda>rs. ebind (change_requests J so config ch) (\<lambda>ss. Inr (rs @ ss)))"
proof (induction chs)
  case Nil
  show ?case by (cases "change_requests J so config ch") simp_all
next
  case (Cons c chs)
  then show ?case
    by (cases "change_requests J so config c"; cases "requests_of J so config chs";
        cases "change_requests J so config ch") simp_all
qed

text \<open>The callback as it is called: the client after all its requests are sent.\<close>

lemma on_actuator_change_requests_of:
  "on_actuator_change J so ch config (Some c) =
    ebind (change_requests J so config ch) (\<lambda>rs. Inr (Some (send_requests rs c)))"
  by (rule on_actuator_change_hits)

lemma sent_app_do [simp]: "sent_requests (app_do cs c) = sent_requests c @ concat (map sent_message cs)"
  by (simp add: sent_requests_def)

lemma sent_subscription_calls [simp]: "x \<in> set (subscription_calls c) \<Longrightarrow> sent_message x = []"
  by (auto simp: subscription_calls_def)

lemma sent_update [simp]:
  "sent_requests (c\<lparr>sc_initialized := b\<rparr>) = sent_requests c" "sent_requests (c\<lparr>sc_name := nm\<rparr>) = sent_requests c"
  "sent_requests (c\<lparr>sc_stop_requested := b\<rparr>) = sent_requests c"
  "sent_requests (c\<lparr>req_service_available := b\<rparr>) = sent_requests c"
  by (simp_all add: sent_requests_def)

lemma sent_init [simp]:
  "sent_requests (init_done name c) = sent_requests c" "sent_requests (init_register c) = sent_requests c"
  by (simp_all add: init_done_def init_register_calls)

lemma sent_others [simp]:
  "sent_requests (client_start c) = sent_requests c" "sent_requests (client_Shutdown c) = sent_requests c"
  "sent_requests (on_state st c) = sent_requests c" "sent_requests (on_availability svc inst avail c) = sent_requests c"
  by (simp_all add: client_start_def client_Shutdown_def client_stop_def on_state_def on_availability_cases Let_def)

lemma sub_run_step_delivered:
  assumes "sub_run_step b d"
  shows "cb d = cb b" "\<not> at_callback b \<Longrightarrow> delivered d = delivered b"
    "at_callback b \<Longrightarrow> sub_pc b = Sub_deliver ch \<Longrightarrow> delivered d = delivered b @ [ch]"
  using assms by (induction rule: sub_run_step.induct) (auto simp: at_callback_def)

definition sent_ok :: "'j json \<Rightarrow> (string \<Rightarrow> bytes) \<Rightarrow> 'j SomeIPConfig \<Rightarrow> 'j system \<Rightarrow> bool" where
  "sent_ok J so config s = (cb (sys_sub s) \<and>
     requests_of J so config (delivered (sys_sub s)) = Inr (sent_requests (sys_someip s) @ sys_sending s))"

lemma prog_step_sent:
  assumes "prog_step J so config s t" and "sc_use_req (sys_someip s)" and "sent_ok J so config s"
  shows "sent_ok J so config t"
  using assms
proof (induction rule: prog_step.induct)
  case (subscriber_thread s b)
  then show ?case by (simp add: sent_ok_def sub_run_step_delivered)
next
  case (callback s changes rs b)
  then show ?case by (simp add: sent_ok_def sub_run_step_delivered requests_of_snoc)
next
  case (callback_send s r rs)
  then show ?case by (simp add: sent_ok_def rs.send_appends)
qed (simp_all add: sent_ok_def)

lemma env_step_sent: "env_step J config s t \<Longrightarrow> sent_ok J so config s \<Longrightarrow> sent_ok J so config t"
  by (induction rule: env_step.induct) (auto simp: sent_ok_def server_close_def)

lemma reach_sent:
  assumes "reach (sys_init config) (sys_step J so config) s" and u: "use_req (req config)"
  shows "sent_ok J so config s"
  using assms(1)
proof (induction rule: reach.induct)
  case (reach_init s)
  then show ?case by (auto simp: sys_init_def new_system_def sent_ok_def sub_Init_def new_subscriber_def
      new_SomeIPClient_def sent_requests_def)
next
  case (reach_step s t)
  have "sc_use_req (sys_someip s)"
    using sp.reach_seen_inv [OF reach_step(1)] u by (simp add: client_inv_def bound_to_def)
  with reach_step show ?case using prog_step_sent env_step_sent by (auto simp: sys_step_def)
qed

section \<open>Runs\<close>

abbreviation sys_reach ::
  "'j json \<Rightarrow> (string \<Rightarrow> bytes) \<Rightarrow> 'j SomeIPConfig \<Rightarrow> 'j system \<Rightarrow> bool" where
  "sys_reach J so config \<equiv> reach (sys_init config) (sys_step J so config)"

lemma prog_reach: "sys_reach J so config s \<Longrightarrow> prog_step J so config s t \<Longrightarrow> sys_reach J so config t"
  by (erule reach_step) (simp add: sys_step_def)

lemma new_system_reach: "sys_reach J so config (new_system c config)"
  by (rule reach_init) (auto simp: sys_init_def)

text \<open>The subscriber thread runs alone, without a callback.\<close>

definition quiet_step :: "subscriber \<Rightarrow> subscriber \<Rightarrow> bool" where
  "quiet_step b d = (sub_run_step b d \<and> \<not> at_callback b)"

lemma subscriber_runs:
  assumes "quiet_step\<^sup>*\<^sup>* (sys_sub s) b"
    and "sys_reach J so config s" and "sys_error s = None" and "sys_sending s = []"
  shows "\<exists>t. sys_reach J so config t \<and> sys_sub t = b \<and> sys_someip t = sys_someip s \<and> sys_error t = None \<and>
    sys_sending t = []"
  using assms(1)
proof (induction rule: rtranclp_induct)
  case base
  show ?case using assms(2-) by blast
next
  case (step b d)
  then obtain t where t: "sys_reach J so config t" "sys_sub t = b" "sys_someip t = sys_someip s"
    "sys_error t = None" "sys_sending t = []" by blast
  then have "prog_step J so config t (put_sub d t)"
    using step.hyps(2) by (intro subscriber_thread) (auto simp: quiet_step_def)
  with t show ?case using prog_reach [OF t(1)] by (intro exI [of _ "put_sub d t"]) simp
qed

text \<open>A subscriber that has read one response and is about to call the callback.\<close>

definition sub_delivering :: "CollectorClient \<Rightarrow> string list \<Rightarrow> DataEntry \<Rightarrow> subscriber" where
  "sub_delivering c acts u = (sub_reading c acts [u])\<lparr>sub_pc := Sub_deliver (changes_of [u])\<rparr>"

lemma sub_delivering_run:
  assumes "acts \<noteq> []"
  shows "quiet_step\<^sup>*\<^sup>* (sub_Init acts True (new_subscriber c)) (sub_delivering c acts u)"
proof -
  let ?i = "sub_Init acts True (new_subscriber c)"
  let ?a = "?i\<lparr>subscriber_active := True, sub_pc := Sub_loop\<rparr>"
  let ?b = "?i\<lparr>subscriber_active := True, sub_pc := Sub_connect\<rparr>"
  let ?c = "sub_connected c acts"
  let ?r = "sub_reading c acts [u]"
  note d = sub_Init_def new_subscriber_def sub_connected_def sub_reading_def at_callback_def sub_delivering_def
    changes_of_def quiet_step_def
  have "quiet_step ?i ?a" using start [of ?i] assms by (simp add: d)
  moreover have "quiet_step ?a ?b" using loop [of ?a] by (simp add: d)
  moreover have "quiet_step ?b ?c" using connect_ok [of ?b] by (simp add: d)
  moreover have "quiet_step ?c (?r\<lparr>received := [], sub_pc := Sub_test\<rparr>)" using subscribe [of ?c] by (simp add: d)
  moreover have "quiet_step (?r\<lparr>received := [], sub_pc := Sub_test\<rparr>) (?r\<lparr>received := [], sub_pc := Sub_read\<rparr>)"
    using test [of "?r\<lparr>received := [], sub_pc := Sub_test\<rparr>"] by (simp add: d)
  moreover have "quiet_step (?r\<lparr>received := [], sub_pc := Sub_read\<rparr>) ?r"
    using read_ok [of "?r\<lparr>received := [], sub_pc := Sub_read\<rparr>" "[u]"] by (simp add: d)
  moreover have "quiet_step ?r (?r\<lparr>sub_pc := Sub_updates [] (add_change u [])\<rparr>)"
    using update [of ?r u "[]" "[]"] by (simp add: d)
  moreover have "quiet_step (?r\<lparr>sub_pc := Sub_updates [] (add_change u [])\<rparr>) (sub_delivering c acts u)"
    using updates_end [of "?r\<lparr>sub_pc := Sub_updates [] (add_change u [])\<rparr>" "add_change u []"] by (simp add: d)
  ultimately show ?thesis by (meson converse_rtranclp_into_rtranclp rtranclp.rtrancl_refl)
qed

lemma delivering_reach:
  assumes "actuator_list (VSSMap config) \<noteq> []" and "change_requests J so config (changes_of [u]) = Inr rs"
  shows "\<exists>s. sys_reach J so config s \<and> received (sys_sub s) = [[u]] \<and> delivered (sys_sub s) = [changes_of [u]] \<and>
    sys_sending s = rs \<and> sys_error s = None \<and> subscriber_active (sys_sub s) \<and> sub_pc (sys_sub s) = Sub_test"
proof -
  define c where "c = new_CollectorClient Map.empty [] []"
  let ?i = "new_system c config"
  let ?d = "sub_delivering c (actuator_list (VSSMap config)) u"
  note d = sub_delivering_def sub_reading_def sub_connected_def sub_Init_def new_subscriber_def
  have "sys_sub ?i = sub_Init (actuator_list (VSSMap config)) True (new_subscriber c)"
    and "sys_error ?i = None" "sys_sending ?i = []" by (simp_all add: new_system_def)
  with subscriber_runs [of ?i ?d config J so] sub_delivering_run [OF assms(1), of c u]
    new_system_reach [of config J so c]
  obtain t where t: "sys_reach J so config t" "sys_sub t = ?d" "sys_error t = None" "sys_sending t = []"
    by auto
  have p: "sub_pc ?d = Sub_deliver (changes_of [u])" and a: "at_callback ?d" "cb ?d" "subscriber_active ?d"
    by (simp_all add: d at_callback_def)
  let ?e = "?d\<lparr>sub_pc := Sub_test, delivered := delivered ?d @ [changes_of [u]]\<rparr>"
  have e: "sub_run_step ?d ?e" using deliver [OF p] a by simp
  have "prog_step J so config t ((put_sub ?e t)\<lparr>sys_sending := rs\<rparr>)"
    using t a p assms(2) e by (intro callback) auto
  from prog_reach [OF t(1) this] show ?thesis
    using t(3) by (intro exI [of _ "(put_sub ?e t)\<lparr>sys_sending := rs\<rparr>"]) (simp add: d)
qed

lemma act_change_requests:
  "change_requests jv_json (\<lambda>_. []) (act_config (act_node ''UINT8'' 5 1))
     (changes_of [\<lparr>de_path = ''Vehicle.Target'', de_value = K_uint32 2, de_actuator_target = K_not_set\<rparr>]) =
   Inr [\<lparr>msg_service = 0x6123, msg_instance = 0xb, msg_method = 7, msg_payload = [0, 0, 0, 0, 0, 2]\<rparr>]"
  using act_hit_requests by (simp add: changes_of_def add_change_def)

section \<open>Properties\<close>

text \<open>
  C5. The running program refines its parts: in every state the interleaved threads can reach,
  the feeder, the subscriber and the SOME/IP client are in states that their own models reach,
  although they share one collector client, feed each other and are shut down together. So what
  is proved of the parts holds of the program.
\<close>

theorem system_refines_parts:
  assumes "reach (sys_init config) (sys_step J so config) s"
  shows "reach feeder_init feeder_step (sys_feeder s) \<and> reach sub_init sub_step (sys_sub s) \<and>
    reach (client_init config) client_step (sys_someip s) \<and> client (sys_feeder s) = sub_client (sys_sub s)"
  using sf.reach_seen [OF assms] sb.reach_seen [OF assms] sp.reach_seen [OF assms] sy.reach_inv [OF assms]
  by (simp add: sys_inv_def shared_client_def)

theorem system_refines_parts_witness:
  "\<exists>s :: jv system. reach sub_init sub_step (sys_sub s) \<and> reach feeder_init feeder_step (sys_feeder s) \<and>
    sys_sending s \<noteq> []"
proof -
  have "actuator_list (VSSMap (act_config (act_node ''UINT8'' 5 1))) \<noteq> []"
    by (simp add: actuator_list_def act_config_def)
  from delivering_reach [OF this act_change_requests] obtain s
    where "sys_reach jv_json (\<lambda>_. []) (act_config (act_node ''UINT8'' 5 1)) s" "sys_sending s \<noteq> []" by force
  with system_refines_parts [OF this(1)] show ?thesis by blast
qed

text \<open>
  C2. End to end from the broker to SOME/IP: whatever the threads have done, the requests handed
  to vsomeip so far, followed by those the callback is still sending, are exactly the requests for
  the responses read from the broker, in the order read, each response once, without at most the
  last one read.
\<close>

theorem actuator_changes_reach_someip:
  assumes "reach (sys_init config) (sys_step J so config) s" and "use_req (req config)"
  shows "\<exists>rs. (rs = received (sys_sub s) \<or> received (sys_sub s) \<noteq> [] \<and> rs = butlast (received (sys_sub s))) \<and>
    requests_of J so config (map changes_of rs) = Inr (sent_requests (sys_someip s) @ sys_sending s)"
proof -
  have "sub_inv (sys_sub s)" by (rule sb.reach_seen_inv [OF assms(1)])
  moreover have c: "cb (sys_sub s)"
    and q: "requests_of J so config (delivered (sys_sub s)) = Inr (sent_requests (sys_someip s) @ sys_sending s)"
    using reach_sent [OF assms] by (simp_all add: sent_ok_def)
  ultimately have "delivered (sys_sub s) = map changes_of (received (sys_sub s)) \<or>
      received (sys_sub s) \<noteq> [] \<and> delivered (sys_sub s) = map changes_of (butlast (received (sys_sub s)))"
    by (auto simp: sub_inv_def delivery_ok_def delivered_all_def split: sub_pc.splits)
  with q show ?thesis by metis
qed

theorem actuator_changes_reach_someip_witness:
  "\<exists>s. received (sys_sub s) = [[\<lparr>de_path = ''Vehicle.Target'', de_value = K_uint32 2, de_actuator_target = K_not_set\<rparr>]] \<and>
    sys_sending s \<noteq> [] \<and>
    sent_requests (sys_someip (s :: jv system)) @ sys_sending s =
      [\<lparr>msg_service = 0x6123, msg_instance = 0xb, msg_method = 7, msg_payload = [0, 0, 0, 0, 0, 2]\<rparr>]"
proof -
  let ?config = "act_config (act_node ''UINT8'' 5 1)"
  let ?u = "\<lparr>de_path = ''Vehicle.Target'', de_value = K_uint32 2, de_actuator_target = K_not_set\<rparr>"
  have "actuator_list (VSSMap ?config) \<noteq> []" and u: "use_req (req ?config)"
    by (simp_all add: actuator_list_def act_config_def)
  from delivering_reach [OF this(1) act_change_requests] obtain s where s:
    "sys_reach jv_json (\<lambda>_. []) ?config s" "received (sys_sub s) = [[?u]]"
    "sys_sending s = [\<lparr>msg_service = 0x6123, msg_instance = 0xb, msg_method = 7, msg_payload = [0, 0, 0, 0, 0, 2]\<rparr>]"
    by blast
  from actuator_changes_reach_someip [OF s(1) u] s(2,3) act_change_requests show ?thesis
    by (intro exI [of _ s]) auto
qed

end
