(* ===== verification/Feeder_Shutdown.thy ===== *)
theory Feeder_Shutdown
  imports Feeder_System
begin

text \<open>
  Shutting down the running program: when \<open>SomeipFeederAdapter::Shutdown\<close> returns, with its joins,
  and when it never does. The system is the one of \<open>Feeder_System\<close>; that every schedule ends is an
  interpretation of \<open>terminating_system\<close>, whose rank combines those of the feeder and the
  subscriber thread with what handlers, callback, SOME/IP thread and \<open>Shutdown\<close> still have to do.
\<close>

section \<open>Shutting down\<close>

text \<open>
  All parts have been told to stop and none can miss it: the feeder thread is not about to wait,
  nothing the subscriber thread still does can block, and the SOME/IP application was running
  when it was stopped.
\<close>

definition sys_stopping :: "'j system \<Rightarrow> bool" where
  "sys_stopping s = (sys_error s = None \<and> Sd_join_someip \<le> sd_pc s \<and> winding_down (sys_feeder s) \<and>
     stoppable (sys_sub s) \<and> \<not> handlers_on (sys_someip s) \<and>
     (so_pc s = So_done \<or> so_pc s = So_running \<and> app_state (sys_someip s) = App_stopped))"

fun handler_rank :: "handler \<Rightarrow> nat" where
  "handler_rank (Next xs) = 2 * length xs + 1"
| "handler_rank (Locking n v xs) = 2 * length xs + 2"

fun so_rank :: "someip_pc \<Rightarrow> nat" where
  "so_rank So_done = 0" | "so_rank So_running = 1" | "so_rank So_start = 2" | "so_rank So_register = 3"
| "so_rank So_init = 4"

fun sd_rank :: "shutdown_pc \<Rightarrow> nat" where
  "sd_rank Sd_returned = 0" | "sd_rank Sd_join_sub = 1" | "sd_rank Sd_join_feeder = 2"
| "sd_rank Sd_join_someip = 3" | "sd_rank _ = 4"

definition sys_rank :: "'j system \<Rightarrow> (nat \<times> nat) \<times> nat" where
  "sys_rank s = (sub_rank (sub_pc (sys_sub s)),
     rank (pc (sys_feeder s)) + length (sys_sending s) + sum_list (map handler_rank (sys_handlers s)) +
     so_rank (so_pc s) + sd_rank (sd_pc s))"

definition sys_order :: "(((nat \<times> nat) \<times> nat) \<times> (nat \<times> nat) \<times> nat) set" where
  "sys_order = rank_order <*lex*> less_than"

lemma handlers_on_app_do [simp]: "handlers_on (app_do cs c) = fold note_handlers cs (handlers_on c)"
  by (simp add: handlers_on_def)

lemma app_state_app_do [simp]: "app_state (app_do cs c) = fold note_app cs (app_state c)"
  by (simp add: app_state_def)

lemma send_request_app [simp]:
  "handlers_on (send_request svc inst m p c) = handlers_on c" "app_state (send_request svc inst m p c) = app_state c"
  by (simp_all add: send_request_def SendRequest_def Let_def)

lemma subscription_calls_app:
  "fold note_handlers (subscription_calls c) b = b" "fold note_app (subscription_calls c) a = a"
  by (rule fold_invariant [where Q = "\<lambda>x. x \<in> set (subscription_calls c)" and P = "\<lambda>b. b = _"];
      auto simp: subscription_calls_def)+

lemma init_app [simp]:
  "app_state (init_done name c) = app_state c" "sc_stop_requested (init_done name c) = sc_stop_requested c"
  "sc_initialized (init_done name c)"
  "app_state (init_register c) = app_state c" "sc_stop_requested (init_register c) = sc_stop_requested c"
  "sc_initialized (init_register c) = sc_initialized c" "handlers_on (init_register c)"
  by (simp_all add: init_done_def init_register_calls subscription_calls_app)
    (simp_all add: app_state_def)

lemma Shutdown_app:
  assumes "\<not> sc_stop_requested c"
  shows "\<not> handlers_on (client_Shutdown c)"
    "app_state (client_Shutdown c) = (if sc_initialized c \<and> app_state c = App_running then App_stopped else app_state c)"
proof -
  have "app_state (c\<lparr>sc_stop_requested := True, req_service_available := False\<rparr>) = app_state c"
    by (simp add: app_state_def)
  with assms show "\<not> handlers_on (client_Shutdown c)"
    "app_state (client_Shutdown c) = (if sc_initialized c \<and> app_state c = App_running then App_stopped else app_state c)"
    by (simp_all add: client_Shutdown_def client_stop_def Let_def)
qed

lemma Shutdown_idle [simp]: "app_state c = App_idle \<Longrightarrow> app_state (client_Shutdown c) = App_idle"
  by (cases "sc_stop_requested c") (simp_all add: Shutdown_app(2), simp add: client_Shutdown_def)

lemma stoppable_client [simp]: "stoppable (b\<lparr>sub_client := c\<rparr>) = stoppable b"
  by (cases "sub_pc b") (simp_all add: stoppable_def stream_ended_def)

lemma winding_down_client [simp]: "winding_down (f\<lparr>client := c\<rparr>) = winding_down f"
  by (simp add: winding_down_def past_check_def)

lemma stoppable_no_callback: "stoppable b \<Longrightarrow> \<not> at_callback b"
  by (simp add: stoppable_def at_callback_def)

lemma winding_down_feed:
  assumes "winding_down f"
  shows "winding_down (notify_all (f\<lparr>pending := p, stored_values := v, latest := l\<rparr>)) \<and>
    pc (notify_all (f\<lparr>pending := p, stored_values := v, latest := l\<rparr>)) = pc f"
  using assms by (auto simp: winding_down_def past_check_def notify_all_def)

lemma prog_step_stopping:
  assumes "prog_step J so config s t" and "sys_stopping s"
  shows "sys_stopping t \<and> (sys_rank t, sys_rank s) \<in> sys_order"
  using assms
proof (induction rule: prog_step.induct)
  case (feeder_thread s f)
  then show ?case using wd.good_step wd.rank_step
    by (auto simp: sys_stopping_def sys_rank_def sys_order_def)
next
  case (subscriber_thread s b)
  then show ?case using sw.good_step sw.rank_step
    by (auto simp: sys_stopping_def sys_rank_def sys_order_def)
next
  case (handler_feed s hs n v xs hs' ps qs)
  then show ?case using winding_down_feed [of "sys_feeder s"]
    by (auto simp: sys_stopping_def sys_rank_def sys_order_def)
qed (auto simp: sys_stopping_def sys_rank_def sys_order_def winding_down_def dest: stoppable_no_callback)

lemma env_step_stopping:
  assumes "env_step J config s t" and "sys_stopping s"
  shows "sys_stopping t \<and> sys_rank t = sys_rank s"
  using assms
proof (induction rule: env_step.induct)
  case (server_closes s b)
  then show ?case
    by (auto simp: sys_stopping_def sys_rank_def server_close_def stoppable_def stream_ended_def split: sub_pc.splits)
qed (auto simp: sys_stopping_def spurious_step_def winding_down_def past_check_def)

lemma handler_progress:
  assumes "handlers_ok s" and "sys_error s = None" and "sys_handlers s = h # hs"
  shows "\<exists>t. prog_step J so config s t"
proof (cases h)
  case (Next xs)
  then show ?thesis
    using assms handler_done [of s "[]" hs J so config] handler_test [of s "[]" _ _ _ hs J so config]
    by (cases xs) auto
next
  case (Locking n v xs)
  with assms have "[(n, v)] \<in># mset (pending (sys_feeder s))" by (simp add: handlers_ok_def)
  then obtain ps qs where "pending (sys_feeder s) = ps @ [(n, v)] # qs"
    by (auto dest: split_list)
  with assms Locking show ?thesis using handler_feed [of s "[]" n v xs hs ps qs J so config] by auto
qed

lemma stopping_progress:
  assumes "sys_stopping s" and "handlers_ok s" and "sd_pc s \<noteq> Sd_returned"
  shows "\<exists>t. prog_step J so config s t"
proof -
  have e: "sys_error s = None" using assms(1) by (simp add: sys_stopping_def)
  have "\<exists>t. prog_step J so config s t" if "pc (sys_feeder s) \<noteq> Done"
    using wd.progress [OF _ that] assms(1) e feeder_thread by (metis sys_stopping_def)
  moreover have "\<exists>t. prog_step J so config s t" if "sys_sending s \<noteq> []"
    using that e callback_send by (cases "sys_sending s") blast+
  moreover have "\<exists>t. prog_step J so config s t" if "sub_pc (sys_sub s) \<noteq> Sub_done" "sys_sending s = []"
    using sw.progress [OF _ that(1)] that(2) assms(1) e stoppable_no_callback subscriber_thread
    by (metis sys_stopping_def)
  moreover have "\<exists>t. prog_step J so config s t" if "so_pc s \<noteq> So_done"
    using that assms(1) e handler_progress [OF assms(2) e] someip_return [OF e]
    by (cases "sys_handlers s") (auto simp: sys_stopping_def)
  moreover have "\<exists>t. prog_step J so config s t"
    if "pc (sys_feeder s) = Done" "sub_pc (sys_sub s) = Sub_done" "sys_sending s = []" "so_pc s = So_done"
    using that assms(1,3) sd_join_someip [OF e, of J so config] sd_join_feeder [OF e, of J so config]
      sd_join_sub [OF e, of J so config]
    by (cases "sd_pc s") (auto simp: sys_stopping_def)
  ultimately show ?thesis by blast
qed

interpretation st: terminating_system "prog_step J so config" "\<lambda>s. sys_stopping s \<and> handlers_ok s"
    "\<lambda>s. sd_pc s = Sd_returned" sys_rank sys_order for J so config
proof unfold_locales
  show "wf sys_order" by (simp add: sys_order_def wf_rank_order wf_lex_prod)
qed (use prog_step_stopping prog_step_handlers stopping_progress in blast)+

text \<open>
  Two shutdowns that never return: the subscriber's \<open>Shutdown\<close> came before its \<open>Run\<close>, which
  sets the flag again; or the SOME/IP client's came before its initialisation.
\<close>

definition subscriber_missed :: "'j system \<Rightarrow> bool" where
  "subscriber_missed s = (Sd_feeder_test \<le> sd_pc s \<and> sd_pc s < Sd_returned \<and> actuators (sys_sub s) \<noteq> [] \<and>
     (sub_pc (sys_sub s) = Sub_start \<or> subscriber_active (sys_sub s) \<and> sub_pc (sys_sub s) \<noteq> Sub_done))"

definition someip_missed :: "'j system \<Rightarrow> bool" where
  "someip_missed s = (sd_pc s = Sd_join_someip \<and> so_pc s \<in> {So_register, So_start, So_running} \<and>
     app_state (sys_someip s) \<noteq> App_stopped)"

lemma sub_run_step_missed:
  assumes "sub_run_step b d" and "actuators b \<noteq> []"
    and "sub_pc b = Sub_start \<or> subscriber_active b \<and> sub_pc b \<noteq> Sub_done"
  shows "actuators d \<noteq> [] \<and> subscriber_active d \<and> sub_pc d \<noteq> Sub_done"
  using assms by (induction rule: sub_run_step.induct) auto

lemma prog_step_subscriber_missed:
  "prog_step J so config s t \<Longrightarrow> subscriber_missed s \<Longrightarrow> subscriber_missed t"
proof (induction rule: prog_step.induct)
  case (subscriber_thread s b)
  then show ?case using sub_run_step_missed [of "sys_sub s" b] by (auto simp: subscriber_missed_def)
next
  case (callback s changes rs b)
  then show ?case using sub_run_step_missed [of "sys_sub s" b] by (auto simp: subscriber_missed_def)
qed (auto simp: subscriber_missed_def)

lemma prog_step_someip_missed:
  "prog_step J so config s t \<Longrightarrow> someip_missed s \<Longrightarrow> someip_missed t"
  by (induction rule: prog_step.induct) (auto simp: someip_missed_def client_start_def)

lemma app_state_handlers [simp]:
  "app_state (on_state st c) = app_state c"
  "app_state (on_availability svc inst avail c) = app_state c"
proof -
  have "fold note_app (subscription_calls c) a = a" for a
    by (rule fold_invariant [where Q = "\<lambda>x. x \<in> set (subscription_calls c)" and P = "\<lambda>b. b = a"])
      (auto simp: subscription_calls_def)
  moreover have "app_state (d\<lparr>req_service_available := b\<rparr>) = app_state d" for d :: "'a SomeIPClient" and b
    by (simp add: app_state_def)
  ultimately show "app_state (on_state st c) = app_state c"
    "app_state (on_availability svc inst avail c) = app_state c"
    by (simp_all add: on_state_def on_availability_cases Let_def)
qed

lemma env_step_missed:
  "env_step J config s t \<Longrightarrow> subscriber_missed s \<Longrightarrow> subscriber_missed t"
  "env_step J config s t \<Longrightarrow> someip_missed s \<Longrightarrow> someip_missed t"
  by (induction rule: env_step.induct) (auto simp: subscriber_missed_def someip_missed_def server_close_def)

interpretation sm: invariant_system subscriber_missed "sys_step J so config" subscriber_missed for J so config
  using prog_step_subscriber_missed env_step_missed(1) by unfold_locales (auto simp: sys_step_def)

interpretation am: invariant_system someip_missed "sys_step J so config" someip_missed for J so config
  using prog_step_someip_missed env_step_missed(2) by unfold_locales (auto simp: sys_step_def)

text \<open>
  Before its thread has started the application is not stopped; a client stopped before its
  initialisation stays so, unless the initialisation fails.
\<close>

definition not_started :: "'j system \<Rightarrow> bool" where
  "not_started s = (so_pc s \<in> {So_init, So_register, So_start} \<longrightarrow> app_state (sys_someip s) = App_idle)"

definition unstarted :: "'j system \<Rightarrow> bool" where
  "unstarted s = (so_pc s = So_init \<and> sd_pc s = Sd_join_someip \<and> app_state (sys_someip s) = App_idle \<or>
     someip_missed s \<or> so_pc s = So_done)"

lemma prog_step_not_started: "prog_step J so config s t \<Longrightarrow> not_started s \<Longrightarrow> not_started t"
  by (induction rule: prog_step.induct) (auto simp: not_started_def)

lemma env_step_not_started: "env_step J config s t \<Longrightarrow> not_started s \<Longrightarrow> not_started t"
  by (induction rule: env_step.induct) (auto simp: not_started_def)

interpretation ai: invariant_system "sys_init config" "sys_step J so config" not_started for J so config
proof unfold_locales
  show "not_started s" if "sys_init config s" for s
    using that by (auto simp: sys_init_def new_system_def not_started_def new_SomeIPClient_def app_state_def)
qed (use prog_step_not_started env_step_not_started in \<open>auto simp: sys_step_def\<close>)

lemma prog_step_unstarted: "prog_step J so config s t \<Longrightarrow> unstarted s \<Longrightarrow> unstarted t"
  by (induction rule: prog_step.induct) (auto simp: unstarted_def someip_missed_def client_start_def)

lemma env_step_unstarted: "env_step J config s t \<Longrightarrow> unstarted s \<Longrightarrow> unstarted t"
  by (induction rule: env_step.induct) (auto simp: unstarted_def someip_missed_def)

interpretation un: invariant_system unstarted "sys_step J so config" unstarted for J so config
  using prog_step_unstarted env_step_unstarted by unfold_locales (auto simp: sys_step_def)

text \<open>The subscriber is the one the configuration asks for.\<close>

lemma sub_run_step_actuators: "sub_run_step b d \<Longrightarrow> actuators d = actuators b"
  by (induction rule: sub_run_step.induct) auto

lemma reach_actuators:
  "sys_reach J so config s \<Longrightarrow> actuators (sys_sub s) = actuator_list (VSSMap config)"
proof (induction rule: reach.induct)
  case (reach_init s)
  then show ?case by (auto simp: sys_init_def new_system_def sub_Init_def)
next
  case (reach_step s t)
  have "actuators (sys_sub t) = actuators (sys_sub s)" if "prog_step J so config s t"
    using that by (induction rule: prog_step.induct) (auto simp: sub_run_step_actuators try_cancel_def)
  moreover have "actuators (sys_sub t) = actuators (sys_sub s)" if "env_step J config s t"
    using that by (induction rule: env_step.induct) (auto simp: server_close_def)
  ultimately show ?case using reach_step by (auto simp: sys_step_def)
qed

section \<open>Runs\<close>

text \<open>\<open>Shutdown\<close> up to its first join, when no other thread comes in between.\<close>

definition stop_calls :: "'j system \<Rightarrow> 'j system" where
  "stop_calls s = s\<lparr>sys_sub := sub_Shutdown (sys_sub s), sys_feeder := feeder_Shutdown (sys_feeder s),
     sys_someip := client_Shutdown (sys_someip s), sd_pc := Sd_join_someip\<rparr>"

lemma stop_subscriber_steps:
  assumes e: "sys_error s = None" and p: "sd_pc s = Sd_sub_test"
    and z: "stop_entered (sys_sub s) = 0" "stop_cancelling (sys_sub s) = 0"
  shows "(prog_step J so config)\<^sup>*\<^sup>* s (s\<lparr>sys_sub := sub_Shutdown (sys_sub s), sd_pc := Sd_feeder_test\<rparr>)"
proof (cases "subscriber_active (sys_sub s)")
  case True
  let ?P = "prog_step J so config" and ?b = "sys_sub s"
  let ?s1 = "s\<lparr>sys_sub := ?b\<lparr>stop_entered := 1\<rparr>, sd_pc := Sd_sub_clear\<rparr>"
  let ?s2 = "s\<lparr>sys_sub := ?b\<lparr>stop_entered := 0, stop_cancelling := 1, subscriber_active := False\<rparr>,
      sd_pc := Sd_sub_cancel\<rparr>"
  have b: "?b\<lparr>stop_entered := 0, subscriber_active := False, stop_cancelling := 0\<rparr> = ?b\<lparr>subscriber_active := False\<rparr>"
    using z by (cases ?b) simp
  have "?P s ?s1" using sd_sub_test [of s J so config] e p z True by simp
  moreover have "?P ?s1 ?s2" using sd_sub_clear [of ?s1 J so config] e z by simp
  moreover have "?P ?s2 (s\<lparr>sys_sub := sub_Shutdown ?b, sd_pc := Sd_feeder_test\<rparr>)"
    using sd_sub_cancel [of ?s2 J so config] e True b by (simp add: sub_Shutdown_def)
  ultimately show ?thesis by (meson converse_rtranclp_into_rtranclp rtranclp.rtrancl_refl)
next
  case False
  then show ?thesis using sd_sub_test [of s J so config] e p by (simp add: sub_Shutdown_def r_into_rtranclp)
qed

lemma stop_feeder_steps:
  assumes e: "sys_error s = None" and p: "sd_pc s = Sd_feeder_test"
    and z: "shutdown_entered (sys_feeder s) = 0" "shutdown_to_notify (sys_feeder s) = 0"
  shows "(prog_step J so config)\<^sup>*\<^sup>* s (s\<lparr>sys_feeder := feeder_Shutdown (sys_feeder s), sd_pc := Sd_someip\<rparr>)"
proof (cases "feeder_active (sys_feeder s)")
  case True
  let ?P = "prog_step J so config" and ?f = "sys_feeder s"
  let ?s1 = "s\<lparr>sys_feeder := ?f\<lparr>shutdown_entered := 1\<rparr>, sd_pc := Sd_feeder_lock\<rparr>"
  let ?s2 = "s\<lparr>sys_feeder := ?f\<lparr>shutdown_entered := 0, shutdown_to_notify := 1, stored_values := [],
      feeder_active := False, latest := Map.empty\<rparr>, sd_pc := Sd_feeder_notify\<rparr>"
  have f: "?f\<lparr>shutdown_entered := 0, stored_values := [], feeder_active := False, latest := Map.empty,
      shutdown_to_notify := 0\<rparr> = ?f\<lparr>stored_values := [], feeder_active := False, latest := Map.empty\<rparr>"
    using z by (cases ?f) simp
  have "?P s ?s1" using sd_feeder_test [of s J so config] e p z True by simp
  moreover have "?P ?s1 ?s2" using sd_feeder_lock [of ?s1 J so config] e z by simp
  moreover have "?P ?s2 (s\<lparr>sys_feeder := feeder_Shutdown ?f, sd_pc := Sd_someip\<rparr>)"
    using sd_feeder_notify [of ?s2 J so config] e True f by (simp add: feeder_Shutdown_def)
  ultimately show ?thesis by (meson converse_rtranclp_into_rtranclp rtranclp.rtrancl_refl)
next
  case False
  then show ?thesis using sd_feeder_test [of s J so config] e p by (simp add: feeder_Shutdown_def r_into_rtranclp)
qed

lemma stop_calls_steps:
  assumes e: "sys_error s = None" and p: "sd_pc s = Sd_idle"
    and z: "stop_entered (sys_sub s) = 0" "stop_cancelling (sys_sub s) = 0"
      "shutdown_entered (sys_feeder s) = 0" "shutdown_to_notify (sys_feeder s) = 0"
  shows "(prog_step J so config)\<^sup>*\<^sup>* s (stop_calls s)"
proof -
  let ?P = "prog_step J so config"
  let ?s1 = "s\<lparr>sd_pc := Sd_sub_test\<rparr>"
  let ?s2 = "s\<lparr>sys_sub := sub_Shutdown (sys_sub s), sd_pc := Sd_feeder_test\<rparr>"
  let ?s3 = "s\<lparr>sys_sub := sub_Shutdown (sys_sub s), sys_feeder := feeder_Shutdown (sys_feeder s), sd_pc := Sd_someip\<rparr>"
  have "?P\<^sup>*\<^sup>* s ?s1" using e p by (intro r_into_rtranclp sd_begin)
  also have "?P\<^sup>*\<^sup>* ?s1 ?s2" using stop_subscriber_steps [of ?s1 J so config] e z by simp
  also have "?P\<^sup>*\<^sup>* ?s2 ?s3" using stop_feeder_steps [of ?s2 J so config] e z by simp
  also have "?P\<^sup>*\<^sup>* ?s3 (stop_calls s)"
    using sd_someip [of ?s3 J so config] e by (simp add: stop_calls_def r_into_rtranclp)
  finally show ?thesis .
qed

text \<open>The system with its SOME/IP application running.\<close>

definition serving :: "'j SomeIPConfig \<Rightarrow> 'j system" where
  "serving config = (new_system (new_CollectorClient Map.empty [] []) config)
     \<lparr>sys_someip := client_start (init_register (init_done ''feeder'' (new_SomeIPClient config))), so_pc := So_running\<rparr>"

lemma serving_reach: "sys_reach J so config (serving config)"
proof -
  let ?i = "new_system (new_CollectorClient Map.empty [] []) config"
  let ?r = "?i\<lparr>sys_someip := init_done ''feeder'' (new_SomeIPClient config), so_pc := So_register\<rparr>"
  let ?s = "?i\<lparr>sys_someip := init_register (init_done ''feeder'' (new_SomeIPClient config)), so_pc := So_start\<rparr>"
  have "prog_step J so config ?i ?r"
    using someip_init [of ?i J so config "''feeder''"] by (simp add: new_system_def)
  moreover have "prog_step J so config ?r ?s"
    using someip_register [of ?r J so config] by (simp add: new_system_def)
  moreover have "prog_step J so config ?s (serving config)"
    using someip_start [of ?s J so config] by (simp add: serving_def new_system_def)
  ultimately show ?thesis using new_system_reach prog_reach by blast
qed

lemma serving_stop:
  assumes "actuator_list (VSSMap config) = []"
  shows "\<exists>s. sys_reach J so config s \<and> sys_stopping s \<and> sd_pc s = Sd_join_someip"
proof -
  let ?s = "serving config"
  let ?b = "(sys_sub ?s)\<lparr>subscriber_active := False, sub_pc := Sub_done\<rparr>"
  note d = serving_def new_system_def sub_Init_def new_subscriber_def new_feeder_def
  have b: "sub_run_step (sys_sub ?s) ?b" using start_empty [of "sys_sub ?s"] assms by (simp add: d)
  have "prog_step J so config ?s (put_sub ?b ?s)"
    using b by (intro subscriber_thread) (simp_all add: d at_callback_def)
  note r = prog_reach [OF serving_reach this]
  have "(prog_step J so config)\<^sup>*\<^sup>* (put_sub ?b ?s) (stop_calls (put_sub ?b ?s))"
    by (rule stop_calls_steps) (simp_all add: d)
  then have "(sys_step J so config)\<^sup>*\<^sup>* (put_sub ?b ?s) (stop_calls (put_sub ?b ?s))"
    by (rule rtranclp_into) (simp add: sys_step_def)
  note r2 = reach_steps [OF this r]
  let ?c = "client_start (init_register (init_done ''feeder'' (new_SomeIPClient config)))"
  have "app_state ?c = App_running" "\<not> sc_stop_requested ?c" "sc_initialized ?c"
    by (simp_all add: client_start_def new_SomeIPClient_def)
  then have "\<not> handlers_on (client_Shutdown ?c)" "app_state (client_Shutdown ?c) = App_stopped"
    by (simp_all add: Shutdown_app)
  moreover have "winding_down (sys_feeder (stop_calls (put_sub ?b ?s)))"
    by (simp add: stop_calls_def d feeder_Shutdown_def winding_down_def past_check_def notify_all_def)
  moreover have "stoppable (sys_sub (stop_calls (put_sub ?b ?s)))"
    by (simp add: stop_calls_def sub_Shutdown_def stoppable_def)
  ultimately have "sys_stopping (stop_calls (put_sub ?b ?s))"
    by (simp add: sys_stopping_def stop_calls_def d)
  with r2 show ?thesis by (intro exI [of _ "stop_calls (put_sub ?b ?s)"]) (simp add: stop_calls_def)
qed

lemma subscriber_missed_run:
  assumes "actuator_list (VSSMap config) \<noteq> []"
  shows "\<exists>s. sys_reach J so config s \<and> sd_pc s = Sd_feeder_test \<and> sub_pc (sys_sub s) = Sub_start \<and> subscriber_missed s"
proof -
  let ?i = "new_system (new_CollectorClient Map.empty [] []) config"
  let ?s = "?i\<lparr>sd_pc := Sd_feeder_test\<rparr>"
  note d = new_system_def sub_Init_def new_subscriber_def new_feeder_def
  have "prog_step J so config ?i (?i\<lparr>sd_pc := Sd_sub_test\<rparr>)" by (rule sd_begin) (simp_all add: d)
  moreover have "prog_step J so config (?i\<lparr>sd_pc := Sd_sub_test\<rparr>) ?s"
    using sd_sub_test [of "?i\<lparr>sd_pc := Sd_sub_test\<rparr>" J so config] by (simp add: d)
  ultimately have "sys_reach J so config ?s" using prog_reach new_system_reach by blast
  moreover have "subscriber_missed ?s" "sub_pc (sys_sub ?s) = Sub_start" "sd_pc ?s = Sd_feeder_test"
    using assms by (simp_all add: subscriber_missed_def d)
  ultimately show ?thesis by blast
qed

lemma unstarted_run:
  "\<exists>s t. sys_reach J so config s \<and> sd_pc s = Sd_join_someip \<and> so_pc s = So_init \<and>
    sys_step J so config s t \<and> so_pc t = So_register"
proof -
  let ?i = "new_system (new_CollectorClient Map.empty [] []) config"
  let ?s = "stop_calls ?i"
  let ?t = "?s\<lparr>sys_someip := init_done ''feeder'' (sys_someip ?s), so_pc := So_register\<rparr>"
  note d = new_system_def sub_Init_def new_subscriber_def new_feeder_def
  have "(sys_step J so config)\<^sup>*\<^sup>* ?i ?s"
    by (rule rtranclp_into [OF stop_calls_steps [of ?i J so config]]) (simp_all add: d sys_step_def)
  note r = reach_steps [OF this new_system_reach]
  have "sys_step J so config ?s ?t"
    using someip_init [of ?s J so config "''feeder''"] by (simp add: d stop_calls_def sys_step_def)
  with r show ?thesis by (intro exI [of _ ?s] exI [of _ ?t]) (simp add: d stop_calls_def)
qed

section \<open>Properties\<close>

text \<open>
  C7. Shutting down returns: once \<open>Shutdown\<close> has told all parts to stop, the feeder thread is
  not about to wait, nothing the subscriber thread does next can block and the SOME/IP application
  was running when it was stopped, then every step of a thread of the program descends in a
  well-founded order, nothing the libraries do undoes that, some thread can always step until
  \<open>Shutdown\<close> has returned, and so it returns.
\<close>

theorem system_shutdown_returns:
  assumes "reach (sys_init config) (sys_step J so config) s" and "sys_stopping s"
  shows "(\<exists>t. (prog_step J so config)\<^sup>*\<^sup>* s t \<and> sd_pc t = Sd_returned) \<and>
    (\<forall>t. sys_step J so config s t \<longrightarrow> sys_stopping t \<and>
       (prog_step J so config s t \<and> (sys_rank t, sys_rank s) \<in> sys_order \<or> sys_rank t = sys_rank s)) \<and>
    wf sys_order \<and> (sd_pc s = Sd_returned \<or> (\<exists>t. prog_step J so config s t))"
proof -
  have g: "sys_stopping s \<and> handlers_ok s" using sy.reach_inv [OF assms(1)] assms(2) by (simp add: sys_inv_def)
  show ?thesis
    using st.returns [OF g, of J so config] st.progress [OF g, of J so config] st.wf_order
      prog_step_stopping [OF _ assms(2), of J so config] env_step_stopping [OF _ assms(2), of J config]
    unfolding sys_step_def by blast
qed

theorem system_shutdown_returns_witness:
  "\<exists>s t. reach (sys_init (ev_config ev_sample)) (sys_step jv_json (\<lambda>_. []) (ev_config ev_sample)) s \<and>
    sd_pc s = Sd_join_someip \<and> (prog_step jv_json (\<lambda>_. []) (ev_config ev_sample))\<^sup>*\<^sup>* s t \<and> sd_pc t = Sd_returned"
proof -
  have "actuator_list (VSSMap (ev_config ev_sample)) = []" by (simp add: actuator_list_def ev_config_def)
  from serving_stop [OF this] obtain s where
    "sys_reach jv_json (\<lambda>_. []) (ev_config ev_sample) s" "sys_stopping s" "sd_pc s = Sd_join_someip" by blast
  with system_shutdown_returns [OF this(1,2)] show ?thesis by blast
qed

text \<open>
  C19. A shutdown too early never returns. Every \<open>Shutdown\<close> that has looked at the subscriber before
  its thread has entered \<open>Run\<close>, which is possible, never returns: it found the subscriber inactive,
  \<open>Run\<close> sets the flag, nobody clears it again, and the join of that thread never ends. And if
  \<open>Shutdown\<close> has stopped the SOME/IP client before its thread has initialised it, which is possible
  too, the application is not stopped; whenever the initialisation succeeds after that,
  \<open>Shutdown\<close> stays at the join of the SOME/IP thread for ever.
\<close>

theorem system_shutdown_too_early:
  assumes "actuator_list (VSSMap config) \<noteq> []"
  shows "(\<exists>s. reach (sys_init config) (sys_step J so config) s \<and> sd_pc s = Sd_feeder_test \<and>
      sub_pc (sys_sub s) = Sub_start) \<and>
    (\<forall>s t. reach (sys_init config) (sys_step J so config) s \<and> sd_pc s = Sd_feeder_test \<and>
      sub_pc (sys_sub s) = Sub_start \<and> (sys_step J so config)\<^sup>*\<^sup>* s t \<longrightarrow> sd_pc t \<noteq> Sd_returned) \<and>
    (\<exists>s t. reach (sys_init config) (sys_step J so config) s \<and> sd_pc s = Sd_join_someip \<and> so_pc s = So_init \<and>
      sys_step J so config s t \<and> so_pc t = So_register) \<and>
    (\<forall>s t u. reach (sys_init config) (sys_step J so config) s \<and> sd_pc s = Sd_join_someip \<and> so_pc s = So_init \<and>
      (sys_step J so config)\<^sup>*\<^sup>* s t \<and> so_pc t \<notin> {So_init, So_done} \<and> (sys_step J so config)\<^sup>*\<^sup>* t u \<longrightarrow>
      sd_pc u = Sd_join_someip)"
proof (intro conjI allI impI)
  show "\<exists>s. sys_reach J so config s \<and> sd_pc s = Sd_feeder_test \<and> sub_pc (sys_sub s) = Sub_start"
    using subscriber_missed_run [OF assms] by blast
  show "\<exists>s t. sys_reach J so config s \<and> sd_pc s = Sd_join_someip \<and> so_pc s = So_init \<and>
      sys_step J so config s t \<and> so_pc t = So_register"
    by (rule unstarted_run)
next
  fix s t
  assume a: "sys_reach J so config s \<and> sd_pc s = Sd_feeder_test \<and> sub_pc (sys_sub s) = Sub_start \<and>
      (sys_step J so config)\<^sup>*\<^sup>* s t"
  then have "actuators (sys_sub s) = actuator_list (VSSMap config)" using reach_actuators by blast
  with a assms have "subscriber_missed s" by (simp add: subscriber_missed_def)
  with a have "subscriber_missed t" using sm.steps_inv by blast
  then show "sd_pc t \<noteq> Sd_returned" by (auto simp: subscriber_missed_def)
next
  fix s t u
  assume a: "sys_reach J so config s \<and> sd_pc s = Sd_join_someip \<and> so_pc s = So_init \<and>
      (sys_step J so config)\<^sup>*\<^sup>* s t \<and> so_pc t \<notin> {So_init, So_done} \<and> (sys_step J so config)\<^sup>*\<^sup>* t u"
  then have "not_started s" using ai.reach_inv by blast
  with a have "unstarted s" by (simp add: unstarted_def not_started_def)
  with a have "unstarted t" using un.steps_inv by blast
  with a have "someip_missed t" by (simp add: unstarted_def)
  with a have "someip_missed u" using am.steps_inv by blast
  then show "sd_pc u = Sd_join_someip" by (simp add: someip_missed_def)
qed

theorem system_shutdown_too_early_witness:
  "\<exists>s. sys_reach jv_json (\<lambda>_. []) (act_config (act_node ''UINT8'' 5 1)) s \<and> sd_pc s = Sd_feeder_test \<and>
    {t. (sys_step jv_json (\<lambda>_. []) (act_config (act_node ''UINT8'' 5 1)))\<^sup>*\<^sup>* s t} \<subseteq> {t. sd_pc t \<noteq> Sd_returned}"
proof -
  have "actuator_list (VSSMap (act_config (act_node ''UINT8'' 5 1))) \<noteq> []"
    by (simp add: actuator_list_def act_config_def)
  from system_shutdown_too_early [OF this] show ?thesis by blast
qed

end
