(* ===== verification/Feeder_Quiescence.thy ===== *)
theory Feeder_Quiescence
  imports Feeder_Shutdown
begin

text \<open>
  What \<open>SomeipFeederAdapter::Shutdown\<close> guarantees on the way and when it returns: each part has been
  told to stop before any thread is joined, each join ends after its thread, and after the last join
  nothing of the program can take a step. The order is that of \<open>shutdown_pc\<close>.
\<close>

section \<open>What each point of \<open>Shutdown\<close> guarantees\<close>

definition shutdown_ordered :: "'j system \<Rightarrow> bool" where
  "shutdown_ordered s =
     ((Sd_feeder_notify \<le> sd_pc s \<longrightarrow> \<not> feeder_active (sys_feeder s)) \<and>
      (Sd_join_someip \<le> sd_pc s \<longrightarrow> sc_stop_requested (sys_someip s)) \<and>
      (Sd_join_feeder \<le> sd_pc s \<longrightarrow> so_pc s = So_done) \<and>
      (Sd_join_sub \<le> sd_pc s \<longrightarrow> pc (sys_feeder s) = Done) \<and>
      (Sd_returned \<le> sd_pc s \<longrightarrow> sub_pc (sys_sub s) = Sub_done \<and> sys_sending s = []) \<and>
      (so_pc s \<noteq> So_running \<longrightarrow> sys_handlers s = []))"

lemma run_step_flags: "run_step f g \<Longrightarrow> feeder_active g = feeder_active f \<and> pc f \<noteq> Done"
  by (induction rule: run_step.induct) auto

lemma sub_run_step_not_done: "sub_run_step b d \<Longrightarrow> sub_pc b \<noteq> Sub_done"
  by (induction rule: sub_run_step.induct) auto

lemma stop_requested_kept [simp]:
  "sc_stop_requested (send_request svc inst m p c) = sc_stop_requested c"
  "sc_stop_requested (on_state st c) = sc_stop_requested c"
  "sc_stop_requested (on_availability svc inst avail c) = sc_stop_requested c"
  "sc_stop_requested (client_start c) = sc_stop_requested c"
  "sc_stop_requested (client_Shutdown c)"
  by (simp_all add: send_request_def SendRequest_def on_state_def on_availability_cases client_start_def
    client_Shutdown_def client_stop_def app_do_def Let_def)

lemma prog_step_ordered: "prog_step J so config s t \<Longrightarrow> shutdown_ordered s \<Longrightarrow> shutdown_ordered t"
proof (induction rule: prog_step.induct)
  case (feeder_thread s f)
  with run_step_flags [of "sys_feeder s" f] show ?case by (simp add: shutdown_ordered_def)
next
  case (subscriber_thread s b)
  with sub_run_step_not_done [of "sys_sub s" b] show ?case by (simp add: shutdown_ordered_def)
next
  case (callback s changes rs b)
  with sub_run_step_not_done [of "sys_sub s" b] show ?case by (simp add: shutdown_ordered_def)
qed (auto simp: shutdown_ordered_def notify_all_def)

lemma env_step_ordered: "env_step J config s t \<Longrightarrow> shutdown_ordered s \<Longrightarrow> shutdown_ordered t"
  by (induction rule: env_step.induct) (auto simp: shutdown_ordered_def spurious_step_def server_close_def)

interpretation sq: invariant_system "sys_init config" "sys_step J so config" shutdown_ordered for J so config
proof unfold_locales
  show "shutdown_ordered s" if "sys_init config s" for s
    using that by (auto simp: sys_init_def new_system_def shutdown_ordered_def)
qed (use prog_step_ordered env_step_ordered in \<open>auto simp: sys_step_def\<close>)

text \<open>\<open>Shutdown\<close> goes through its points in order and never back.\<close>

lemma sys_step_forward: "sys_step J so config s t \<Longrightarrow> sd_pc s \<le> sd_pc t"
proof -
  have "sd_pc s \<le> sd_pc t" if "prog_step J so config s t"
    using that by (induction rule: prog_step.induct) auto
  moreover have "sd_pc s \<le> sd_pc t" if "env_step J config s t"
    using that by (induction rule: env_step.induct) auto
  ultimately show "sys_step J so config s t \<Longrightarrow> sd_pc s \<le> sd_pc t" by (auto simp: sys_step_def)
qed

lemma sys_steps_forward: "(sys_step J so config)\<^sup>*\<^sup>* s t \<Longrightarrow> sd_pc s \<le> sd_pc t"
  by (induction rule: rtranclp_induct) (auto intro: order_trans sys_step_forward simp del: less_eq_shutdown_pc_def)

lemma returned_no_step:
  assumes "shutdown_ordered s" and "sd_pc s = Sd_returned"
  shows "\<not> prog_step J so config s t"
proof
  assume "prog_step J so config s t"
  then show False
    using assms
  proof (induction rule: prog_step.induct)
    case (feeder_thread s f)
    with run_step_flags [of "sys_feeder s" f] show ?case by (simp add: shutdown_ordered_def)
  next
    case (subscriber_thread s b)
    with sub_run_step_not_done [of "sys_sub s" b] show ?case by (simp add: shutdown_ordered_def)
  qed (auto simp: shutdown_ordered_def at_callback_def)
qed

section \<open>Properties\<close>

text \<open>
  C8. Once \<open>Shutdown\<close> has returned the program is quiescent for good: the feeder is inactive, the
  SOME/IP client has been told to stop, the feeder thread, the subscriber thread and the SOME/IP
  thread have returned, no message handler is active and no request is left to send; and in
  every later state, whatever the libraries do, no thread of the program can take a step.
\<close>

theorem system_shutdown_quiescent:
  assumes "reach (sys_init config) (sys_step J so config) s" and "sd_pc s = Sd_returned"
    and "(sys_step J so config)\<^sup>*\<^sup>* s t"
  shows "\<not> feeder_active (sys_feeder t) \<and> sc_stop_requested (sys_someip t) \<and> pc (sys_feeder t) = Done \<and>
    sub_pc (sys_sub t) = Sub_done \<and> so_pc t = So_done \<and> sys_handlers t = [] \<and> sys_sending t = [] \<and>
    \<not> (\<exists>u. prog_step J so config t u)"
proof -
  have "sd_pc t = Sd_returned"
    using sys_steps_forward [OF assms(3)] assms(2) by (cases "sd_pc t") simp_all
  moreover have "shutdown_ordered t" by (rule sq.reach_inv [OF reach_steps [OF assms(3,1)]])
  ultimately show ?thesis using returned_no_step [of t J so config] by (simp add: shutdown_ordered_def)
qed

theorem system_shutdown_quiescent_witness:
  "\<exists>s :: jv system. sd_pc s = Sd_returned \<and> pc (sys_feeder s) = Done \<and>
    \<not> (\<exists>u. prog_step jv_json (\<lambda>_. []) (ev_config ev_sample) s u)"
proof -
  have "actuator_list (VSSMap (ev_config ev_sample)) = []" by (simp add: actuator_list_def ev_config_def)
  from serving_stop [OF this] obtain s where s:
    "sys_reach jv_json (\<lambda>_. []) (ev_config ev_sample) s" "sys_stopping s" by blast
  then obtain t where "(prog_step jv_json (\<lambda>_. []) (ev_config ev_sample))\<^sup>*\<^sup>* s t" and t: "sd_pc t = Sd_returned"
    using st.returns [of s jv_json "\<lambda>_. []" "ev_config ev_sample"] sy.reach_inv [OF s(1)] by (auto simp: sys_inv_def)
  then have "(sys_step jv_json (\<lambda>_. []) (ev_config ev_sample))\<^sup>*\<^sup>* s t"
    by - (erule rtranclp_into, simp add: sys_step_def)
  from system_shutdown_quiescent [OF reach_steps [OF this s(1)] t rtranclp.rtrancl_refl] t show ?thesis by blast
qed

end
