(* ===== verification/Feeder_Delivery.thy ===== *)
theory Feeder_Delivery
  imports Broker_Feeder
begin

text \<open>
  What the broker feeder is for. The first part is its specification, a mailbox: a queue with one
  value per name, a batch taken from it, and the values handed over. The feeder with its threads,
  program points and connection is shown to be an implementation of it.

  The mailbox may keep everything for ever. The second part shows that the feeder does not: when
  the broker can be reached and answers, and no other thread interferes, everything that is queued
  or in flight has been accepted after at most 13 steps of the feeder thread, which then waits.
\<close>

section \<open>The mailbox\<close>

record mailbox =
  mb_initial :: "string \<Rightarrow> Datapoint option"
  mb_queue :: "string \<Rightarrow> Datapoint option"
  mb_batch :: "string \<Rightarrow> Datapoint option"
  mb_given :: "(string \<times> Datapoint) set"

text \<open>
  A value put into the mailbox replaces the queued one of its name. A batch is everything queued,
  with the initial values of names that have nothing queued if they are asked for; it is handed
  over as a whole or put back, without replacing what was queued meanwhile. Closing discards what
  is queued.
\<close>

inductive mailbox_step :: "mailbox \<Rightarrow> mailbox \<Rightarrow> bool" where
  mb_put: "mailbox_step m (m\<lparr>mb_queue := mb_queue m ++ vs\<rparr>)"
| mb_take: "mb_batch m = Map.empty \<Longrightarrow>
    mailbox_step m (m\<lparr>mb_batch := (if also_initial then mb_initial m ++ mb_queue m else mb_queue m),
      mb_queue := Map.empty\<rparr>)"
| mb_accept: "mailbox_step m (m\<lparr>mb_batch := Map.empty, mb_given := mb_given m \<union> Map.graph (mb_batch m)\<rparr>)"
| mb_return: "mailbox_step m (m\<lparr>mb_batch := Map.empty, mb_queue := mb_batch m ++ mb_queue m\<rparr>)"
| mb_close: "mailbox_step m (m\<lparr>mb_queue := Map.empty\<rparr>)"

definition mailbox_init :: "mailbox \<Rightarrow> bool" where
  "mailbox_init m = (mb_queue m = Map.empty \<and> mb_batch m = Map.empty \<and> mb_given m = {})"

definition mailbox_of :: "feeder \<Rightarrow> mailbox" where
  "mailbox_of s = \<lparr>mb_initial = initial s, mb_queue = stored s, mb_batch = in_flight s,
     mb_given = acked s \<union> unknown s \<union> clashed s\<rparr>"

lemma graph_map_of: "distinct (map fst xs) \<Longrightarrow> Map.graph (map_of xs) = set xs"
  by (simp add: graph_map_of_if_distinct_dom)

lemma run_step_mailbox:
  assumes "run_step s t" and "keys_ok s"
  shows "mailbox_of t = mailbox_of s \<or> mailbox_step (mailbox_of s) (mailbox_of t)"
  using assms
proof (induction rule: run_step.induct)
  case (take_values s i)
  then show ?case
    using mb_take [of "mailbox_of s" i]
    by (cases i) (simp_all add: mailbox_of_def map_of_values_to_feed in_flight_def)
next
  case (send s b st ok request c')
  then have "Map.graph (map_of b) = set b" by (simp add: keys_ok_def graph_map_of)
  moreover have "set b = {x \<in> set b. in_request (id_map s) request x} \<union> {x \<in> set b. map_of (id_map s) (fst x) = None} \<union>
      {x \<in> set b. \<not> in_request (id_map s) request x \<and> shares_id (id_map s) b (fst x)}"
    (is "_ = ?a \<union> ?u \<union> ?c")
    using send by (intro batch_accounted) (simp_all add: keys_ok_def)
  then have "acked s \<union> ?a \<union> (unknown s \<union> ?u) \<union> (clashed s \<union> ?c) = acked s \<union> unknown s \<union> clashed s \<union> set b"
    by blast
  ultimately show ?case
    using send(1) mb_accept [of "mailbox_of s"] by (cases ok) (simp_all add: mailbox_of_def in_flight_def)
next
  case (restore s b)
  then show ?case using mb_return [of "mailbox_of s"] by (simp add: mailbox_of_def in_flight_def)
qed (simp_all add: mailbox_of_def in_flight_def)

lemma mailbox_of_notify [simp]: "mailbox_of (notify_all s) = mailbox_of s"
  by (simp add: mailbox_of_def)

lemma call_step_mailbox:
  assumes "call_step s t" and "keys_ok s"
  shows "mailbox_of t = mailbox_of s \<or> mailbox_step (mailbox_of s) (mailbox_of t)"
  using assms
proof (induction rule: call_step.induct)
  case (feed_locked s xs vals ys)
  then have "distinct (map fst vals)" by (simp add: keys_ok_def pending_ok_def)
  then have "mailbox_of (s\<lparr>pending := xs @ ys, stored_values := storeValues vals (stored_values s),
      latest := latest s ++ map_of vals\<rparr>) = (mailbox_of s)\<lparr>mb_queue := mb_queue (mailbox_of s) ++ map_of vals\<rparr>"
    by (simp add: mailbox_of_def map_of_storeValues in_flight_def)
  then show ?case using mb_put by simp
next
  case (shutdown_locked s)
  then show ?case using mb_close [of "mailbox_of s"] by (simp add: mailbox_of_def in_flight_def)
next
  case (shutdown_notify s)
  have "mailbox_of (s\<lparr>shutdown_to_notify := k\<rparr>) = mailbox_of s" for k by (simp add: mailbox_of_def in_flight_def)
  then show ?case by simp
qed (simp_all add: mailbox_of_def in_flight_def)

interpretation fm: simulation feeder_init feeder_step keys_ok mailbox_of mailbox_init mailbox_step
proof unfold_locales
  show "mailbox_init (mailbox_of s)" if "feeder_init s" for s
    using that by (auto simp: feeder_init_def new_feeder_def mailbox_init_def mailbox_of_def in_flight_def)
  show "mailbox_step\<^sup>*\<^sup>* (mailbox_of s) (mailbox_of t)" if "keys_ok s" "feeder_step s t" for s t
    using that run_step_mailbox [of s t] call_step_mailbox [of s t]
    by (auto simp: feeder_step_def spurious_step_def mailbox_of_def in_flight_def)
qed (rule fk.reach_inv)

section \<open>Delivery\<close>

text \<open>
  A step of the feeder thread that the broker serves: it can be reached, answers a registration
  with the identifiers \<open>ids\<close>, and accepts an update.
\<close>

definition served_step :: "id_table \<Rightarrow> feeder \<Rightarrow> feeder \<Rightarrow> bool" where
  "served_step ids s t = (run_step s t \<and>
     (pc s = Connecting \<longrightarrow> Connected (client t)) \<and>
     (pc s = Registering \<longrightarrow> pc t = Inner True \<and> id_map t = ids) \<and>
     (\<forall>b. pc s = Sending b \<longrightarrow> pc t = Fed))"

definition in_service :: "feeder \<Rightarrow> bool" where
  "in_service s = (feeder_active s \<and> pc s \<noteq> Done \<and> keys_ok s)"

text \<open>How many steps of its own the feeder thread needs until it waits.\<close>

definition delivery_rank :: "feeder \<Rightarrow> nat" where
  "delivery_rank s =
     (let up = Connected (client s); queued = stored_values s \<noteq> [] in
      case pc s of
        Waiting \<Rightarrow> 0
      | Done \<Rightarrow> 0
      | Before_lock \<Rightarrow> if \<not> queued then 1 else if up then 6 else 11
      | Fed \<Rightarrow> if \<not> up then 11 else if queued then 7 else 2
      | Sending b \<Rightarrow> if \<not> up then 12 else if queued then 8 else 3
      | Restoring b \<Rightarrow> 12
      | Feeding i \<Rightarrow> if up then 4 else 13
      | Inner i \<Rightarrow> if up then 5 else 10
      | Registering \<Rightarrow> if up then 6 else 11
      | Check_register \<Rightarrow> if up then 7 else 11
      | Connecting \<Rightarrow> 8
      | Top \<Rightarrow> 9
      | Backoff \<Rightarrow> 10)"

lemma delivery_rank_le: "delivery_rank s \<le> 13"
  by (simp add: delivery_rank_def Let_def split: run_pc.split)

lemma served_step_rank:
  assumes "served_step ids s t" and "in_service s"
  shows "in_service t \<and> delivery_rank t < delivery_rank s"
proof -
  have "run_step s t" using assms(1) by (simp add: served_step_def)
  moreover from this have "keys_ok t" using assms(2) by (simp add: in_service_def run_step_keys)
  ultimately show ?thesis
    using assms
    by cases (auto simp: served_step_def in_service_def delivery_rank_def run_enabled_def
        registerDatapoints_def feedToBroker_def Let_def split: if_splits)
qed

lemma served_step_progress:
  assumes "in_service s" and "pc s \<noteq> Waiting"
  shows "\<exists>t. served_step ids s t"
proof -
  have ok: "status_ok GRPC_STATUS_OK" by (simp add: status_ok_def)
  obtain t where t: "run_step s t" using assms run_step_progress by (auto simp: in_service_def)
  consider "pc s = Connecting" | "pc s = Registering" | b where "pc s = Sending b"
    | "pc s \<notin> {Connecting, Registering}" "\<And>b. pc s \<noteq> Sending b" by blast
  then show ?thesis
  proof cases
    case 1
    then have "served_step ids s (s\<lparr>client := snd (WaitForConnected True (client s)), pc := Check_register\<rparr>)"
      unfolding served_step_def by (simp add: connect cc.wait_up)
    then show ?thesis ..
  next
    case 2
    then have "served_step ids s (s\<lparr>id_map := ids, client := client s, pc := Inner True,
        registrations := registrations s @ [registration_request (dp_config s)]\<rparr>)"
      using register [of s GRPC_STATUS_OK ids] ok by (simp add: served_step_def registerDatapoints_def)
    then show ?thesis ..
  next
    case (3 b)
    then show ?thesis
      using send [of s b GRPC_STATUS_OK True "update_request (id_map s) b" "client s"] ok
      by (intro exI) (auto simp: served_step_def feedToBroker_def)
  next
    case 4
    with t have "served_step ids s t" by (simp add: served_step_def)
    then show ?thesis ..
  qed
qed

interpretation dl: bounded_system "served_step ids" in_service "\<lambda>s. pc s = Waiting" delivery_rank for ids
  by unfold_locales (use served_step_rank served_step_progress in auto)

lemma served_within: "in_service s \<Longrightarrow> \<exists>k \<le> 13. \<exists>t. (served_step ids ^^ k) s t \<and> pc t = Waiting"
  using dl.returns_within [of s ids] delivery_rank_le [of s] by (meson order_trans)

lemma served_bounded:
  "(served_step ids ^^ k) s t \<Longrightarrow> in_service s \<Longrightarrow> k \<le> 13 \<and> (pc t = Waiting \<or> (\<exists>u. served_step ids t u))"
  using dl.steps_bounded [of k ids s t] delivery_rank_le [of s] dl.progress [of t ids] by (metis add_leD1 order_trans)

text \<open>The broker has given a name an identifier, and no other name the same one.\<close>

definition own_id :: "id_table \<Rightarrow> string \<Rightarrow> bool" where
  "own_id ids n = (case map_of ids n of None \<Rightarrow> False | Some i \<Rightarrow> \<forall>x \<in> set ids. snd x = i \<longrightarrow> fst x = n)"

lemma own_id_not_shared: "own_id ids n \<Longrightarrow> map_of ids n \<noteq> None \<and> \<not> shares_id ids values n"
  by (fastforce simp: own_id_def shares_id_def split: option.splits dest: map_of_SomeD)

lemma own_id_accepted:
  assumes "feedToBroker st ids b c = (ok, request, c')" and "distinct (map fst b)" and "map_of b n = Some v"
    and "own_id ids n"
  shows "in_request ids request (n, v) \<and> (n, v) \<in> set b"
proof -
  have "request = update_request ids b" using assms(1) by (auto simp: feedToBroker_def Let_def split: if_splits)
  moreover have "(n, v) \<in> set b" using assms(3) by (rule map_of_SomeD)
  ultimately show ?thesis
    using update_request_carries [OF assms(2), of "(n, v)" ids] own_id_not_shared [OF assms(4), of b] by simp
qed

text \<open>
  The broker's identifier of a name is there by the time the next batch is sent: it is known, or
  the thread is on its way to a registration.
\<close>

definition will_know :: "feeder \<Rightarrow> string \<Rightarrow> bool" where
  "will_know s n = (own_id (id_map s) n \<or>
     pc s \<in> {Top, Connecting, Check_register, Registering, Backoff} \<or> (\<exists>i. pc s = Inner i \<and> \<not> run_enabled s))"

text \<open>A value that nothing newer has replaced.\<close>

definition on_its_way :: "feeder \<Rightarrow> string \<Rightarrow> Datapoint \<Rightarrow> bool" where
  "on_its_way s n v = (stored s n = Some v \<or> (stored s n = None \<and> in_flight s n = Some v))"

lemma served_step_delivers:
  assumes "served_step ids s t" and "own_id ids n" and "will_know s n"
    and "on_its_way s n v \<or> (n, v) \<in> acked s" and "in_service s"
  shows "will_know t n \<and> (on_its_way t n v \<or> (n, v) \<in> acked t)"
proof -
  have "run_step s t" using assms(1) by (simp add: served_step_def)
  then show ?thesis
  proof cases
    case (take_values i)
    then show ?thesis
      using assms(3,4) by (auto simp: will_know_def on_its_way_def map_of_values_to_feed map_add_Some_iff)
  next
    case (send b st ok request c')
    then have o: "ok" and k: "own_id (id_map s) n" and d: "distinct (map fst b)"
      using assms(1,3,5) by (auto simp: served_step_def will_know_def in_service_def keys_ok_def split: if_splits)
    have "in_request (id_map s) request (n, v) \<and> (n, v) \<in> set b" if "map_of b n = Some v"
      by (rule own_id_accepted [OF send(3) d that k])
    with send o k assms(4) show ?thesis by (auto simp: will_know_def on_its_way_def)
  next
    case (restore b)
    then show ?thesis
      using assms(3,4) by (auto simp: will_know_def on_its_way_def map_add_Some_iff)
  qed (use assms in \<open>auto simp: served_step_def in_service_def will_know_def on_its_way_def in_flight_def run_enabled_def
    split: if_splits\<close>)
qed

lemma served_steps_deliver:
  assumes "(served_step ids)\<^sup>*\<^sup>* s t" and "in_service s" and "own_id ids n" and "will_know s n"
    and "on_its_way s n v"
  shows "will_know t n \<and> (on_its_way t n v \<or> (n, v) \<in> acked t)"
  using assms(1)
proof (induction rule: rtranclp_induct)
  case (step t u)
  have "in_service t" by (rule dl.kept.steps_inv [OF step.hyps(1) assms(2)])
  with served_step_delivers [OF step.hyps(2) assms(3)] step.IH show ?case by blast
qed (use assms in auto)

text \<open>The thread waits only with an empty queue, and ends only after a shutdown.\<close>

definition parked :: "feeder \<Rightarrow> bool" where
  "parked s = ((pc s = Waiting \<longrightarrow> stored_values s = []) \<and> (pc s = Done \<longrightarrow> \<not> feeder_active s))"

lemma run_step_parked: "run_step s t \<Longrightarrow> parked s \<Longrightarrow> parked t"
  by (induction rule: run_step.induct) (auto simp: parked_def)

lemma call_step_parked: "call_step s t \<Longrightarrow> parked s \<Longrightarrow> parked t"
  by (induction rule: call_step.induct) (auto simp: parked_def notify_all_def)

interpretation fp: invariant_system feeder_init feeder_step parked
proof unfold_locales
  show "parked s" if "feeder_init s" for s
    using that by (auto simp: feeder_init_def new_feeder_def parked_def)
  show "parked t" if "parked s" "feeder_step s t" for s t
    using that run_step_parked call_step_parked by (auto simp: feeder_step_def spurious_step_def parked_def)
qed

lemma served_reach: "(served_step ids)\<^sup>*\<^sup>* s t \<Longrightarrow> reach feeder_init feeder_step s \<Longrightarrow> reach feeder_init feeder_step t"
proof (rule reach_steps)
  show "feeder_step\<^sup>*\<^sup>* s t" if "(served_step ids)\<^sup>*\<^sup>* s t"
    using that by (rule rtranclp_into) (simp add: served_step_def feeder_step_def)
qed

lemma active_in_service: "reach feeder_init feeder_step s \<Longrightarrow> feeder_active s \<Longrightarrow> in_service s"
  using fp.reach_inv [of s] fk.reach_inv [of s] by (auto simp: parked_def in_service_def)

text \<open>What counts as accepted was in a request.\<close>

definition acked_sent :: "feeder \<Rightarrow> bool" where
  "acked_sent s = (\<forall>x \<in> acked s. \<exists>request \<in> set (updates s). \<exists>i. map_of request i = Some (snd x))"

lemma run_step_acked_sent: "run_step s t \<Longrightarrow> acked_sent s \<Longrightarrow> acked_sent t"
proof (induction rule: run_step.induct)
  case (send s b st ok request c')
  then show ?case by (fastforce simp: acked_sent_def in_request_def split: option.splits)
qed (simp_all add: acked_sent_def)

interpretation fa: invariant_system feeder_init feeder_step acked_sent
proof unfold_locales
  show "acked_sent s" if "feeder_init s" for s
    using that by (auto simp: feeder_init_def new_feeder_def acked_sent_def)
  have c: "acked_sent t" if "call_step s t" "acked_sent s" for s t
    using that by (induction rule: call_step.induct) (simp_all add: acked_sent_def notify_all_def)
  have p: "acked_sent t" if "spurious_step s t" "acked_sent s" for s t
    using that by (simp add: spurious_step_def acked_sent_def)
  show "acked_sent t" if "acked_sent s" "feeder_step s t" for s t
    using that run_step_acked_sent c p unfolding feeder_step_def by blast
qed

lemma waiting_delivered:
  assumes "reach feeder_init feeder_step s" and "feeder_active s" and "(served_step ids)\<^sup>*\<^sup>* s t" and "pc t = Waiting"
    and "own_id ids n" and "will_know s n" and "on_its_way s n v"
  shows "(n, v) \<in> acked t \<and> (\<exists>request \<in> set (updates t). \<exists>i. map_of request i = Some v)"
proof -
  have r: "reach feeder_init feeder_step t" by (rule served_reach [OF assms(3,1)])
  have "stored_values t = []" using fp.reach_inv [OF r] assms(4) by (simp add: parked_def)
  then have "\<not> on_its_way t n v" using assms(4) by (simp add: on_its_way_def in_flight_def)
  with served_steps_deliver [OF assms(3) active_in_service [OF assms(1,2)] assms(5-7)]
  have "(n, v) \<in> acked t" by blast
  then show ?thesis using fa.reach_inv [OF r] by (fastforce simp: acked_sent_def)
qed

section \<open>Properties\<close>

text \<open>
  C6. The feeder implements its specification: seen as a mailbox, every state that its thread and
  its callers can reach is a state of the mailbox, and every step is a step of the mailbox or
  changes nothing of it. Connections, registrations, failing calls, wake-ups and the order in which
  the threads run are not visible.
\<close>

theorem feeder_refines_mailbox:
  assumes "reach feeder_init feeder_step s"
  shows "reach mailbox_init mailbox_step (mailbox_of s) \<and>
    (\<forall>t. feeder_step s t \<longrightarrow> mailbox_of t = mailbox_of s \<or> mailbox_step (mailbox_of s) (mailbox_of t))"
proof (intro conjI allI impI)
  show "reach mailbox_init mailbox_step (mailbox_of s)" by (rule fm.reach_seen [OF assms])
  fix t assume "feeder_step s t"
  then consider "run_step s t" | "call_step s t" | "mailbox_of t = mailbox_of s"
    by (auto simp: feeder_step_def spurious_step_def mailbox_of_def in_flight_def)
  then show "mailbox_of t = mailbox_of s \<or> mailbox_step (mailbox_of s) (mailbox_of t)"
    using run_step_mailbox call_step_mailbox fk.reach_inv [OF assms] by cases blast+
qed

theorem feeder_refines_mailbox_witness:
  "reach mailbox_init mailbox_step
    \<lparr>mb_initial = Map.empty, mb_queue = [''N'' \<mapsto> createInvalidValue], mb_batch = Map.empty, mb_given = {}\<rparr>"
proof -
  have "mailbox_of (fed_example ''N'' createInvalidValue) =
      \<lparr>mb_initial = Map.empty, mb_queue = [''N'' \<mapsto> createInvalidValue], mb_batch = Map.empty, mb_given = {}\<rparr>"
    by (simp add: mailbox_of_def fed_example_def FeedValue_def new_feeder_def in_flight_def notify_all_def)
  then show ?thesis using feeder_refines_mailbox [OF fed_example_reach, of "''N''" createInvalidValue] by simp
qed

text \<open>
  C10. What is queued is delivered: from every reachable state of a feeder in service, if the
  broker can be reached, answers registrations and accepts updates, and no other thread
  interferes, the feeder thread waits after at most 13 steps, by whatever steps it takes; then the
  queue is empty, and every value that was queued, or in flight with nothing newer queued, has been
  accepted: it was in an update request, under the identifier of its name, that the broker answered
  with success. This holds for the names to which the broker gives identifiers of their own.
\<close>

theorem feeder_delivers:
  assumes "reach feeder_init feeder_step s" and "feeder_active s"
  shows "(\<exists>k \<le> 13. \<exists>t. (served_step ids ^^ k) s t \<and> pc t = Waiting) \<and>
    (\<forall>k t. (served_step ids ^^ k) s t \<longrightarrow> k \<le> 13 \<and> (pc t = Waiting \<or> (\<exists>u. served_step ids t u))) \<and>
    (\<forall>t n v. (served_step ids)\<^sup>*\<^sup>* s t \<and> pc t = Waiting \<and> on_its_way s n v \<and> will_know s n \<and> own_id ids n \<longrightarrow>
       (n, v) \<in> acked t \<and> (\<exists>request \<in> set (updates t). \<exists>i. map_of request i = Some v))"
proof (intro conjI)
  have g: "in_service s" by (rule active_in_service [OF assms])
  show "\<exists>k \<le> 13. \<exists>t. (served_step ids ^^ k) s t \<and> pc t = Waiting" by (rule served_within [OF g])
  show "\<forall>k t. (served_step ids ^^ k) s t \<longrightarrow> k \<le> 13 \<and> (pc t = Waiting \<or> (\<exists>u. served_step ids t u))"
    using served_bounded [OF _ g] by blast
  show "\<forall>t n v. (served_step ids)\<^sup>*\<^sup>* s t \<and> pc t = Waiting \<and> on_its_way s n v \<and> will_know s n \<and> own_id ids n \<longrightarrow>
       (n, v) \<in> acked t \<and> (\<exists>request \<in> set (updates t). \<exists>i. map_of request i = Some v)"
    using waiting_delivered [OF assms] by blast
qed

theorem feeder_delivers_witness:
  "\<exists>t. (served_step [(''N'', 7)])\<^sup>*\<^sup>* (fed_example ''N'' createInvalidValue) t \<and> (''N'', createInvalidValue) \<in> acked t"
proof -
  let ?s = "fed_example ''N'' createInvalidValue"
  have a: "feeder_active ?s" and "on_its_way ?s ''N'' createInvalidValue" and "will_know ?s ''N''"
    by (simp_all add: fed_example_def FeedValue_def new_feeder_def on_its_way_def will_know_def notify_all_def)
  moreover have "own_id [(''N'', 7)] ''N''" by (simp add: own_id_def)
  moreover obtain k t where "(served_step [(''N'', 7)] ^^ k) ?s t" "pc t = Waiting"
    using feeder_delivers [OF fed_example_reach a] by blast
  then have "(served_step [(''N'', 7)])\<^sup>*\<^sup>* ?s t" "pc t = Waiting" by (auto simp: rtranclp_power)
  ultimately show ?thesis
    using feeder_delivers [OF fed_example_reach a, of "[(''N'', 7)]"] by (intro exI [of _ t]) simp
qed

end
