(* ===== verification/Event_Delivery.thy ===== *)
theory Event_Delivery
  imports Feeder_Shutdown Feeder_Delivery
begin

text \<open>
  From a SOME/IP message to the broker's acceptance, in the running program: the steps of a message
  handler that no other thread interrupts are the call of \<open>on_someip_message\<close>, the steps of the
  feeder thread are steps of the program, and the delivery of \<open>Feeder_Delivery\<close> follows for the
  values of the message. The program as a whole implements the mailbox.
\<close>

section \<open>Runs of single threads\<close>

lemma put_feeder_same: "shared_client s \<Longrightarrow> put_feeder (sys_feeder s) s = s"
  by (simp add: put_feeder_def shared_client_def)

lemma put_feeder_absorb [simp]:
  "put_feeder g (put_feeder f s) = put_feeder g s"
  "put_feeder g (s\<lparr>sys_handlers := hs\<rparr>) = (put_feeder g s)\<lparr>sys_handlers := hs\<rparr>"
  by (simp_all add: put_feeder_def)

lemma handler_run:
  assumes "sys_error s = None" and "feeder_active (sys_feeder s)" and "shared_client s"
    and "sys_handlers s = hs @ Next xs # hs'"
  shows "(prog_step J so config)\<^sup>*\<^sup>* s ((put_feeder (feed_all xs (sys_feeder s)) s)\<lparr>sys_handlers := hs @ hs'\<rparr>)"
  using assms
proof (induction xs arbitrary: s)
  case Nil
  from handler_done [of s hs hs' J so config] Nil put_feeder_same [of s] show ?case
    by (simp add: feed_all_def r_into_rtranclp)
next
  case (Cons x xs)
  obtain n v where x: "x = (n, v)" by (cases x)
  let ?f = "sys_feeder s"
  let ?s1 = "(put_feeder (?f\<lparr>pending := pending ?f @ [[(n, v)]]\<rparr>) s)\<lparr>sys_handlers := hs @ Locking n v xs # hs'\<rparr>"
  let ?s2 = "(put_feeder (FeedValue n v ?f) s)\<lparr>sys_handlers := hs @ Next xs # hs'\<rparr>"
  have "(prog_step J so config)\<^sup>*\<^sup>* s ?s1"
    using handler_test [of s hs n v xs hs' J so config] Cons.prems x by (simp add: r_into_rtranclp)
  also have "prog_step J so config ?s1 ?s2"
    using handler_feed [of ?s1 hs n v xs hs' "pending ?f" "[]" J so config] Cons.prems
    by (simp add: FeedValue_def storeValues_def)
  also have "(prog_step J so config)\<^sup>*\<^sup>* ?s2
      ((put_feeder (feed_all xs (sys_feeder ?s2)) ?s2)\<lparr>sys_handlers := hs @ hs'\<rparr>)"
    using Cons.prems by (intro Cons.IH) (simp_all add: fs.feed_keeps_open shared_client_def)
  finally show ?case by (simp add: x feed_all_def)
qed

lemma served_run:
  assumes "(served_step ids)\<^sup>*\<^sup>* (sys_feeder s) g" and "sys_error s = None" and "shared_client s"
  shows "(prog_step J so config)\<^sup>*\<^sup>* s (put_feeder g s)"
  using assms(1)
proof (induction rule: rtranclp_induct)
  case base
  then show ?case using assms(3) by (simp add: put_feeder_same)
next
  case (step g h)
  have "prog_step J so config (put_feeder g s) (put_feeder h s)"
    using feeder_thread [of "put_feeder g s" h J so config] step.hyps(2) assms(2) by (simp add: served_step_def)
  with step.IH show ?case by simp
qed

section \<open>Feeding keeps what delivery needs\<close>

lemma FeedValue_will_know: "will_know s n \<Longrightarrow> will_know (FeedValue m v s) n"
  by (auto simp: will_know_def FeedValue_def notify_all_def run_enabled_def)

lemma feed_all_will_know: "will_know s n \<Longrightarrow> will_know (feed_all xs s) n"
proof (induction xs arbitrary: s)
  case (Cons x xs)
  then show ?case by (cases x) (simp add: feed_all_def FeedValue_will_know)
qed (simp add: feed_all_def)

lemma feed_all_on_its_way:
  "feeder_active s \<Longrightarrow> map_of (rev xs) n = Some v \<Longrightarrow> on_its_way (feed_all xs s) n v"
  using fs.feed_all_value [of s xs] by (simp add: feed_all_def on_its_way_def)

lemma feed_all_active [simp]: "feeder_active (feed_all xs s) = feeder_active s"
  unfolding feed_all_def by (rule fs.feed_all_open)

lemma feed_all_client [simp]: "client (feed_all xs s) = client s"
proof (induction xs arbitrary: s)
  case (Cons x xs)
  then show ?case by (cases x) (simp add: feed_all_def FeedValue_def)
qed (simp add: feed_all_def)

text \<open>A message that arrives and is handled without interruption.\<close>

lemma message_run:
  assumes "sys_reach J so config s" and "sys_error s = None" and "so_pc s = So_running"
    and "handlers_on (sys_someip s)" and "feeder_active (sys_feeder s)"
    and "node_values J p (event_nodes config svc inst m) = Inr xs"
  shows "(sys_step J so config)\<^sup>*\<^sup>* s (put_feeder (feed_all xs (sys_feeder s)) s)"
proof -
  let ?s = "s\<lparr>sys_handlers := sys_handlers s @ [Next xs]\<rparr>"
  have "shared_client s" using sy.reach_inv [OF assms(1)] by (simp add: sys_inv_def)
  then have "(prog_step J so config)\<^sup>*\<^sup>* ?s (put_feeder (feed_all xs (sys_feeder s)) s)"
    using handler_run [of ?s "sys_handlers s" xs "[]" J so config] assms(2,5)
    by (simp add: shared_client_def put_feeder_def)
  then have "(sys_step J so config)\<^sup>*\<^sup>* ?s (put_feeder (feed_all xs (sys_feeder s)) s)"
    by (rule rtranclp_into) (simp add: sys_step_def)
  moreover have "sys_step J so config s ?s"
    using message [OF assms(2,3,4,6)] by (simp add: sys_step_def)
  ultimately show ?thesis by (rule converse_rtranclp_into_rtranclp [rotated])
qed

section \<open>Properties\<close>

text \<open>
  The program implements the mailbox: what its threads, the libraries and the shutdown do to the
  values fed is a run of the specification.
\<close>

lemma system_refines_mailbox:
  "sys_reach J so config s \<Longrightarrow> reach mailbox_init mailbox_step (mailbox_of (sys_feeder s))"
  by (rule fm.reach_seen [OF sf.reach_seen])

text \<open>
  C3. End to end from a SOME/IP message to the broker's acceptance: when a message arrives at a
  program in service and is handled, which is the call of \<open>on_someip_message\<close>, the feeder thread,
  while the broker serves it and no other thread interferes, takes at most 13 steps, whichever it
  takes, to a state in which it waits and the broker has accepted the value the message
  carries for a name: it was in an update request, under the identifier of the name, that was
  answered with success. This holds for a name to which the broker gives an identifier of its own;
  all of these are steps of the program.
\<close>

theorem someip_message_delivered:
  assumes "sys_reach J so config s" and "sys_error s = None" and "so_pc s = So_running"
    and "handlers_on (sys_someip s)" and "feeder_active (sys_feeder s)"
    and "node_values J p (event_nodes config svc inst m) = Inr xs" and "map_of (rev xs) n = Some v"
    and "own_id ids n" and "will_know (sys_feeder s) n"
  shows "\<exists>t. (sys_step J so config)\<^sup>*\<^sup>* s t \<and>
    on_someip_message J config svc inst m p (sys_feeder s) = Inr (0, sys_feeder t) \<and>
    (\<exists>k \<le> 13. \<exists>g. (served_step ids ^^ k) (sys_feeder t) g \<and> pc g = Waiting) \<and>
    (\<forall>k g. (served_step ids ^^ k) (sys_feeder t) g \<longrightarrow> k \<le> 13 \<and>
       (prog_step J so config)\<^sup>*\<^sup>* t (put_feeder g t) \<and>
       (pc g = Waiting \<longrightarrow> (n, v) \<in> acked g \<and> (\<exists>request \<in> set (updates g). \<exists>i. map_of request i = Some v)) \<and>
       (pc g = Waiting \<or> (\<exists>h. served_step ids g h)))"
proof -
  define t where "t = put_feeder (feed_all xs (sys_feeder s)) s"
  have f: "sys_feeder t = feed_all xs (sys_feeder s)" and e: "sys_error t = None" and a: "feeder_active (sys_feeder t)"
    using assms(2,5) by (simp_all add: t_def)
  have st: "(sys_step J so config)\<^sup>*\<^sup>* s t" unfolding t_def by (rule message_run [OF assms(1-6)])
  then have "sys_reach J so config t" using assms(1) by (rule reach_steps)
  then have r: "reach feeder_init feeder_step (sys_feeder t)" and sh: "shared_client t"
    using sf.reach_seen sy.reach_inv [of config J so t] by (auto simp: sys_inv_def)
  have g: "in_service (sys_feeder t)" by (rule active_in_service [OF r a])
  have w: "will_know (sys_feeder t) n" "on_its_way (sys_feeder t) n v"
    unfolding f by (rule feed_all_will_know [OF assms(9)]) (rule feed_all_on_its_way [OF assms(5,7)])
  have "\<exists>k \<le> 13. \<exists>g. (served_step ids ^^ k) (sys_feeder t) g \<and> pc g = Waiting"
    by (rule served_within [OF g])
  moreover have "k \<le> 13 \<and> (prog_step J so config)\<^sup>*\<^sup>* t (put_feeder h t) \<and>
      (pc h = Waiting \<longrightarrow> (n, v) \<in> acked h \<and> (\<exists>request \<in> set (updates h). \<exists>i. map_of request i = Some v)) \<and>
      (pc h = Waiting \<or> (\<exists>u. served_step ids h u))"
    if "(served_step ids ^^ k) (sys_feeder t) h" for k h
    using served_bounded [OF that g] waiting_delivered [OF r a _ _ assms(8) w, of h]
      served_run [of ids t h J so config, OF _ e sh] that by (auto simp: rtranclp_power)
  moreover have "on_someip_message J config svc inst m p (sys_feeder s) = Inr (0, sys_feeder t)"
    by (simp add: on_someip_message_values assms(6) f)
  ultimately show ?thesis using st by blast
qed

theorem someip_message_delivered_witness:
  "\<exists>t g. (sys_step jv_json (\<lambda>_. []) (ev_config ev_sample))\<^sup>*\<^sup>* (serving (ev_config ev_sample)) t \<and>
    (served_step [(''Vehicle.Speed'', 7)])\<^sup>*\<^sup>* (sys_feeder t) g \<and>
    (''Vehicle.Speed'', createDatapoint_uint32 0x1234) \<in> acked g"
proof -
  let ?c = "ev_config ev_sample"
  let ?s = "serving ?c"
  let ?v = "createDatapoint_uint32 0x1234"
  have v: "node_values jv_json [0x12, 0x34, 2] (event_nodes ?c 0x60D0 1 0x8001) =
      Inr [(''Vehicle.Speed'', ?v), (''Vehicle.Mode'', createDatapoint_string ''WIPE'')]"
    by (simp add: ev_sample_nodes ev_sample_values)
  have s: "sys_error ?s = None" "so_pc ?s = So_running" "handlers_on (sys_someip ?s)"
    "feeder_active (sys_feeder ?s)" "will_know (sys_feeder ?s) ''Vehicle.Speed''"
    by (simp_all add: serving_def new_system_def client_start_def new_feeder_def will_know_def)
  have m: "map_of (rev [(''Vehicle.Speed'', ?v), (''Vehicle.Mode'', createDatapoint_string ''WIPE'')]) ''Vehicle.Speed'' = Some ?v"
    and i: "own_id [(''Vehicle.Speed'', 7 :: i32)] ''Vehicle.Speed''" by (simp_all add: own_id_def)
  from someip_message_delivered [OF serving_reach s(1-4) v m i s(5), where so = "\<lambda>_. []"]
  obtain t k g where "(sys_step jv_json (\<lambda>_. []) ?c)\<^sup>*\<^sup>* ?s t"
    and "(served_step [(''Vehicle.Speed'', 7)] ^^ k) (sys_feeder t) g" "(''Vehicle.Speed'', ?v) \<in> acked g" by blast
  then show ?thesis unfolding rtranclp_power by blast
qed

end
