(* ===== verification/Actuator_Delivery.thy ===== *)
theory Actuator_Delivery
  imports Feeder_System
begin

text \<open>
  The other half of \<open>actuator_changes_reach_someip\<close>: that theorem says that nothing but the requests for
  the responses read is ever sent, this theory that they are sent. From the moment a response has
  been read, and as long as nobody shuts the subscriber down, the subscriber thread collects the
  changes, calls the callback and sends one request after the other, in a number of steps that is
  known beforehand, whatever the other threads have done before.
\<close>

section \<open>Steps of the delivery\<close>

fun collecting :: "sub_pc \<Rightarrow> bool" where
  "collecting (Sub_updates us ch) = True"
| "collecting (Sub_deliver ch) = True"
| "collecting _ = False"

text \<open>The steps of the subscriber thread between reading a response and the next test of its loop.\<close>

inductive deliver_step ::
  "'j json \<Rightarrow> (string \<Rightarrow> bytes) \<Rightarrow> 'j SomeIPConfig \<Rightarrow> 'j system \<Rightarrow> 'j system \<Rightarrow> bool"
  for J :: "'j json" and so :: "string \<Rightarrow> bytes" and config :: "'j SomeIPConfig" where
  dl_collect: "sys_error s = None \<Longrightarrow> sys_sending s = [] \<Longrightarrow> \<not> at_callback (sys_sub s) \<Longrightarrow>
    collecting (sub_pc (sys_sub s)) \<Longrightarrow> sub_run_step (sys_sub s) b \<Longrightarrow> deliver_step J so config s (put_sub b s)"
| dl_callback: "sys_error s = None \<Longrightarrow> sys_sending s = [] \<Longrightarrow> at_callback (sys_sub s) \<Longrightarrow>
    sub_pc (sys_sub s) = Sub_deliver changes \<Longrightarrow> change_requests J so config changes = Inr rs \<Longrightarrow>
    sub_run_step (sys_sub s) b \<Longrightarrow> deliver_step J so config s ((put_sub b s)\<lparr>sys_sending := rs\<rparr>)"
| dl_send: "sys_error s = None \<Longrightarrow> sys_sending s = r # rs \<Longrightarrow>
    deliver_step J so config s (s\<lparr>sys_sending := rs, sys_someip :=
      send_request (msg_service r) (msg_instance r) (msg_method r) (msg_payload r) (sys_someip s)\<rparr>)"

lemma deliver_step_prog: "deliver_step J so config s t \<Longrightarrow> prog_step J so config s t"
  by (induction rule: deliver_step.induct) (auto intro: prog_step.intros)

text \<open>The response in work, and the requests for it.\<close>

definition response_requests ::
  "'j json \<Rightarrow> (string \<Rightarrow> bytes) \<Rightarrow> 'j SomeIPConfig \<Rightarrow> 'j system \<Rightarrow> cpp_error + someip_message list" where
  "response_requests J so config s = change_requests J so config (changes_of (last (received (sys_sub s))))"

definition delivering ::
  "'j json \<Rightarrow> (string \<Rightarrow> bytes) \<Rightarrow> 'j SomeIPConfig \<Rightarrow> 'j system \<Rightarrow> bool" where
  "delivering J so config s = (sys_error s = None \<and> subscriber_active (sys_sub s) \<and> cb (sys_sub s) \<and>
     delivery_ok (sys_sub s) \<and>
     (sys_sending s = [] \<or> sub_pc (sys_sub s) = Sub_test) \<and>
     (collecting (sub_pc (sys_sub s)) \<longrightarrow> (\<exists>rs. response_requests J so config s = Inr rs)))"

definition all_sent :: "'j system \<Rightarrow> bool" where
  "all_sent s = (sys_sending s = [] \<and> \<not> collecting (sub_pc (sys_sub s)))"

definition deliver_rank ::
  "'j json \<Rightarrow> (string \<Rightarrow> bytes) \<Rightarrow> 'j SomeIPConfig \<Rightarrow> 'j system \<Rightarrow> nat" where
  "deliver_rank J so config s =
     (let n = (case response_requests J so config s of Inr rs \<Rightarrow> length rs | Inl e \<Rightarrow> 0)
      in length (sys_sending s) +
         (case sub_pc (sys_sub s) of Sub_updates us ch \<Rightarrow> length us + 2 + n | Sub_deliver ch \<Rightarrow> 1 + n | _ \<Rightarrow> 0))"

section \<open>Lemmas\<close>

lemma collect_step:
  assumes "sub_run_step b d" and "collecting (sub_pc b)" and "\<not> at_callback b" and "subscriber_active b" and "cb b"
  obtains us ch where "sub_pc b = Sub_updates us ch" "received d = received b" "cb d" "subscriber_active d"
    "sub_pc d = (case us of [] \<Rightarrow> Sub_deliver ch | u # us' \<Rightarrow> Sub_updates us' (add_change u ch))"
  using assms by (cases rule: sub_run_step.cases) (auto simp: at_callback_def)

lemma callback_step:
  assumes "sub_run_step b d" and "sub_pc b = Sub_deliver ch"
  shows "received d = received b" "cb d = cb b" "subscriber_active d = subscriber_active b" "sub_pc d = Sub_test"
  using assms by (cases rule: sub_run_step.cases; simp)+

lemma response_requests_cong:
  "received (sys_sub t) = received (sys_sub s) \<Longrightarrow> response_requests J so config t = response_requests J so config s"
  by (simp add: response_requests_def)

lemma deliver_step_good:
  assumes "delivering J so config s" and "deliver_step J so config s t"
  shows "delivering J so config t \<and> deliver_rank J so config t < deliver_rank J so config s \<and>
    received (sys_sub t) = received (sys_sub s)"
  using assms(2,1)
proof (induction rule: deliver_step.induct)
  case (dl_collect s b)
  then have a: "subscriber_active (sys_sub s)" "cb (sys_sub s)" "delivery_ok b"
    using run_step_delivery by (auto simp: delivering_def)
  from dl_collect.hyps a(1,2) obtain us ch where c: "sub_pc (sys_sub s) = Sub_updates us ch"
    "received b = received (sys_sub s)" "cb b" "subscriber_active b"
    "sub_pc b = (case us of [] \<Rightarrow> Sub_deliver ch | u # us' \<Rightarrow> Sub_updates us' (add_change u ch))"
    using collect_step [of "sys_sub s" b] by blast
  have e: "response_requests J so config (put_sub b s) = response_requests J so config s"
    by (rule response_requests_cong) (simp add: c(2))
  show ?case
    using dl_collect a(3) c e by (cases us) (auto simp: delivering_def deliver_rank_def)
next
  case (dl_callback s changes rs b)
  then have a: "subscriber_active (sys_sub s)" "cb (sys_sub s)" "delivery_ok b"
    "changes = changes_of (last (received (sys_sub s)))"
    using run_step_delivery by (auto simp: delivering_def delivery_ok_def)
  note b = callback_step [OF dl_callback.hyps(6,4)]
  have "response_requests J so config s = Inr rs" using dl_callback.hyps(5) a(4) by (simp add: response_requests_def)
  then show ?case using dl_callback.hyps(1-4) a(1-3) b by (simp add: delivering_def deliver_rank_def)
next
  case (dl_send s r rs)
  then show ?case
    by (auto simp: delivering_def deliver_rank_def response_requests_def Let_def split: sub_pc.split)
qed

lemma deliver_step_progress:
  assumes "delivering J so config s" and "\<not> all_sent s"
  shows "\<exists>t. deliver_step J so config s t"
proof (cases "sys_sending s")
  case Nil
  with assms have e: "sys_error s = None" and c: "collecting (sub_pc (sys_sub s))"
    and a: "subscriber_active (sys_sub s)" "cb (sys_sub s)"
    by (auto simp: delivering_def all_sent_def)
  show ?thesis
  proof (cases "sub_pc (sys_sub s)")
    case (Sub_updates us ch)
    then have "\<not> at_callback (sys_sub s)" by (simp add: at_callback_def)
    moreover obtain b where "sub_run_step (sys_sub s) b"
      using Sub_updates update [of "sys_sub s"] updates_end [of "sys_sub s"] by (cases us) blast+
    ultimately show ?thesis using dl_collect [OF e Nil _ c] by blast
  next
    case (Sub_deliver ch)
    with a have "at_callback (sys_sub s)" by (simp add: at_callback_def)
    moreover have "ch = changes_of (last (received (sys_sub s)))"
      using assms(1) Sub_deliver by (auto simp: delivering_def delivery_ok_def)
    then obtain rs where "change_requests J so config ch = Inr rs"
      using assms(1) c by (auto simp: delivering_def response_requests_def)
    ultimately show ?thesis using dl_callback [OF e Nil _ Sub_deliver] deliver [OF Sub_deliver] by blast
  qed (use c in simp_all)
next
  case (Cons r rs)
  then show ?thesis using dl_send [of s r rs] assms(1) by (auto simp: delivering_def)
qed

interpretation ds: bounded_system "deliver_step J so config" "delivering J so config" all_sent "deliver_rank J so config"
  for J so config
  by unfold_locales (auto dest: deliver_step_good intro: deliver_step_progress)

lemma deliver_steps_received:
  assumes "(deliver_step J so config)\<^sup>*\<^sup>* s t" and "delivering J so config s"
  shows "received (sys_sub t) = received (sys_sub s)"
  using assms(1)
proof (induction rule: rtranclp_induct)
  case (step t u)
  have "delivering J so config t" by (rule ds.kept.steps_inv [OF step.hyps(1) assms(2)])
  with deliver_step_good [OF this step.hyps(2)] step.IH show ?case by simp
qed simp

text \<open>The callback sends its requests before the subscriber thread does anything else.\<close>

definition sending_ok :: "'j system \<Rightarrow> bool" where
  "sending_ok s = (sys_sending s = [] \<or> sub_pc (sys_sub s) = Sub_test)"

lemma prog_step_sending: "prog_step J so config s t \<Longrightarrow> sending_ok s \<Longrightarrow> sending_ok t"
proof (induction rule: prog_step.induct)
  case (callback s changes rs b)
  then show ?case using callback_step [of "sys_sub s" b changes] by (simp add: sending_ok_def)
qed (auto simp: sending_ok_def try_cancel_def)

lemma env_step_sending: "env_step J config s t \<Longrightarrow> sending_ok s \<Longrightarrow> sending_ok t"
  by (induction rule: env_step.induct) (auto simp: sending_ok_def server_close_def)

interpretation sg: invariant_system "sys_init config" "sys_step J so config" sending_ok for J so config
  by unfold_locales
     (auto simp: sys_init_def new_system_def sending_ok_def sys_step_def [of J so config]
       dest: prog_step_sending env_step_sending)

lemma reach_delivering:
  assumes "sys_reach J so config s" and "use_req (req config)" and "sys_error s = None" and "subscriber_active (sys_sub s)"
    and "collecting (sub_pc (sys_sub s)) \<Longrightarrow> \<exists>rs. response_requests J so config s = Inr rs"
  shows "delivering J so config s"
  using sb.reach_seen_inv [OF assms(1)] reach_sent [OF assms(1,2)] sg.reach_inv [OF assms(1)] assms(3-)
  by (auto simp: delivering_def sub_inv_def sent_ok_def sending_ok_def)

lemma all_sent_requests:
  assumes "sys_reach J so config t" and "use_req (req config)" and "delivering J so config t" and "all_sent t"
  shows "requests_of J so config (map changes_of (received (sys_sub t))) = Inr (sent_requests (sys_someip t))"
proof -
  have "delivered (sys_sub t) = map changes_of (received (sys_sub t))"
    using assms(3,4) by (auto simp: delivering_def all_sent_def delivery_ok_def delivered_all_def split: sub_pc.splits)
  then show ?thesis
    using reach_sent [OF assms(1,2)] assms(4) by (simp add: sent_ok_def all_sent_def)
qed

section \<open>Properties\<close>

text \<open>
  C4. A response that has been read is turned into requests that are sent: in every reachable state
  in which the subscriber is in service and the response in work, if there is one, can be encoded,
  the steps of the subscriber thread up to the next test of its loop end after a number of steps
  that is known beforehand, cannot get stuck before, and leave exactly the requests for all
  responses read so far, in the order read, handed to vsomeip.
\<close>

theorem actuator_changes_are_sent:
  assumes "sys_reach J so config s" and "use_req (req config)" and "sys_error s = None" and "subscriber_active (sys_sub s)"
    and "collecting (sub_pc (sys_sub s)) \<Longrightarrow> \<exists>rs. response_requests J so config s = Inr rs"
  shows "(\<exists>k \<le> deliver_rank J so config s. \<exists>t. (deliver_step J so config ^^ k) s t \<and> all_sent t) \<and>
    (\<forall>k t. (deliver_step J so config ^^ k) s t \<longrightarrow> (prog_step J so config)\<^sup>*\<^sup>* s t \<and>
       k \<le> deliver_rank J so config s \<and> (all_sent t \<or> (\<exists>u. deliver_step J so config t u))) \<and>
    (\<forall>t. (deliver_step J so config)\<^sup>*\<^sup>* s t \<and> all_sent t \<longrightarrow>
       requests_of J so config (map changes_of (received (sys_sub s))) = Inr (sent_requests (sys_someip t)))"
proof -
  have g: "delivering J so config s" by (rule reach_delivering [OF assms])
  have p: "(prog_step J so config)\<^sup>*\<^sup>* s t" if "(deliver_step J so config)\<^sup>*\<^sup>* s t" for t
    using that by (rule rtranclp_into) (rule deliver_step_prog)
  have "requests_of J so config (map changes_of (received (sys_sub s))) = Inr (sent_requests (sys_someip t))"
    if t: "(deliver_step J so config)\<^sup>*\<^sup>* s t" and "all_sent t" for t
  proof -
    have "sys_reach J so config t"
      by (rule reach_steps [OF rtranclp_into [OF p [OF t]] assms(1)]) (simp add: sys_step_def)
    from all_sent_requests [OF this assms(2) ds.kept.steps_inv [OF t g] that(2)] deliver_steps_received [OF t g]
    show ?thesis by simp
  qed
  moreover have "(prog_step J so config)\<^sup>*\<^sup>* s t \<and> k \<le> deliver_rank J so config s \<and>
      (all_sent t \<or> (\<exists>u. deliver_step J so config t u))" if "(deliver_step J so config ^^ k) s t" for k t
    using ds.steps_bounded [OF that g] ds.progress [of J so config t] p [of t] that
    by (auto simp: rtranclp_power)
  ultimately show ?thesis using ds.returns_within [OF g] by blast
qed

theorem actuator_changes_are_sent_witness:
  "\<exists>s t. received (sys_sub s) = [[\<lparr>de_path = ''Vehicle.Target'', de_value = K_uint32 2, de_actuator_target = K_not_set\<rparr>]] \<and>
    (prog_step jv_json (\<lambda>_. []) (act_config (act_node ''UINT8'' 5 1)))\<^sup>*\<^sup>* s t \<and>
    sent_requests (sys_someip t) =
      [\<lparr>msg_service = 0x6123, msg_instance = 0xb, msg_method = 7, msg_payload = [0, 0, 0, 0, 0, 2]\<rparr>]"
proof -
  let ?config = "act_config (act_node ''UINT8'' 5 1)"
  let ?u = "\<lparr>de_path = ''Vehicle.Target'', de_value = K_uint32 2, de_actuator_target = K_not_set\<rparr>"
  have "actuator_list (VSSMap ?config) \<noteq> []" and u: "use_req (req ?config)"
    by (simp_all add: actuator_list_def act_config_def)
  from delivering_reach [OF this(1) act_change_requests] obtain s where s:
    "sys_reach jv_json (\<lambda>_. []) ?config s" "received (sys_sub s) = [[?u]]" "sys_error s = None"
    "subscriber_active (sys_sub s)" "sub_pc (sys_sub s) = Sub_test" by blast
  have c: "\<exists>rs. response_requests jv_json (\<lambda>_. []) ?config s = Inr rs" if "collecting (sub_pc (sys_sub s))"
    using that s(5) by simp
  note sent = actuator_changes_are_sent [OF s(1) u s(3,4) c]
  from sent obtain k t where t: "(deliver_step jv_json (\<lambda>_. []) ?config ^^ k) s t" "all_sent t" by blast
  then have "(deliver_step jv_json (\<lambda>_. []) ?config)\<^sup>*\<^sup>* s t" by (auto simp: rtranclp_power)
  with sent t have "(prog_step jv_json (\<lambda>_. []) ?config)\<^sup>*\<^sup>* s t"
    and "requests_of jv_json (\<lambda>_. []) ?config (map changes_of [[?u]]) = Inr (sent_requests (sys_someip t))"
    unfolding s(2) [symmetric] by blast+
  with s(2) act_change_requests show ?thesis by (intro exI [of _ s] exI [of _ t]) simp
qed

end
