(* ===== verification/Adapter_Types.thy ===== *)
theory Adapter_Types
  imports Adapter
begin

text \<open>
  The types of what is fed. \<open>InitDataBrokerFeeder\<close> registers every node of an event mapping with
  the data type of its configuration; \<open>on_someip_message\<close> feeds values decoded from payloads or
  taken from the node's transformation. \<open>value_of_type\<close> is the relation between the data types of
  \<^verbatim>\<open>sdv/databroker/v1/types.proto\<close> and the members of its value message, with the range of the
  8 and 16-bit types, which travel as 32-bit numbers.
\<close>

definition value_of_type :: "DataType \<Rightarrow> dp_value \<Rightarrow> bool" where
  "value_of_type ty v =
     (case v of
        String_value s \<Rightarrow> ty = STRING
      | Bool_value b \<Rightarrow> ty = BOOL
      | Int32_value w \<Rightarrow> ty = INT32 \<or> ty = INT8 \<and> - (2 ^ 7) \<le> sint w \<and> sint w < 2 ^ 7 \<or>
          ty = INT16 \<and> - (2 ^ 15) \<le> sint w \<and> sint w < 2 ^ 15
      | Int64_value w \<Rightarrow> ty = INT64
      | Uint32_value w \<Rightarrow> ty = UINT32 \<or> ty = UINT8 \<and> uint w < 2 ^ 8 \<or> ty = UINT16 \<and> uint w < 2 ^ 16
      | Uint64_value w \<Rightarrow> ty = UINT64
      | Float_value w \<Rightarrow> ty = FLOAT
      | Double_value w \<Rightarrow> ty = DOUBLE
      | _ \<Rightarrow> False)"

section \<open>Lemmas\<close>

lemma sint_scast_bounds:
  fixes w :: "'a::len word"
  assumes "LENGTH('a) \<le> LENGTH('b)"
  shows "- (2 ^ (LENGTH('a) - 1)) \<le> sint (scast w :: 'b::len word) \<and>
    sint (scast w :: 'b word) < 2 ^ (LENGTH('a) - 1)"
proof -
  have "sint (scast w :: 'b word) = sint w"
    using assms by (simp add: sint_up_scast is_up)
  then show ?thesis using sint_range_size [of w] by (simp add: word_size)
qed

lemma uint_ucast_bounds:
  fixes w :: "'a::len word"
  assumes "LENGTH('a) \<le> LENGTH('b)"
  shows "uint (ucast w :: 'b::len word) < 2 ^ LENGTH('a)"
  using assms uint_lt2p [of w] by (simp add: uint_up_ucast is_up)

lemma decode_type_typed:
  assumes "decode_type node ty payload v = Inr (i, w, True)"
  shows "value_of_type ty (dp_val w)"
  using assms sint_scast_bounds [where ?'a = 8 and ?'b = 32] sint_scast_bounds [where ?'a = 16 and ?'b = 32]
    uint_ucast_bounds [where ?'a = 8 and ?'b = 32] uint_ucast_bounds [where ?'a = 16 and ?'b = 32]
  by (cases ty) (auto simp: decode_type_def bind_simps Let_def value_of_type_def createDatapoint_bool_def createDatapoint_uint32_def
      createDatapoint_int32_def createDatapoint_float_def createDatapoint_string_def)

text \<open>Where a value that is fed comes from.\<close>

lemma node_value_source:
  assumes "node_value J node payload = Inr xs" and "(n, v) \<in> set xs"
  shows "n = node_name node \<and>
    (if transformMapping node = [] then value_of_type (getDataType (node_datatype node)) (dp_val v)
     else \<exists>k x. (k, x) \<in> set (transformMapping node) \<and> createDatapoint_json J x = Inr v)"
  using assms
  by (auto simp: node_value_def decode_node_def bind_simps split: if_splits option.splits
      dest: decode_type_typed) (use map_of_SomeD in fast)

lemma node_values_source:
  assumes "node_values J payload ns = Inr xs" and "(n, v) \<in> set xs"
  shows "\<exists>node ys. node \<in> set ns \<and> node_value J node payload = Inr ys \<and> (n, v) \<in> set ys"
  using assms
proof (induction ns arbitrary: xs)
  case (Cons m ns)
  from Cons.prems(1) obtain ys zs where yz: "node_value J m payload = Inr ys" "node_values J payload ns = Inr zs"
    "xs = ys @ zs" by (auto simp: bind_simps)
  with Cons.IH [OF yz(2)] Cons.prems(2) show ?case by auto
qed simp

lemma feeder_metadata_types:
  "map (\<lambda>d. (dm_name d, dm_data_type d)) (feeder_metadata ms) =
    map (\<lambda>n. (node_name n, getDataType (node_datatype n)))
      (concat (map (\<lambda>m. if serviceType (metaData m) = ''Event'' then vssNodes m else []) ms))"
  unfolding feeder_metadata_def
  by (induction ms rule: rev_induct) (simp_all add: fold_append_map)

lemma event_node_registered:
  assumes "node \<in> set (event_nodes config svc inst m)"
  shows "(node_name node, getDataType (node_datatype node)) \<in>
    set (map (\<lambda>d. (dm_name d, dm_data_type d)) (feeder_metadata (VSSMap config)))"
  unfolding feeder_metadata_types using assms by (auto simp: event_nodes_def split: if_splits)

section \<open>Properties\<close>

text \<open>
  C20. What is fed has the type that was registered: every value a SOME/IP message makes the
  adapter feed belongs to a node that is registered with the broker under its name, and is a value
  of the data type it is registered with, in the range of that type. The exception are nodes with
  a transformation, whose value has whatever type the JSON value of the mapping file has.
\<close>

theorem fed_values_typed:
  assumes "node_values J payload (event_nodes config svc inst m) = Inr xs" and "(n, v) \<in> set xs"
  shows "\<exists>node d. node \<in> set (event_nodes config svc inst m) \<and> d \<in> set (feeder_metadata (VSSMap config)) \<and>
    dm_name d = n \<and> node_name node = n \<and> dm_data_type d = getDataType (node_datatype node) \<and>
    (if transformMapping node = [] then value_of_type (dm_data_type d) (dp_val v)
     else \<exists>k x. (k, x) \<in> set (transformMapping node) \<and> createDatapoint_json J x = Inr v)"
proof -
  obtain node ys where node: "node \<in> set (event_nodes config svc inst m)" "node_value J node payload = Inr ys"
    "(n, v) \<in> set ys" using node_values_source [OF assms] by blast
  note src = node_value_source [OF node(2,3)]
  from event_node_registered [OF node(1)] obtain d where "d \<in> set (feeder_metadata (VSSMap config))"
    "dm_name d = node_name node" "dm_data_type d = getDataType (node_datatype node)" by auto
  with node(1) src show ?thesis by (intro exI [of _ node] exI [of _ d]) simp
qed

theorem fed_values_typed_witness:
  "\<exists>d \<in> set (feeder_metadata (VSSMap (ev_config ev_sample))). dm_name d = ''Vehicle.Speed'' \<and>
    dm_data_type d = UINT16 \<and> value_of_type UINT16 (dp_val (createDatapoint_uint32 0x1234))"
proof -
  have v: "node_values jv_json [0x12, 0x34, 2] (event_nodes (ev_config ev_sample) 0x60D0 1 0x8001) =
      Inr [(''Vehicle.Speed'', createDatapoint_uint32 0x1234), (''Vehicle.Mode'', createDatapoint_string ''WIPE'')]"
    by (simp add: ev_sample_nodes ev_sample_values)
  from fed_values_typed [OF v, of "''Vehicle.Speed''" "createDatapoint_uint32 0x1234"] show ?thesis
    unfolding ev_sample_nodes by (auto simp: ev_sample_def ev_node_def getDataType_def)
qed

text \<open>
  A transformation to a text, as the shipped mapping of the brake lights has it, feeds a value
  that is not of the type registered for its node.
\<close>

lemma transformed_value_untyped:
  "\<exists>xs d. node_values jv_json [0x12, 0x34, 2] (event_nodes (ev_config ev_sample) 0x60D0 1 0x8001) = Inr xs \<and>
    (''Vehicle.Mode'', createDatapoint_string ''WIPE'') \<in> set xs \<and>
    d \<in> set (feeder_metadata (VSSMap (ev_config ev_sample))) \<and> dm_name d = ''Vehicle.Mode'' \<and>
    \<not> value_of_type (dm_data_type d) (dp_val (createDatapoint_string ''WIPE''))"
proof -
  have "(''Vehicle.Mode'', UINT8) \<in> set (map (\<lambda>d. (dm_name d, dm_data_type d)) (feeder_metadata (VSSMap (ev_config ev_sample))))"
    unfolding feeder_metadata_types by (simp add: ev_config_def ev_sample_def ev_node_def getDataType_def)
  then show ?thesis
    by (auto simp: ev_sample_nodes ev_sample_values createDatapoint_string_def value_of_type_def)
qed

end
