(* ===== verification/Mapping_File.thy ===== *)
theory Mapping_File
  imports Someip_Config
begin

text \<open>
  The format of the mapping file: every list of mappings has a file, written below from the members
  that \<open>getjsonConfig\<close> reads, and reading the file gives the mappings back.

  The file is written with the constructors of the JSON library, a record of functions like its
  accessors. The locale \<open>json_file\<close> is what is used of the library: an accessor returns what the
  constructor was given, the keys of an object being distinct, and a missing member is absent or the
  default. The concrete instance satisfies it.
\<close>

section \<open>Writing a mapping file\<close>

record 'j json_writer =
  jw_string :: "string \<Rightarrow> 'j"
  jw_uint :: "u32 \<Rightarrow> 'j"
  jw_uint64 :: "u64 \<Rightarrow> 'j"
  jw_array :: "'j list \<Rightarrow> 'j"
  jw_object :: "(string \<times> 'j) list \<Rightarrow> 'j"

definition transform_json :: "'j json_writer \<Rightarrow> string \<times> 'j \<Rightarrow> 'j" where
  "transform_json W x = jw_object W [(''from'', jw_string W (fst x)), (''to'', snd x)]"

text \<open>A node without transformations has no such member.\<close>

definition node_json :: "'j json_writer \<Rightarrow> 'j VSSNode \<Rightarrow> 'j" where
  "node_json W n = jw_object W
     ([(''Name'', jw_string W (node_name n)), (''ByteOffset'', jw_uint64 W (byteOffset n)),
       (''DataType'', jw_string W (node_datatype n)), (''Length'', jw_uint W (ucast (node_length n))),
       (''MethodID'', jw_uint W (ucast (methodId n)))] @
      (if transformMapping n = [] then []
       else [(''Transform'', jw_object W
               [(''transform'', jw_array W (map (transform_json W) (transformMapping n)))])]))"

text \<open>The identifiers that only one kind of service has are left out where they are zero.\<close>

definition optional_id :: "'j json_writer \<Rightarrow> string \<Rightarrow> u16 \<Rightarrow> (string \<times> 'j) list" where
  "optional_id W key i = (if i = 0 then [] else [(key, jw_uint W (ucast i))])"

definition mapping_json :: "'j json_writer \<Rightarrow> 'j VSSConfigInfo \<Rightarrow> 'j" where
  "mapping_json W m = (let md = metaData m in jw_object W
     ([(''ServiceType'', jw_string W (serviceType md)), (''ServiceID'', jw_uint W (ucast (serviceID md))),
       (''InstanceID'', jw_uint W (ucast (instanceID md)))] @
      optional_id W ''MethodID'' (methodID md) @ optional_id W ''EventID'' (EventID md) @
      optional_id W ''EventGroup'' (EventGroup md) @
      [(''MAJOR_VERSION'', jw_uint W (ucast (majorVersion md))), (''MINOR_VERSION'', jw_uint W (minorVersion md)),
       (''VSSNode'', jw_array W (map (node_json W) (vssNodes m)))]))"

definition mapping_file :: "'j json_writer \<Rightarrow> 'j VSSConfigInfo list \<Rightarrow> 'j" where
  "mapping_file W ms = jw_object W [(''SomeipMapping'', jw_array W (map (mapping_json W) ms))]"

text \<open>The transformations of a node stand for a map.\<close>

definition mapping_ok :: "'j VSSConfigInfo \<Rightarrow> bool" where
  "mapping_ok m = list_all (\<lambda>n. distinct (map fst (transformMapping n))) (vssNodes m)"

section \<open>Lemmas\<close>

lemma ucast_widened [simp]:
  "ucast (ucast (x :: u16) :: u32) = x" "ucast (ucast (y :: u8) :: u32) = y"
  by (auto intro!: bit_word_eqI simp: bit_simps)

lemma efold_map_collect:
  assumes "\<And>x. x \<in> set xs \<Longrightarrow> f (g x) = Inr x"
  shows "efold (\<lambda>x acc. ebind (f x) (\<lambda>y. Inr (acc @ [y]))) (map g xs) acc = Inr (acc @ xs)"
  using assms by (simp add: efold_collect list_all2_map1 list_all2_same)

section \<open>Reading it back\<close>

locale json_file =
  fixes J :: "'j json" and W :: "'j json_writer"
  assumes as_string: "j_asString J (jw_string W t) = Inr t"
    and as_uint: "j_asUInt J (jw_uint W u) = Inr u"
    and as_uint64: "j_asUInt64 J (jw_uint64 W o') = Inr o'"
    and default_zero: "j_asUInt J (j_of_int J 0) = Inr 0"
    and elems: "j_elems J (jw_array W vs) = vs"
    and index_member: "distinct (map fst ms) \<Longrightarrow> map_of ms k = Some v \<Longrightarrow> j_index J (jw_object W ms) k = Inr v"
    and get_member: "distinct (map fst ms) \<Longrightarrow>
      j_get J (jw_object W ms) k d = Inr (case map_of ms k of Some v \<Rightarrow> v | None \<Rightarrow> d)"
    and is_member: "distinct (map fst ms) \<Longrightarrow> j_isMember J (jw_object W ms) k = Inr (map_of ms k \<noteq> None)"
begin

lemmas accessors = as_string as_uint as_uint64 default_zero elems index_member get_member is_member

lemma transforms_read:
  assumes "distinct (map fst (ys @ xs))"
  shows "efold (add_transform J) (map (transform_json W) xs) ys = Inr (ys @ xs)"
  using assms
proof (induction xs arbitrary: ys)
  case (Cons x xs)
  obtain k v where x: "x = (k, v)" by (cases x)
  have "k \<notin> fst ` set ys" using Cons.prems by (auto simp: x)
  then have "AList.update k v ys = ys @ [x]" by (induction ys) (auto simp: x)
  then have "add_transform J (transform_json W x) ys = Inr (ys @ [x])"
    by (simp add: add_transform_def transform_json_def accessors x)
  with Cons.IH [of "ys @ [x]"] Cons.prems show ?case by simp
qed simp

lemma node_read:
  assumes "distinct (map fst (transformMapping n))"
  shows "parse_node J (node_json W n) = Inr n"
proof -
  have "parse_transform J (node_json W n) = Inr (transformMapping n)"
    using transforms_read [of "[]" "transformMapping n"] assms
    by (simp add: parse_transform_def node_json_def accessors)
  then show ?thesis by (simp add: parse_node_def index_uint_def) (simp add: node_json_def accessors)
qed

lemma mapping_read:
  assumes "mapping_ok m"
  shows "parse_mapping J (mapping_json W m) = Inr m"
proof -
  have "efold (\<lambda>node ns. ebind (parse_node J node) (\<lambda>n. Inr (ns @ [n]))) (map (node_json W) (vssNodes m)) [] =
      Inr ([] @ vssNodes m)"
    using assms by (intro efold_map_collect node_read) (simp add: mapping_ok_def list_all_iff)
  moreover have "j_index J (mapping_json W m) ''VSSNode'' = Inr (jw_array W (map (node_json W) (vssNodes m)))"
    by (simp add: mapping_json_def optional_id_def accessors Let_def)
  moreover have "parse_metadata J (mapping_json W m) = Inr (metaData m)"
    by (simp add: parse_metadata_def index_uint_def get_uint_def mapping_json_def optional_id_def accessors Let_def)
  ultimately show ?thesis by (simp add: parse_mapping_def elems)
qed

lemma file_read:
  assumes "open_file filename = Some ifs" and "parse ifs = Some (mapping_file W ms)" and "list_all mapping_ok ms"
  shows "getjsonConfig J open_file parse filename infos = Inr (0, infos @ ms)"
proof -
  have "efold (\<lambda>m acc. ebind (parse_mapping J m) (\<lambda>c. Inr (acc @ [c]))) (map (mapping_json W) ms) infos =
      Inr (infos @ ms)"
    using assms(3) by (intro efold_map_collect mapping_read) (simp add: list_all_iff)
  with assms(1,2) show ?thesis by (simp add: getjsonConfig_def mapping_file_def accessors)
qed

end

definition jv_writer :: "jv json_writer" where
  "jv_writer = \<lparr>jw_string = JStr, jw_uint = (\<lambda>u. JInt (uint u)), jw_uint64 = (\<lambda>u. JInt (uint u)),
     jw_array = JArr, jw_object = JObj\<rparr>"

interpretation jf: json_file jv_json jv_writer
proof unfold_locales
  show "j_asUInt jv_json (jw_uint jv_writer u) = Inr u" for u
    using uint_lt2p [of u] by (simp add: jv_eval jv_writer_def)
  show "j_asUInt64 jv_json (jw_uint64 jv_writer u) = Inr u" for u
    using uint_lt2p [of u] by (simp add: jv_eval jv_writer_def)
qed (simp_all add: jv_eval jv_writer_def)

section \<open>Properties\<close>

text \<open>
  C36. Mapping files round-trip: for every list of mappings, the transformations of a node being a
  map, there is a file, with the optional members left out where they are zero or empty, for which \<open>getjsonConfig\<close> returns 0 and appends
  exactly these mappings, in order, with all fields of metadata, nodes and transformations, to what
  was there; when the file cannot be opened or parsed it returns -1 and changes nothing. Of the JSON
  library this uses that its accessors return what its constructors were given.
\<close>

theorem getjsonConfig_roundtrip:
  assumes "json_file J W" and "open_file filename = Some ifs" and "list_all mapping_ok ms"
  shows "(parse ifs = Some (mapping_file W ms) \<longrightarrow>
      getjsonConfig J open_file parse filename infos = Inr (0, infos @ ms)) \<and>
    (parse ifs = None \<longrightarrow> getjsonConfig J open_file parse filename infos = Inr (-1, infos)) \<and>
    (open_file other = None \<longrightarrow> getjsonConfig J open_file parse other infos = Inr (-1, infos))"
  using json_file.file_read [OF assms(1), of open_file filename ifs parse ms infos] assms(2,3)
  by (simp add: getjsonConfig_def)

definition wiper_mapping :: "jv VSSConfigInfo" where
  "wiper_mapping = \<lparr>metaData = \<lparr>serviceType = ''Event'', serviceID = 0x60D0, instanceID = 1, methodID = 0,
       EventID = 0x8001, EventGroup = 0x64, majorVersion = 1, minorVersion = 0\<rparr>,
     vssNodes = [\<lparr>node_name = ''Vehicle.Mode'', node_datatype = ''uint8'', byteOffset = 2, node_length = 1,
       methodId = 0x8001, transformMapping = [(''2'', JStr ''WIPE'')]\<rparr>]\<rparr>"

theorem getjsonConfig_roundtrip_witness:
  "getjsonConfig jv_json (\<lambda>_. Some ()) (\<lambda>_. Some (mapping_file jv_writer [wiper_mapping])) ''mapping.json'' [] =
    Inr (0, [wiper_mapping])"
proof -
  have "list_all mapping_ok [wiper_mapping]" by (simp add: mapping_ok_def wiper_mapping_def)
  from getjsonConfig_roundtrip [OF jf.json_file_axioms _ this, of "\<lambda>_. Some ()" "''mapping.json''" "()"]
  show ?thesis by simp
qed

end
