(* ===== verification/Ieee_Rounding.thy ===== *)
theory Ieee_Rounding
  imports Complex_Main Ieee
begin

text \<open>
  What the proofs about floating-point code need of \<open>Ieee\<close>: the real value \<open>rv\<close> of a
  finite float, the exact meaning of the operations before rounding and of the comparisons, and
  that rounding does not cross a representable number. Everything the simulation of the wiper
  is shown to do follows from these, without bounds on rounding errors.
\<close>

definition rv :: "fl \<Rightarrow> real" where
  "rv x = (case x of Fin s m e \<Rightarrow> real_of_int (signed s m) * 2 powi e | _ \<Rightarrow> 0)"

definition fin :: "fl \<Rightarrow> bool" where
  "fin x = (case x of Fin s m e \<Rightarrow> 0 \<le> m | _ \<Rightarrow> False)"

text \<open>The numbers with \<open>p\<close> bits and exponents from \<open>emin\<close> on.\<close>

definition representable :: "int \<Rightarrow> int \<Rightarrow> real \<Rightarrow> bool" where
  "representable p emin t = (\<exists>k j. t = real_of_int k * 2 powi j \<and> \<bar>k\<bar> < 2 ^ nat p \<and> emin \<le> j)"

lemma rv_Fin [simp]: "rv (Fin s m e) = real_of_int (signed s m) * 2 powi e"
  by (simp add: rv_def)

lemma fin_simps [simp]: "fin (Fin s m e) = (0 \<le> m)" "\<not> fin (Inf s)" "\<not> fin NaN"
  by (simp_all add: fin_def)

lemma signed_simps [simp]: "signed False m = m" "signed True m = - m" "signed s 0 = 0"
  by (simp_all add: signed_def)

lemma fin_cases:
  assumes "fin x"
  obtains s m e where "x = Fin s m e" "0 \<le> m"
  using assms by (cases x) auto

section \<open>Bit lengths and powers of two\<close>

lemma powi_split: "e \<le> e' \<Longrightarrow> (2::real) powi e' = 2 ^ nat (e' - e) * 2 powi e"
  using power_int_add [of "2::real" "e' - e" e] by (simp add: power_int_def)

lemma powi_pos [simp]: "0 < (2::real) powi e"
  by simp

lemma powi_mono: "e \<le> e' \<Longrightarrow> (2::real) powi e \<le> 2 powi e'"
  by (rule power_int_increasing) auto

lemma bitlen_0 [simp]: "m \<le> 0 \<Longrightarrow> bitlen m = 0"
  by (simp add: bitlen.simps)

lemma bitlen_bounds:
  "0 < m \<Longrightarrow> 0 < bitlen m \<and> 2 ^ nat (bitlen m - 1) \<le> m \<and> m < 2 ^ nat (bitlen m)"
proof (induction m rule: bitlen.induct)
  case (1 n)
  show ?case
  proof (cases "n = 1")
    case True
    then show ?thesis by (simp add: bitlen.simps)
  next
    case False
    with 1 have "0 < n div 2" by auto
    with 1 have ih: "0 < bitlen (n div 2)" "2 ^ nat (bitlen (n div 2) - 1) \<le> n div 2"
      "n div 2 < 2 ^ nat (bitlen (n div 2))" by auto
    have b: "bitlen n = 1 + bitlen (n div 2)" using 1 by (subst bitlen.simps) simp
    have "nat (bitlen n - 1) = Suc (nat (bitlen (n div 2) - 1))"
      and "nat (bitlen n) = Suc (nat (bitlen (n div 2)))" using ih(1) b by auto
    with ih b show ?thesis by simp linarith
  qed
qed

lemma bitlen_lower: "0 < m \<Longrightarrow> 2 powi (bitlen m - 1) \<le> real_of_int m"
proof -
  assume "0 < m"
  then have "real_of_int (2 ^ nat (bitlen m - 1)) \<le> real_of_int m" "0 < bitlen m"
    using bitlen_bounds [of m] by (auto simp only: of_int_le_iff)
  then show ?thesis by (simp add: power_int_def)
qed

lemma bitlen_upper: "0 \<le> m \<Longrightarrow> real_of_int m < 2 powi bitlen m"
proof (cases "m = 0")
  case False
  assume "0 \<le> m"
  with False bitlen_bounds [of m] have "real_of_int m < real_of_int (2 ^ nat (bitlen m))" "0 < bitlen m"
    by (auto simp only: of_int_less_iff)
  then show ?thesis by (simp add: power_int_def)
qed simp

section \<open>Exact operations\<close>

lemma scaled_value:
  "e \<le> e1 \<Longrightarrow> real_of_int (signed s (m * 2 ^ nat (e1 - e))) * 2 powi e = rv (Fin s m e1)"
  by (cases s) (simp_all add: powi_split)

lemma fadd_rv: "fin x \<Longrightarrow> fin y \<Longrightarrow> fin (fadd x y) \<and> rv (fadd x y) = rv x + rv y"
proof -
  assume "fin x" "fin y"
  then obtain s1 m1 e1 s2 m2 e2 where x: "x = Fin s1 m1 e1" and y: "y = Fin s2 m2 e2"
    by (metis fin_cases)
  define e where "e = min e1 e2"
  define v where "v = signed s1 (m1 * 2 ^ nat (e1 - e)) + signed s2 (m2 * 2 ^ nat (e2 - e))"
  have "real_of_int v * 2 powi e = rv x + rv y"
    using scaled_value [of e e1 s1 m1] scaled_value [of e e2 s2 m2]
    by (simp add: v_def x y e_def distrib_right)
  moreover have "fadd x y = (if v = 0 then Fin (s1 \<and> s2) 0 e else Fin (v < 0) \<bar>v\<bar> e)"
    by (simp add: fadd_def x y v_def e_def Let_def)
  ultimately show ?thesis by (auto simp: signed_def)
qed

lemma fmul_rv: "fin x \<Longrightarrow> fin y \<Longrightarrow> fin (fmul x y) \<and> rv (fmul x y) = rv x * rv y"
  by (elim fin_cases) (auto simp: fmul_def signed_def power_int_add)

lemma fneg_rv: "fin x \<Longrightarrow> fin (fneg x) \<and> rv (fneg x) = - rv x"
  by (elim fin_cases) (auto simp: fneg_def signed_def)

lemma fl_of_int_rv: "fin (fl_of_int i) \<and> rv (fl_of_int i) = real_of_int i"
  by (auto simp: fl_of_int_def signed_def)

lemma fless_rv: "fin x \<Longrightarrow> fin y \<Longrightarrow> fless x y = (rv x < rv y)"
proof -
  assume "fin x" "fin y"
  then obtain s1 m1 e1 s2 m2 e2 where x: "x = Fin s1 m1 e1" and y: "y = Fin s2 m2 e2"
    by (metis fin_cases)
  define e where "e = min e1 e2"
  let ?a = "signed s1 (m1 * 2 ^ nat (e1 - e))" and ?b = "signed s2 (m2 * 2 ^ nat (e2 - e))"
  have "rv x < rv y \<longleftrightarrow> real_of_int ?a * 2 powi e < real_of_int ?b * 2 powi e"
    using scaled_value [of e e1 s1 m1] scaled_value [of e e2 s2 m2] by (simp add: x y e_def)
  also have "\<dots> \<longleftrightarrow> ?a < ?b" by simp
  finally show ?thesis by (simp add: fless_def x y e_def Let_def)
qed

lemma fge_rv: "fin x \<Longrightarrow> fin y \<Longrightarrow> fge x y = (rv y \<le> rv x)"
  by (auto simp: fge_def fless_rv)

lemma fdiv_bounds:
  fixes m m2 e :: int
  assumes "0 \<le> m" "0 < m2"
  defines "d \<equiv> fdiv (Fin False m e) False m2 0"
  shows "fin d" "real_of_int m * 2 powi e / real_of_int m2 - 2 powi (e - 60) \<le> rv d"
    "rv d \<le> real_of_int m * 2 powi e / real_of_int m2 + 2 powi (e - 60)"
proof -
  define k where "k = bitlen m2 + 66"
  define n where "n = m * 2 ^ nat k"
  define q where "q = n div m2"
  define st :: int where "st = (if n mod m2 = 0 then 0 else 1)"
  have d: "d = Fin False (2 * q + st) (e - k - 1)" by (simp add: d_def fdiv_def k_def n_def q_def st_def Let_def)
  have k: "60 \<le> k" using bitlen_bounds [of m2] assms(2) by (simp add: k_def)
  have q0: "0 \<le> q" using assms by (simp add: q_def n_def pos_imp_zdiv_nonneg_iff)
  have st: "0 \<le> st" "st \<le> 1" by (simp_all add: st_def)
  show "fin d" using q0 st by (simp add: d)
  define u where "u = (2::real) powi (e - k)"
  have u0: "0 < u" by (simp add: u_def)
  have nv: "real_of_int n * u = real_of_int m * 2 powi e"
    using powi_split [of "e - k" e] k by (simp add: n_def u_def)
  have dv: "rv d = (real_of_int q + real_of_int st / 2) * u"
    using power_int_add [of "2::real" 1 "e - k - 1"] by (simp add: d u_def field_simps)
  have lo: "real_of_int q * real_of_int m2 \<le> real_of_int n"
  proof -
    have "q * m2 \<le> n" unfolding q_def
      using div_mult_mod_eq [of n m2] pos_mod_sign [OF assms(2), of n] by linarith
    then show ?thesis by (metis of_int_le_iff of_int_mult)
  qed
  have hi: "real_of_int n \<le> (real_of_int q + 1) * real_of_int m2"
  proof -
    have "n \<le> (q + 1) * m2"
      unfolding q_def distrib_right
      using div_mult_mod_eq [of n m2] pos_mod_bound [OF assms(2), of n] by linarith
    then have "real_of_int n \<le> real_of_int ((q + 1) * m2)" by (simp only: of_int_le_iff)
    then show ?thesis by simp
  qed
  define Q where "Q = real_of_int m * 2 powi e / real_of_int m2"
  have Q: "Q = (real_of_int n / real_of_int m2) * u" by (simp add: Q_def nv [symmetric])
  have "real_of_int q \<le> real_of_int n / real_of_int m2" "real_of_int n / real_of_int m2 \<le> real_of_int q + 1"
    using lo hi assms(2) by (simp_all add: field_simps)
  then have "real_of_int q * u \<le> Q" "Q \<le> (real_of_int q + 1) * u" 
    unfolding Q using u0 by (intro mult_right_mono; simp)+
  moreover have "real_of_int q * u \<le> rv d" "rv d \<le> (real_of_int q + 1) * u"
    unfolding dv using st u0 by (intro mult_right_mono; simp)+
  moreover have "u \<le> 2 powi (e - 60)" unfolding u_def using k by (intro powi_mono) simp
  ultimately show "real_of_int m * 2 powi e / real_of_int m2 - 2 powi (e - 60) \<le> rv d"
    "rv d \<le> real_of_int m * 2 powi e / real_of_int m2 + 2 powi (e - 60)"
    unfolding Q_def [symmetric] distrib_right by linarith+
qed

section \<open>Rounding\<close>

lemma round_shift_bounds:
  assumes "0 \<le> m"
  shows "round_shift m k = m div 2 ^ k \<or> (round_shift m k = m div 2 ^ k + 1 \<and> m mod 2 ^ k \<noteq> 0)"
  by (auto simp: round_shift_def Let_def)

text \<open>
  No number of \<open>p\<close> bits lies strictly between two neighbouring multiples of the unit in the
  last place.
\<close>

lemma no_representable_between:
  fixes q :: int
  assumes "representable p emin t" and "0 < p" and "emin \<le> e"
    and "e = emin \<or> 2 ^ nat (p - 1) \<le> q" and "0 \<le> q"
  shows "t \<le> real_of_int q * 2 powi e \<or> real_of_int (q + 1) * 2 powi e \<le> t"
proof -
  obtain k j where t: "t = real_of_int k * 2 powi j" and k: "\<bar>k\<bar> < 2 ^ nat p" and j: "emin \<le> j"
    using assms(1) by (auto simp: representable_def)
  show ?thesis
  proof (cases "e \<le> j")
    case True
    define n where "n = k * 2 ^ nat (j - e)"
    have "t = real_of_int n * 2 powi e" using powi_split [OF True] by (simp add: t n_def)
    moreover have "real_of_int n \<le> real_of_int q \<or> real_of_int (q + 1) \<le> real_of_int n"
      by (simp only: of_int_le_iff) linarith
    ultimately show ?thesis by (simp only: mult_le_cancel_right_pos powi_pos)
  next
    case False
    then have q: "2 ^ nat (p - 1) \<le> q" using assms(3,4) j by auto
    have "real_of_int k \<le> 2 ^ nat p"
      using k by (metis abs_le_D1 less_imp_le of_int_le_iff of_int_numeral of_int_power)
    also have "\<dots> = 2 * 2 ^ nat (p - 1)" using assms(2) by (simp flip: power_Suc) 
    finally have "t \<le> 2 * 2 ^ nat (p - 1) * 2 powi j" by (simp add: t)
    also have "\<dots> = 2 ^ nat (p - 1) * 2 powi (j + 1)" by (simp add: power_int_add)
    also have "\<dots> \<le> 2 ^ nat (p - 1) * 2 powi e" using False by (intro mult_left_mono powi_mono) auto
    also have "\<dots> \<le> real_of_int q * 2 powi e"
      using of_int_le_iff [where 'a = real, THEN iffD2, OF q] by (intro mult_right_mono) auto
    finally show ?thesis by simp
  qed
qed

lemma round_shift_nonneg: "0 \<le> m \<Longrightarrow> 0 \<le> round_shift m k"
  by (simp add: round_shift_def Let_def pos_imp_zdiv_nonneg_iff)

definition round_mag :: "int \<Rightarrow> int \<Rightarrow> int \<Rightarrow> int \<Rightarrow> int \<times> int" where
  "round_mag p emin m e = (let e' = max emin (e + bitlen m - p)
     in if e' \<le> e then (m, e) else (round_shift m (nat (e' - e)), e'))"

lemma fround_Fin:
  "fround p emin emax (Fin s m e) = (let (m1, e1) = round_mag p emin m e
     in if m1 \<noteq> 0 \<and> emax < e1 + bitlen m1 then Inf s else Fin s m1 e1)"
  by (simp add: fround_def round_mag_def Let_def split: if_splits)

lemma round_mag_nonneg: "0 \<le> m \<Longrightarrow> round_mag p emin m e = (m1, e1) \<Longrightarrow> 0 \<le> m1"
  by (auto simp: round_mag_def round_shift_nonneg Let_def split: if_splits)

lemma round_mag_side:
  assumes m: "0 \<le> m" and r: "round_mag p emin m e = (m1, e1)" and t: "representable p emin t" and p: "0 < p"
  defines "x \<equiv> real_of_int m * 2 powi e" and "y \<equiv> real_of_int m1 * 2 powi e1"
  shows "(x \<le> t \<longrightarrow> y \<le> t) \<and> (t \<le> x \<longrightarrow> t \<le> y)"
proof (cases "max emin (e + bitlen m - p) \<le> e")
  case True
  then show ?thesis using r by (simp add: round_mag_def x_def y_def Let_def)
next
  case False
  define e' where "e' = max emin (e + bitlen m - p)"
  have le: "e \<le> e'" using False unfolding e'_def by linarith
  define k where "k = nat (e' - e)"
  define q where "q = m div 2 ^ k"
  have e1: "e1 = e'" and m1: "m1 = q \<or> (m1 = q + 1 \<and> m mod 2 ^ k \<noteq> 0)"
    using r False round_shift_bounds [OF m, of k] by (auto simp: round_mag_def Let_def e'_def k_def q_def)
  have u: "2 powi e' = 2 ^ k * (2 powi e :: real)"
    using powi_split [OF le] by (simp add: k_def)
  have mq: "m = q * 2 ^ k + m mod 2 ^ k" by (simp only: q_def div_mult_mod_eq)
  have x: "x = real_of_int q * 2 powi e' + real_of_int (m mod 2 ^ k) * 2 powi e"
  proof -
    have "real_of_int m = real_of_int q * 2 ^ k + real_of_int (m mod 2 ^ k)"
      using arg_cong [OF mq, of real_of_int] by simp
    then show ?thesis by (simp add: x_def u distrib_right)
  qed
  have r0: "0 \<le> m mod 2 ^ k" and r1: "m mod 2 ^ k < 2 ^ k" by simp_all
  have "real_of_int (m mod 2 ^ k) < 2 ^ k"
    using of_int_less_iff [where 'a = real, THEN iffD2, OF r1] by simp
  then have hi: "x < real_of_int (q + 1) * 2 powi e'"
    by (simp add: x u distrib_right)
  have lo: "real_of_int q * 2 powi e' \<le> x" using r0 by (simp add: x)
  have mid: "real_of_int q * 2 powi e' < x" if "m mod 2 ^ k \<noteq> 0"
  proof -
    have "0 < m mod 2 ^ k" using that r0 by linarith
    then have "0 < real_of_int (m mod 2 ^ k) * 2 powi e" by (simp only: of_int_0_less_iff zero_less_mult_iff) simp
    then show ?thesis unfolding x by linarith
  qed
  have "e' = emin \<or> 2 ^ nat (p - 1) \<le> q"
  proof (cases "emin < e + bitlen m - p")
    case True
    then have k': "k = nat (bitlen m - p)" and b: "p < bitlen m" using False by (auto simp: k_def e'_def)
    then have "0 < m" using p m by (cases "m = 0") auto
    then have "2 ^ nat (p - 1) * 2 ^ k \<le> m"
      using bitlen_bounds [of m] p b by (simp add: k' flip: power_add nat_add_distrib)
    then show ?thesis using zdiv_mono1 [of "2 ^ nat (p - 1) * 2 ^ k" m "2 ^ k"] by (simp add: q_def)
  qed (simp add: e'_def)
  then have "t \<le> real_of_int q * 2 powi e' \<or> real_of_int (q + 1) * 2 powi e' \<le> t"
    using m by (intro no_representable_between [OF t p]) (auto simp: e'_def q_def pos_imp_zdiv_nonneg_iff)
  then show ?thesis
    using m1 hi lo mid by (auto simp: y_def e1)
qed

lemma representable_uminus: "representable p emin t \<Longrightarrow> representable p emin (- t)"
  unfolding representable_def by (metis abs_minus_cancel mult_minus_left of_int_minus)

lemma fround_fin: "fin x \<Longrightarrow> fround p emin emax x = Fin s m e \<Longrightarrow> fin (fround p emin emax x)"
  by (elim fin_cases) (auto simp: fround_Fin dest: round_mag_nonneg split: prod.splits if_splits)

lemma fround_side:
  assumes "fin x" and "representable p emin t" and "0 < p" and "fin (fround p emin emax x)"
  shows "(rv x \<le> t \<longrightarrow> rv (fround p emin emax x) \<le> t) \<and> (t \<le> rv x \<longrightarrow> t \<le> rv (fround p emin emax x))"
proof -
  obtain s m e where x: "x = Fin s m e" and m: "0 \<le> m" using assms(1) by (rule fin_cases)
  obtain m1 e1 where r: "round_mag p emin m e = (m1, e1)" by fastforce
  have "fround p emin emax x = Fin s m1 e1"
    using assms(4) by (auto simp: x fround_Fin r split: if_splits)
  then show ?thesis
    using round_mag_side [OF m r assms(2,3)] round_mag_side [OF m r representable_uminus [OF assms(2)] assms(3)]
    by (cases s) (auto simp: x minus_le_iff le_minus_iff)
qed

text \<open>A value within representable bounds below \<open>2 ^ emax\<close> does not overflow.\<close>

lemma fround_no_overflow:
  assumes "fin x" and "representable p emin t" and "0 < p" and "\<bar>rv x\<bar> \<le> t" and "t < 2 powi emax"
  shows "fin (fround p emin emax x)"
proof -
  obtain s m e where x: "x = Fin s m e" and m: "0 \<le> m" using assms(1) by (rule fin_cases)
  obtain m1 e1 where r: "round_mag p emin m e = (m1, e1)" by fastforce
  have m1: "0 \<le> m1" using m r by (rule round_mag_nonneg)
  have "real_of_int m * 2 powi e \<le> t" using assms(4) m by (cases s) (auto simp: x abs_mult)
  then have y: "real_of_int m1 * 2 powi e1 < 2 powi emax"
    using round_mag_side [OF m r assms(2,3)] assms(5) by auto
  have False if "m1 \<noteq> 0" "emax < e1 + bitlen m1"
  proof -
    have "2 powi emax \<le> (2::real) powi (e1 + (bitlen m1 - 1))" using that by (intro powi_mono) simp
    also have "\<dots> = 2 powi (bitlen m1 - 1) * 2 powi e1" by (simp add: power_int_add)
    also have "\<dots> \<le> real_of_int m1 * 2 powi e1"
      using bitlen_lower [of m1] that m1 by (intro mult_right_mono) auto
    finally show False using y by simp
  qed
  then show ?thesis using m1 by (auto simp: x fround_Fin r)
qed

section \<open>Encodings\<close>

lemma f32_decode_fields:
  assumes "0 \<le> E" "E < 256" "0 \<le> M" "M < 2 ^ 23"
  shows "f32_decode (word_of_int (sign_bit s + E * 2 ^ 23 + M)) =
    (if E = 255 then (if M = 0 then Inf s else NaN)
     else if E = 0 then Fin s M (- 149) else Fin s (M + 2 ^ 23) (E - 150))"
proof -
  define n where "n = sign_bit s + E * 2 ^ 23 + M"
  have n: "0 \<le> n" "n < 4294967296" using assms by (auto simp: n_def sign_bit_def)
  have u: "uint (word_of_int n :: f32) = n" using n by (simp add: uint_word_of_int)
  have "n = M + ((if s then 256 else 0) + E) * 2 ^ 23" by (simp add: n_def sign_bit_def)
  then have nd: "n div 2 ^ 23 = (if s then 256 else 0) + E" "n mod 2 ^ 23 = M"
    using assms by (simp_all only: div_mult_self3 mod_mult_self3 mod_mult_self1 div_mult_self1) auto
  have "bit (word_of_int n :: f32) 31 = odd (n div 2 ^ 31)"
    by (simp only: bit_word_of_int_iff) (simp add: bit_iff_odd)
  also have "n div 2 ^ 31 = (if s then 1 else 0)"
    using assms by (auto simp: n_def sign_bit_def)
  finally have b: "bit (word_of_int n :: f32) 31 = s" by simp
  have e: "uint (take_bit 8 (drop_bit 23 (word_of_int n :: f32))) = E"
    unfolding unsigned_take_bit_eq unsigned_drop_bit_eq u using assms nd
    by (simp add: drop_bit_eq_div take_bit_eq_mod n mod_pos_pos_trivial)
  have m: "uint (take_bit 23 (word_of_int n :: f32)) = M"
    unfolding unsigned_take_bit_eq u using nd by (simp add: take_bit_eq_mod)
  show ?thesis unfolding f32_decode_def n_def [symmetric] b e m Let_def by simp
qed

lemma div_int_pos_less: "0 < (c::int) \<Longrightarrow> a < b * c \<Longrightarrow> a div c < b"
  by (metis div_mult_mod_eq less_le_trans mult_right_mono le_add_same_cancel1 less_imp_le not_less pos_mod_sign)

lemma round_mag_bits:
  assumes "0 \<le> m" and "round_mag p emin m e = (m1, e1)" and "0 < p"
  shows "m1 \<le> 2 ^ nat p \<and> emin \<le> e1"
proof (cases "max emin (e + bitlen m - p) \<le> e")
  case True
  then have "bitlen m \<le> p" by simp
  then have p: "(2::int) ^ nat (bitlen m) \<le> 2 ^ nat p" by (intro power_increasing) auto
  have "m < 2 ^ nat (bitlen m)" using assms(1) bitlen_bounds [of m] by (cases "m = 0") auto
  also note p
  finally have "m < 2 ^ nat p" .
  with True assms(2) show ?thesis by (auto simp: round_mag_def Let_def)
next
  case False
  define k where "k = nat (max emin (e + bitlen m - p) - e)"
  have "m < 2 ^ (nat p + k)"
  proof (cases "m = 0")
    case False
    then have "m < 2 ^ nat (bitlen m)" using assms(1) bitlen_bounds [of m] by auto
    also have "\<dots> \<le> 2 ^ (nat p + k)" using assms(3) by (intro power_increasing) (auto simp: k_def)
    finally show ?thesis .
  qed simp
  then have "m div 2 ^ k < 2 ^ nat p"
    by (intro div_int_pos_less) (simp_all add: power_add)
  then have "m div 2 ^ k + 1 \<le> 2 ^ nat p" by simp
  with False assms(2) round_shift_bounds [OF assms(1), of k] show ?thesis
    by (auto simp: round_mag_def Let_def k_def)
qed

lemma decode_encode:
  assumes "0 \<le> m" "m \<le> 2 ^ 24" "- 149 \<le> e" "m \<noteq> 0 \<longrightarrow> e + bitlen m \<le> 128"
  shows "fin (f32_decode (f32_encode (Fin s m e))) \<and> rv (f32_decode (f32_encode (Fin s m e))) = rv (Fin s m e)"
proof (cases "m = 0")
  case True
  then show ?thesis using f32_decode_fields [of 0 0 s] by (simp add: f32_encode_def)
next
  case False
  then have b: "0 < bitlen m" "2 ^ nat (bitlen m - 1) \<le> m" "m < 2 ^ nat (bitlen m)"
    using assms(1) bitlen_bounds [of m] by auto
  define E where "E = e + bitlen m - 1"
  show ?thesis
  proof (cases "- 126 \<le> E")
    case True
    define mant where "mant = (if bitlen m \<le> 24 then m * 2 ^ nat (24 - bitlen m) else m div 2 ^ nat (bitlen m - 24))"
    have mm: "2 ^ 23 \<le> mant \<and> mant < 2 ^ 24 \<and> real_of_int mant * 2 powi (E - 23) = real_of_int m * 2 powi e"
    proof (cases "bitlen m \<le> 24")
      case le: True
      have "2 ^ nat (bitlen m - 1) * 2 ^ nat (24 - bitlen m) = (2 ^ 23 :: int)"
        and p24: "2 ^ nat (bitlen m) * 2 ^ nat (24 - bitlen m) = (2 ^ 24 :: int)"
        using le b(1) by (simp_all flip: power_add nat_add_distrib)
      moreover have "2 ^ nat (bitlen m - 1) * 2 ^ nat (24 - bitlen m) \<le> m * 2 ^ nat (24 - bitlen m)"
        and "m * 2 ^ nat (24 - bitlen m) < 2 ^ nat (bitlen m) * 2 ^ nat (24 - bitlen m)"
        using b by auto
      moreover have "2 powi e = 2 ^ nat (24 - bitlen m) * (2 powi (E - 23) :: real)"
        using powi_split [of "E - 23" e] le by (simp add: E_def)
      ultimately show ?thesis using le by (simp add: mant_def)
    next
      case gt: False
      then have "(2::int) ^ 24 \<le> 2 ^ nat (bitlen m - 1)" by (intro power_increasing) auto
      with b(2) assms(2) have m: "m = 2 ^ 24" and "(2::int) ^ nat (bitlen m - 1) \<le> 2 ^ 24" by auto
      then have "nat (bitlen m - 1) \<le> 24" by (simp only: power_increasing_iff [of "2::int"])
      with gt have "bitlen m = 25" by auto
      then show ?thesis by (simp add: mant_def E_def m power_int_add)
    qed
    have "f32_encode (Fin s m e) = word_of_int (sign_bit s + (E + 127) * 2 ^ 23 + (mant - 2 ^ 23))"
      using False True by (simp add: f32_encode_def Let_def E_def mant_def)
    moreover have "E + 127 < 255" "0 < E + 127" using assms(4) False True by (auto simp: E_def)
    ultimately have "f32_decode (f32_encode (Fin s m e)) = Fin s mant (E - 23)"
      using mm f32_decode_fields [of "E + 127" "mant - 2 ^ 23" s] by simp
    with mm show ?thesis by (cases s) auto
  next
    case sub: False
    have "m * 2 ^ nat (e + 149) < 2 ^ nat (bitlen m) * 2 ^ nat (e + 149)" using b by simp
    also have "\<dots> \<le> 2 ^ 23"
      using sub assms(3) b(1) unfolding power_add [symmetric] by (intro power_increasing) (auto simp: E_def)
    finally have "m * 2 ^ nat (e + 149) < 2 ^ 23" .
    moreover have "f32_encode (Fin s m e) = word_of_int (sign_bit s + m * 2 ^ nat (e + 149))"
      using False sub by (simp add: f32_encode_def Let_def E_def)
    ultimately have "f32_decode (f32_encode (Fin s m e)) = Fin s (m * 2 ^ nat (e + 149)) (- 149)"
      using f32_decode_fields [of 0 "m * 2 ^ nat (e + 149)" s] assms(1) by simp
    then show ?thesis using assms(1) scaled_value [OF assms(3), of s m] by simp
  qed
qed

section \<open>Values of \<open>float\<close> and \<open>double\<close>\<close>

definition f32_fin :: "f32 \<Rightarrow> bool" where "f32_fin w = fin (f32_decode w)"
definition f32_val :: "f32 \<Rightarrow> real" where "f32_val w = rv (f32_decode w)"

lemma round32_value:
  assumes "fin (round32 x)" and "fin x"
  shows "f32_fin (f32_encode (round32 x))" and "f32_val (f32_encode (round32 x)) = rv (round32 x)"
proof -
  obtain s m e where x: "x = Fin s m e" and m: "0 \<le> m" using assms(2) by (rule fin_cases)
  obtain m1 e1 where r: "round_mag 24 (- 149) m e = (m1, e1)" by fastforce
  have y: "round32 x = Fin s m1 e1" and o: "m1 \<noteq> 0 \<longrightarrow> e1 + bitlen m1 \<le> 128"
    using assms(1) by (auto simp: round32_def x fround_Fin r split: if_splits)
  have "m1 \<le> 2 ^ 24 \<and> - 149 \<le> e1" using round_mag_bits [OF m r] by simp
  with decode_encode [OF round_mag_nonneg [OF m r] _ _ o]
  show "f32_fin (f32_encode (round32 x))" and "f32_val (f32_encode (round32 x)) = rv (round32 x)"
    by (auto simp: y f32_fin_def f32_val_def)
qed

lemma representable_mono: "representable p emin t \<Longrightarrow> p \<le> p' \<Longrightarrow> emin' \<le> emin \<Longrightarrow> representable p' emin' t"
proof -
  assume "p \<le> p'"
  then have "(2::int) ^ nat p \<le> 2 ^ nat p'" by (intro power_increasing) auto
  then show "representable p emin t \<Longrightarrow> emin' \<le> emin \<Longrightarrow> representable p' emin' t"
    unfolding representable_def by (blast intro: less_le_trans order_trans)
qed

lemma representable_int: "\<bar>k\<bar> < 2 ^ nat p \<Longrightarrow> emin \<le> j \<Longrightarrow> representable p emin (real_of_int k * 2 powi j)"
  by (auto simp: representable_def)

lemma representable_Fin:
  "0 \<le> m \<Longrightarrow> m < 2 ^ 24 \<Longrightarrow> - 149 \<le> e \<Longrightarrow> representable 24 (- 149) (rv (Fin s m e))"
  using representable_int [of "signed s m" 24 "- 149" e] by (cases s) simp_all

lemma f32_representable: "f32_fin w \<Longrightarrow> representable 24 (- 149) (f32_val w)"
proof -
  assume "f32_fin w"
  define m where "m = uint (take_bit 23 w)"
  define e where "e = uint (take_bit 8 (drop_bit 23 w))"
  have m: "0 \<le> m" "m < 2 ^ 23"
    by (simp_all only: m_def unsigned_take_bit_eq take_bit_int_less_exp take_bit_nonnegative)
  have e: "0 \<le> e" by (simp only: e_def uint_ge_0)
  have "f32_decode w = Fin (bit w 31) m (- 149) \<or> (f32_decode w = Fin (bit w 31) (m + 2 ^ 23) (e - 150) \<and> e \<noteq> 0)"
    using \<open>f32_fin w\<close> unfolding f32_fin_def f32_decode_def Let_def m_def [symmetric] e_def [symmetric]
    by (auto split: if_splits)
  then show ?thesis
    unfolding f32_val_def using m e by (elim disjE conjE) (auto simp del: rv_Fin intro!: representable_Fin)
qed

lemma round32_side:
  assumes "fin x" "\<bar>rv x\<bar> \<le> 2 ^ 100"
  shows "fin (round32 x)"
    and "representable 24 (- 149) t \<Longrightarrow> rv x \<le> t \<Longrightarrow> rv (round32 x) \<le> t"
    and "representable 24 (- 149) t \<Longrightarrow> t \<le> rv x \<Longrightarrow> t \<le> rv (round32 x)"
proof -
  have "representable 24 (- 149) (2 ^ 100)"
    using representable_int [of 1 24 "- 149" 100] by (simp add: power_int_def)
  then show f: "fin (round32 x)"
    unfolding round32_def by (rule fround_no_overflow [OF assms(1) _ _ assms(2)]) (simp_all add: power_int_def)
  show "representable 24 (- 149) t \<Longrightarrow> rv x \<le> t \<Longrightarrow> rv (round32 x) \<le> t"
    and "representable 24 (- 149) t \<Longrightarrow> t \<le> rv x \<Longrightarrow> t \<le> rv (round32 x)"
    using fround_side [OF assms(1), of 24 "- 149" t 128] f by (auto simp: round32_def)
qed

lemma round64_side:
  assumes "fin x" "\<bar>rv x\<bar> \<le> 2 ^ 100"
  shows "fin (round64 x)"
    and "representable 53 (- 1074) t \<Longrightarrow> rv x \<le> t \<Longrightarrow> rv (round64 x) \<le> t"
    and "representable 53 (- 1074) t \<Longrightarrow> t \<le> rv x \<Longrightarrow> t \<le> rv (round64 x)"
proof -
  have "representable 53 (- 1074) (2 ^ 100)"
    using representable_int [of 1 53 "- 1074" 100] by (simp add: power_int_def)
  then show f: "fin (round64 x)"
    unfolding round64_def by (rule fround_no_overflow [OF assms(1) _ _ assms(2)]) (simp_all add: power_int_def)
  show "representable 53 (- 1074) t \<Longrightarrow> rv x \<le> t \<Longrightarrow> rv (round64 x) \<le> t"
    and "representable 53 (- 1074) t \<Longrightarrow> t \<le> rv x \<Longrightarrow> t \<le> rv (round64 x)"
    using fround_side [OF assms(1), of 53 "- 1074" t 1024] f by (auto simp: round64_def)
qed

lemma round_exact:
  assumes "fin x" "\<bar>rv x\<bar> \<le> 2 ^ 100"
  shows "representable 24 (- 149) (rv x) \<Longrightarrow> rv (round32 x) = rv x"
    and "representable 53 (- 1074) (rv x) \<Longrightarrow> rv (round64 x) = rv x"
  using round32_side(2,3) [OF assms, of "rv x"] round64_side(2,3) [OF assms, of "rv x"]
  by (simp_all add: antisym)

text \<open>Storing a value in a \<open>float\<close>, for values far from overflow.\<close>

lemma to_f32_side:
  assumes "fin x" "\<bar>rv x\<bar> \<le> 2 ^ 100"
  defines "w \<equiv> f32_encode (round32 x)"
  shows "f32_fin w"
    and "representable 24 (- 149) t \<Longrightarrow> rv x \<le> t \<Longrightarrow> f32_val w \<le> t"
    and "representable 24 (- 149) t \<Longrightarrow> t \<le> rv x \<Longrightarrow> t \<le> f32_val w"
  using round32_side [OF assms(1,2)] round32_value [OF _ assms(1)] by (simp_all add: w_def)

lemma to_f32_exact:
  assumes "fin x" "\<bar>rv x\<bar> \<le> 2 ^ 100" "representable 24 (- 149) (rv x)"
  shows "f32_fin (f32_encode (round32 x))" "f32_val (f32_encode (round32 x)) = rv x"
  using round32_value [OF round32_side(1) [OF assms(1,2)] assms(1)] round_exact(1) [OF assms]
  by simp_all

lemma representable_grid: "\<bar>k\<bar> < 2 ^ 24 \<Longrightarrow> representable 24 (- 149) (real_of_int k / 2 ^ 16)"
  using representable_int [of k 24 "- 149" "- 16"] by simp

lemma representable_of_int: "\<bar>k\<bar> < 2 ^ 24 \<Longrightarrow> representable 24 (- 149) (real_of_int k)"
  using representable_int [of k 24 "- 149" 0] by simp

text \<open>The same in both directions: \<open>\<sigma>\<close> is 1 or -1.\<close>

lemma rounding_signed:
  assumes "fin x" "\<bar>rv x\<bar> \<le> 2 ^ 100" "\<sigma> = 1 \<or> \<sigma> = (- 1 :: real)"
  shows "representable 24 (- 149) t \<Longrightarrow> t \<le> \<sigma> * rv x \<Longrightarrow> t \<le> \<sigma> * rv (round32 x)"
    and "representable 24 (- 149) t \<Longrightarrow> \<sigma> * rv x \<le> t \<Longrightarrow> \<sigma> * rv (round32 x) \<le> t"
    and "representable 53 (- 1074) t \<Longrightarrow> t \<le> \<sigma> * rv x \<Longrightarrow> t \<le> \<sigma> * rv (round64 x)"
    and "representable 53 (- 1074) t \<Longrightarrow> \<sigma> * rv x \<le> t \<Longrightarrow> \<sigma> * rv (round64 x) \<le> t"
  using assms(3) representable_uminus [of _ _ t]
    round32_side(2,3) [OF assms(1,2), of t] round32_side(2,3) [OF assms(1,2), of "- t"]
    round64_side(2,3) [OF assms(1,2), of t] round64_side(2,3) [OF assms(1,2), of "- t"]
  by (auto simp: minus_le_iff le_minus_iff)

lemma representable_24_53: "representable 24 (- 149) t \<Longrightarrow> representable 53 (- 1074) t"
  by (erule representable_mono) simp_all

end
