(* ===== verification/Wiper_Sim.thy ===== *)
theory Wiper_Sim
  imports Wiper_Poc Ieee_Rounding
begin

text \<open>
  The wiper simulation \<^verbatim>\<open>examples/wiper_service/wiper_sim.cc\<close>: the record of the
  members of \<open>wiper_simulator\<close>, \<open>model_init\<close>, \<open>model_set\<close> and \<open>model_step\<close>. The
  clock and the two random numbers a step draws are its arguments; random numbers are the values
  of the distributions \<open>speed_rnd_\<close> and \<open>current_rnd_\<close>. Arithmetic is that of \<open>Ieee\<close>:
  the product of elapsed time and step is a \<open>float\<close>, the next position a \<open>double\<close> that is
  rounded to \<open>float\<close> when it is stored. The counter of steps wraps at 32 bits; only its low
  byte is sent.
\<close>

section \<open>State and operations\<close>

record wiper_simulator =
  model_counter :: u32
  sim_cycle :: u32
  sim_event :: t_Event
  sim_pos_step :: f32
  sim_wiping :: bool
  sim_cylce_ending :: bool
  sim_cycle_ending_count :: int
  sim_frequency :: int
  sim_target_pos :: f32
  sim_set_ts :: int
  sim_ts :: int

definition f32_of_int :: "int \<Rightarrow> f32" where
  "f32_of_int i = f32_encode (round32 (fl_of_int i))"

definition default_current :: f32 where "default_current = f32_of_int 10"

definition byte_of_bool :: "bool \<Rightarrow> u8" where
  "byte_of_bool b = (if b then 1 else 0)"

definition model_init :: "int \<Rightarrow> wiper_simulator \<Rightarrow> wiper_simulator" where
  "model_init now_ms s =
     s\<lparr>sim_ts := now_ms, sim_set_ts := now_ms, sim_pos_step := f32_of_int 0,
       sim_cycle_ending_count := 0, sim_target_pos := f32_of_int 15,
       sim_event := \<lparr>sequenceCounter = 0, data =
         \<lparr>ActualPosition = f32_of_int 15, DriveCurrent = f32_of_int 10, TempGear = 100,
          isWiping = byte_of_bool True, isEndingWipeCycle = byte_of_bool True,
          isWiperError = byte_of_bool False, isPositionReached = byte_of_bool True,
          isBlocked = byte_of_bool False, isOverheated = byte_of_bool False, ECUTemp = 75,
          LINError = 255, isOverVoltage = byte_of_bool False, isUnderVoltage = byte_of_bool False\<rparr>\<rparr>\<rparr>"

definition new_wiper_simulator :: "u32 \<Rightarrow> int \<Rightarrow> wiper_simulator" where
  "new_wiper_simulator cycle now_ms = model_init now_ms
     \<lparr>model_counter = 0, sim_cycle = cycle, sim_event = zero_event, sim_pos_step = f32_of_int 0,
      sim_wiping = False, sim_cylce_ending = False, sim_cycle_ending_count = 0, sim_frequency = 0,
      sim_target_pos = f32_of_int 0, sim_set_ts = 0, sim_ts = 0\<rparr>"

text \<open>The \<open>double\<close> position after \<open>sim_elapsed_ms\<close> milliseconds.\<close>

definition sim_next_pos :: "int \<Rightarrow> f32 \<Rightarrow> f32 \<Rightarrow> fl" where
  "sim_next_pos sim_elapsed_ms pos_step actual_pos =
     (let sim_moved = round32 (fmul (round32 (fl_of_int sim_elapsed_ms)) (f32_decode pos_step))
      in round64 (fadd (f32_decode actual_pos) sim_moved))"

definition sim_pos_reached :: "f32 \<Rightarrow> fl \<Rightarrow> f32 \<Rightarrow> bool" where
  "sim_pos_reached pos_step next_pos target =
     ((fge (f32_decode pos_step) (fl_of_int 0) \<and> fge next_pos (f32_decode target)) \<or>
      (fless (f32_decode pos_step) (fl_of_int 0) \<and> fge (f32_decode target) next_pos))"

text \<open>
  The branch of \<open>model_step\<close> for a moving wiper: the new members, the next position before the
  sanity checks, and whether the position is reported as reached.
\<close>

definition sim_move :: "int \<Rightarrow> f32 \<Rightarrow> wiper_simulator \<Rightarrow> wiper_simulator \<times> fl \<times> bool" where
  "sim_move sim_elapsed_ms speed_rnd s =
     (let next_pos = sim_next_pos sim_elapsed_ms (sim_pos_step s) (ActualPosition (data (sim_event s))) in
      if sim_pos_reached (sim_pos_step s) next_pos (sim_target_pos s) then
        let s = (if \<not> sim_cylce_ending s
                 then s\<lparr>sim_cylce_ending := True, sim_cycle_ending_count := 0\<rparr> else s);
            s = s\<lparr>sim_cycle_ending_count := sim_cycle_ending_count s + 1\<rparr>
        in if sim_cycle_ending_count s < 3
           then (s\<lparr>sim_pos_step := f32_of_int 0\<rparr>, f32_decode (add32 (sim_target_pos s) speed_rnd), False)
           else (s\<lparr>sim_wiping := False, sim_cylce_ending := False, sim_cycle_ending_count := 0\<rparr>,
                 f32_decode (sim_target_pos s), True)
      else (s, next_pos, False))"

definition sim_check :: "wiper_simulator \<Rightarrow> fl \<Rightarrow> fl" where
  "sim_check s next_pos =
     (let next_pos = (if sim_wiping s \<and> fless next_pos (fl_of_int (- 1)) then fl_of_int 0 else next_pos)
      in if sim_wiping s \<and> fless (fl_of_int 181) next_pos then fl_of_int 180 else next_pos)"

definition model_step :: "int \<Rightarrow> f32 \<Rightarrow> f32 \<Rightarrow> wiper_simulator \<Rightarrow> wiper_simulator" where
  "model_step now_ms speed_rnd current_rnd s =
     (let sim_elapsed_ms = now_ms - sim_ts s;
          s = s\<lparr>model_counter := model_counter s + 1\<rparr>;
          (s, sim_actual_pos, sim_current, pos_reached) =
            (if sim_wiping s then
               let (s, next_pos, pos_reached) = sim_move sim_elapsed_ms speed_rnd s
               in (s, f32_encode (round32 (sim_check s next_pos)), add32 default_current current_rnd, pos_reached)
             else (s, sim_target_pos s, f32_of_int 0, True));
          event = (sim_event s)\<lparr>sequenceCounter := ucast (and (model_counter s) 0xFF),
            data := (data (sim_event s))\<lparr>isWiping := byte_of_bool (sim_wiping s),
              isPositionReached := byte_of_bool pos_reached,
              isEndingWipeCycle := byte_of_bool (sim_cylce_ending s),
              DriveCurrent := sim_current, ActualPosition := sim_actual_pos\<rparr>\<rparr>
      in s\<lparr>sim_event := event, sim_ts := now_ms\<rparr>)"

definition frequency_step :: "int \<Rightarrow> f32" where
  "frequency_step f = f32_encode (round32 (fdiv (round32 (fmul (round32 (fl_of_int f)) (fl_of_int 180))) False 60000 0))"

definition f32_neg :: "f32 \<Rightarrow> f32" where
  "f32_neg w = f32_encode (round32 (fneg (f32_decode w)))"

definition model_set :: "int \<Rightarrow> t_WiperRequest \<Rightarrow> wiper_simulator \<Rightarrow> wiper_simulator" where
  "model_set now_ms req s =
     (let s = s\<lparr>sim_wiping := (Mode req = WIPE), sim_frequency := uint (Frequency req),
                sim_target_pos := TargetPosition req\<rparr>;
          s = s\<lparr>sim_pos_step := frequency_step (sim_frequency s)\<rparr>;
          s = (if fless (f32_decode (sim_target_pos s)) (f32_decode (ActualPosition (data (sim_event s))))
               then s\<lparr>sim_pos_step := f32_neg (sim_pos_step s)\<rparr> else s)
      in s\<lparr>sim_set_ts := now_ms, sim_ts := now_ms, sim_cylce_ending := False\<rparr>)"

definition is_cycle_ending :: "wiper_simulator \<Rightarrow> bool" where
  "is_cycle_ending s = sim_cylce_ending s"

text \<open>
  A run of steps: \<open>d n\<close> is the time in milliseconds before step \<open>n\<close>, \<open>sp n\<close> and
  \<open>cu n\<close> the random numbers it draws.
\<close>

primrec sim_run :: "(nat \<Rightarrow> int) \<Rightarrow> (nat \<Rightarrow> f32) \<Rightarrow> (nat \<Rightarrow> f32) \<Rightarrow> nat \<Rightarrow> wiper_simulator \<Rightarrow> wiper_simulator" where
  "sim_run d sp cu 0 s = s"
| "sim_run d sp cu (Suc n) s =
     (let t = sim_run d sp cu n s in model_step (sim_ts t + d n) (sp n) (cu n) t)"

section \<open>The arithmetic of a step\<close>

lemma f32_of_int_val [simp]:
  assumes "\<bar>i\<bar> < 2 ^ 24"
  shows "f32_fin (f32_of_int i)" "f32_val (f32_of_int i) = real_of_int i"
proof -
  have "\<bar>real_of_int i\<bar> \<le> 2 ^ 100" using assms by auto
  then show "f32_fin (f32_of_int i)" "f32_val (f32_of_int i) = real_of_int i"
    using to_f32_exact [of "fl_of_int i"] fl_of_int_rv [of i] representable_of_int [OF assms]
    by (simp_all add: f32_of_int_def)
qed

lemma frequency_step_bounds:
  assumes "1 \<le> f" "f \<le> 255"
  shows "f32_fin (frequency_step f)" "196 / 2 ^ 16 \<le> f32_val (frequency_step f)" "f32_val (frequency_step f) \<le> 1"
proof -
  define x where "x = round32 (fmul (round32 (fl_of_int f)) (fl_of_int 180))"
  have a: "fin (round32 (fl_of_int f))" "rv (round32 (fl_of_int f)) = real_of_int f"
    using round32_side(1) [of "fl_of_int f"] round_exact(1) [of "fl_of_int f"] fl_of_int_rv [of f]
      representable_of_int [of f] assms by auto
  have b: "fin (fmul (round32 (fl_of_int f)) (fl_of_int 180))"
    "rv (fmul (round32 (fl_of_int f)) (fl_of_int 180)) = real_of_int (f * 180)"
    using fmul_rv [OF a(1), of "fl_of_int 180"] fl_of_int_rv [of 180] a(2) by auto
  have x: "fin x" "rv x = real_of_int (f * 180)"
    using round32_side(1) [OF b(1)] round_exact(1) [OF b(1)] b(2) representable_of_int [of "f * 180"] assms
    by (auto simp: x_def)
  obtain s m e where xe: "x = Fin s m e" "0 \<le> m" using x(1) by (rule fin_cases)
  have s: "s = False" and mv: "real_of_int m * 2 powi e = real_of_int (f * 180)"
  proof -
    have "0 < rv x" using x(2) assms by simp
    moreover have "0 \<le> real_of_int m * 2 powi e" using xe(2) by simp
    ultimately show "s = False" by (cases s) (auto simp: xe(1))
    then show "real_of_int m * 2 powi e = real_of_int (f * 180)" using x(2) by (simp add: xe(1))
  qed
  have "m \<noteq> 0" using mv assms by auto
  then have "1 * 2 powi e \<le> real_of_int m * 2 powi e" using xe(2) by (intro mult_right_mono) auto
  also have "\<dots> \<le> 2 powi 16" unfolding mv using assms by simp
  finally have "2 powi (e - 60) \<le> (2 :: real) powi (- 44)"
    using power_int_le_imp_le_exp [of "2::real" e 16] by (intro powi_mono) simp
  then have tiny: "2 powi (e - 60) \<le> (1 :: real) / 2 ^ 44" by simp
  define d where "d = fdiv (Fin False m e) False 60000 0"
  have d: "fin d" "real_of_int (f * 180) / 60000 - 1 / 2 ^ 44 \<le> rv d" "rv d \<le> real_of_int (f * 180) / 60000 + 1 / 2 ^ 44"
    using fdiv_bounds [of m 60000 e] xe(2) tiny unfolding mv d_def by auto
  have f: "3 / 1000 \<le> real_of_int (f * 180) / 60000" "real_of_int (f * 180) / 60000 \<le> 765 / 1000"
    using assms by auto
  have r: "f32_encode (round32 d) = frequency_step f"
    by (simp add: frequency_step_def d_def xe(1) s flip: x_def)
  have big: "\<bar>rv d\<bar> \<le> 2 ^ 100" using d f by auto
  show "f32_fin (frequency_step f)" unfolding r [symmetric] by (rule to_f32_side(1) [OF d(1) big])
  show "196 / 2 ^ 16 \<le> f32_val (frequency_step f)"
    unfolding r [symmetric] using representable_grid [of 196] d f by (intro to_f32_side(3) [OF d(1) big]) auto
  show "f32_val (frequency_step f) \<le> 1"
    unfolding r [symmetric] using representable_of_int [of 1] d f by (intro to_f32_side(2) [OF d(1) big]) auto
qed

lemma elapsed_bounds:
  assumes "0 \<le> d" "d < 2 ^ 63"
  shows "fin (round32 (fl_of_int d))" "0 \<le> rv (round32 (fl_of_int d))" "rv (round32 (fl_of_int d)) \<le> 2 ^ 63"
    "1 \<le> d \<Longrightarrow> 1 \<le> rv (round32 (fl_of_int d))"
proof -
  have x: "fin (fl_of_int d)" "rv (fl_of_int d) = real_of_int d" using fl_of_int_rv by auto
  have b: "real_of_int d \<le> 2 ^ 63" using assms(2) by simp
  then have big: "\<bar>rv (fl_of_int d)\<bar> \<le> 2 ^ 100" using x assms(1) by simp
  have r: "representable 24 (- 149) (2 ^ 63)" using representable_int [of 1 24 "- 149" 63] by simp
  show "fin (round32 (fl_of_int d))" by (rule round32_side(1) [OF x(1) big])
  show "0 \<le> rv (round32 (fl_of_int d))"
    using representable_of_int [of 0] x assms by (intro round32_side(3) [OF x(1) big]) auto
  show "rv (round32 (fl_of_int d)) \<le> 2 ^ 63"
    using r x b by (intro round32_side(2) [OF x(1) big]) auto
  show "1 \<le> d \<Longrightarrow> 1 \<le> rv (round32 (fl_of_int d))"
    using representable_of_int [of 1] x by (intro round32_side(3) [OF x(1) big]) auto
qed

text \<open>
  One step of movement. In the direction \<open>\<sigma>\<close> of the step the position passes at least 196
  multiples of \<open>1 / 2 ^ 16\<close>, the distance of floats near 180, however the result is rounded.
\<close>

lemma next_pos_moves:
  assumes d: "1 \<le> d" "d < 2 ^ 63" and \<sigma>: "\<sigma> = 1 \<or> \<sigma> = (- 1 :: real)"
    and st: "f32_fin step" "196 / 2 ^ 16 \<le> \<sigma> * f32_val step" "\<sigma> * f32_val step \<le> 1"
    and pos: "f32_fin pos" "\<bar>f32_val pos\<bar> \<le> 181"
  shows "fin (sim_next_pos d step pos)"
    and "\<bar>k\<bar> < 2 ^ 24 \<Longrightarrow> real_of_int k / 2 ^ 16 \<le> \<sigma> * f32_val pos + 196 / 2 ^ 16 \<Longrightarrow>
      real_of_int k / 2 ^ 16 \<le> \<sigma> * rv (sim_next_pos d step pos)"
proof -
  define a where "a = round32 (fl_of_int d)"
  have a: "fin a" "1 \<le> rv a" "rv a \<le> 2 ^ 63" using elapsed_bounds [of d] d by (auto simp: a_def)
  define p where "p = fmul a (f32_decode step)"
  have p: "fin p" "rv p = rv a * f32_val step"
    using fmul_rv [OF a(1)] st(1) by (auto simp: p_def f32_fin_def f32_val_def)
  have sp: "\<sigma> * rv p = rv a * (\<sigma> * f32_val step)" by (simp add: p(2))
  have "196 / 2 ^ 16 * 1 \<le> (\<sigma> * f32_val step) * rv a" using st a by (intro mult_mono) auto
  then have lo: "196 / 2 ^ 16 \<le> \<sigma> * rv p" by (simp add: sp mult.commute)
  have "rv a * (\<sigma> * f32_val step) \<le> 2 ^ 63 * 1" using st a by (intro mult_mono) auto
  then have hi: "\<sigma> * rv p \<le> 2 ^ 63" by (simp add: sp)
  have bigp: "\<bar>rv p\<bar> \<le> 2 ^ 100" using lo hi \<sigma> by auto
  define mv where "mv = round32 p"
  have mv: "fin mv" unfolding mv_def by (rule round32_side(1) [OF p(1) bigp])
  have mlo: "196 / 2 ^ 16 \<le> \<sigma> * rv mv"
    unfolding mv_def using representable_grid [of 196] lo by (intro rounding_signed(1) [OF p(1) bigp \<sigma>]) auto
  have mhi: "\<sigma> * rv mv \<le> 2 ^ 63"
    unfolding mv_def using representable_int [of 1 24 "- 149" 63] hi
    by (intro rounding_signed(2) [OF p(1) bigp \<sigma>]) auto
  define y where "y = fadd (f32_decode pos) mv"
  have y: "fin y" "rv y = f32_val pos + rv mv"
    using fadd_rv [OF _ mv] pos(1) by (auto simp: y_def f32_fin_def f32_val_def)
  have bigy: "\<bar>rv y\<bar> \<le> 2 ^ 100" using y(2) mlo mhi pos(2) \<sigma> by auto
  have n: "sim_next_pos d step pos = round64 y"
    by (simp add: sim_next_pos_def y_def mv_def p_def a_def)
  show "fin (sim_next_pos d step pos)" unfolding n by (rule round64_side(1) [OF y(1) bigy])
  show "real_of_int k / 2 ^ 16 \<le> \<sigma> * rv (sim_next_pos d step pos)"
    if "\<bar>k\<bar> < 2 ^ 24" "real_of_int k / 2 ^ 16 \<le> \<sigma> * f32_val pos + 196 / 2 ^ 16"
    unfolding n using that mlo
    by (intro rounding_signed(3) [OF y(1) bigy \<sigma>] representable_24_53 representable_grid)
      (auto simp: y(2) distrib_left)
qed

lemma next_pos_still:
  assumes "0 \<le> d" "d < 2 ^ 63" "f32_fin step" "f32_val step = 0" "f32_fin pos" "\<bar>f32_val pos\<bar> \<le> 181"
  shows "fin (sim_next_pos d step pos)" "rv (sim_next_pos d step pos) = f32_val pos"
proof -
  define p where "p = fmul (round32 (fl_of_int d)) (f32_decode step)"
  have p: "fin p" "rv p = 0"
    using fmul_rv [OF elapsed_bounds(1) [OF assms(1,2)]] assms(3,4) by (auto simp: p_def f32_fin_def f32_val_def)
  have mv: "fin (round32 p)" "rv (round32 p) = 0"
    using round32_side(1) [OF p(1)] round_exact(1) [OF p(1)] p(2) representable_of_int [of 0] by auto
  define y where "y = fadd (f32_decode pos) (round32 p)"
  have y: "fin y" "rv y = f32_val pos"
    using fadd_rv [OF _ mv(1)] assms(5) mv(2) by (auto simp: y_def f32_fin_def f32_val_def)
  have big: "\<bar>rv y\<bar> \<le> 2 ^ 100" using y assms(6) by auto
  have n: "sim_next_pos d step pos = round64 y" by (simp add: sim_next_pos_def y_def p_def)
  show "fin (sim_next_pos d step pos)" unfolding n by (rule round64_side(1) [OF y(1) big])
  show "rv (sim_next_pos d step pos) = f32_val pos"
    unfolding n using round_exact(2) [OF y(1) big] representable_24_53 [OF f32_representable [OF assms(5)]] y(2)
    by simp
qed

lemma sim_pos_reached_iff:
  assumes "fin next_pos" "f32_fin step" "f32_fin target" "\<sigma> = 1 \<or> \<sigma> = (- 1 :: real)"
    "\<sigma> = 1 \<and> 0 \<le> f32_val step \<or> 0 < \<sigma> * f32_val step"
  shows "sim_pos_reached step next_pos target \<longleftrightarrow> \<sigma> * f32_val target \<le> \<sigma> * rv next_pos"
  using assms fl_of_int_rv [of 0]
  by (auto simp: sim_pos_reached_def fge_rv fless_rv f32_fin_def f32_val_def)

section \<open>Phases of a wipe\<close>

abbreviation sim_pos :: "wiper_simulator \<Rightarrow> f32" where
  "sim_pos s \<equiv> ActualPosition (data (sim_event s))"

definition flags :: "wiper_simulator \<Rightarrow> bool \<times> bool \<times> bool" where
  "flags s = (let e = data (sim_event s)
     in (isWiping e = 1, isEndingWipeCycle e = 1, isPositionReached e = 1))"

text \<open>Moving in direction \<open>\<sigma>\<close>, having passed \<open>g\<close> on the grid of \<open>1 / 2 ^ 16\<close>.\<close>

definition moving :: "real \<Rightarrow> int \<Rightarrow> wiper_simulator \<Rightarrow> bool" where
  "moving \<sigma> g s \<longleftrightarrow> sim_wiping s \<and> \<not> sim_cylce_ending s \<and>
     f32_fin (sim_pos_step s) \<and> 196 / 2 ^ 16 \<le> \<sigma> * f32_val (sim_pos_step s) \<and> \<sigma> * f32_val (sim_pos_step s) \<le> 1 \<and>
     f32_fin (sim_pos s) \<and> - 1 \<le> f32_val (sim_pos s) \<and> f32_val (sim_pos s) \<le> 181 \<and>
     - 12000000 \<le> g \<and> real_of_int g / 2 ^ 16 \<le> \<sigma> * f32_val (sim_pos s)"

text \<open>At the target, with \<open>n\<close> events of the ending cycle counted.\<close>

definition ending :: "int \<Rightarrow> wiper_simulator \<Rightarrow> bool" where
  "ending n s \<longleftrightarrow> sim_wiping s \<and> sim_cylce_ending s \<and> sim_cycle_ending_count s = n \<and>
     f32_fin (sim_pos_step s) \<and> f32_val (sim_pos_step s) = 0 \<and>
     f32_fin (sim_pos s) \<and> f32_val (sim_target_pos s) \<le> f32_val (sim_pos s) \<and> f32_val (sim_pos s) \<le> 181"

definition stopped :: "wiper_simulator \<Rightarrow> bool" where
  "stopped s \<longleftrightarrow> \<not> sim_wiping s \<and> \<not> sim_cylce_ending s \<and> f32_val (sim_pos s) = f32_val (sim_target_pos s)"

definition good_target :: "f32 \<Rightarrow> bool" where
  "good_target w \<longleftrightarrow> f32_fin w \<and> 0 \<le> f32_val w \<and> f32_val w \<le> 180"

definition good_speed :: "f32 \<Rightarrow> bool" where
  "good_speed w \<longleftrightarrow> f32_fin w \<and> 0 \<le> f32_val w \<and> f32_val w \<le> 1"

lemma sim_check_id: "fin x \<Longrightarrow> - 1 \<le> rv x \<Longrightarrow> rv x \<le> 181 \<Longrightarrow> sim_check s x = x"
  using fl_of_int_rv [of "- 1"] fl_of_int_rv [of 181] by (simp add: sim_check_def Let_def fless_rv)

lemma model_step_wiping:
  fixes cu :: f32
  assumes "sim_wiping s" and "sim_move d sp (s\<lparr>model_counter := model_counter s + 1\<rparr>) = (s', np, r)"
  defines "t \<equiv> model_step (sim_ts s + d) sp cu s"
  shows "sim_pos t = f32_encode (round32 (sim_check s' np))"
    "sim_wiping t = sim_wiping s'" "sim_cylce_ending t = sim_cylce_ending s'"
    "sim_cycle_ending_count t = sim_cycle_ending_count s'" "sim_pos_step t = sim_pos_step s'"
    "sim_target_pos t = sim_target_pos s'" "sim_ts t = sim_ts s + d"
    "flags t = (sim_wiping s', sim_cylce_ending s', r)"
  using assms(1,2) by (auto simp: t_def model_step_def Let_def flags_def byte_of_bool_def)

lemma ending_pos:
  assumes tg: "good_target tgt" and sp: "good_speed sp"
  defines "w \<equiv> add32 tgt sp"
  shows "sim_check s (f32_decode w) = f32_decode w" "f32_fin (f32_encode (round32 (f32_decode w)))"
    "f32_val tgt \<le> f32_val (f32_encode (round32 (f32_decode w)))"
    "f32_val (f32_encode (round32 (f32_decode w))) \<le> 181"
proof -
  let ?x = "fadd (f32_decode tgt) (f32_decode sp)"
  have tf: "f32_fin tgt" "0 \<le> f32_val tgt" "f32_val tgt \<le> 180" using tg by (auto simp: good_target_def)
  have sb: "0 \<le> f32_val sp" "f32_val sp \<le> 1" using sp by (auto simp: good_speed_def)
  have x: "fin ?x" "rv ?x = f32_val tgt + f32_val sp"
    using fadd_rv tf(1) sp by (auto simp: good_speed_def f32_fin_def f32_val_def)
  have big: "\<bar>rv ?x\<bar> \<le> 2 ^ 100" using x tf sb by auto
  have w: "f32_fin w" "f32_val tgt \<le> f32_val w" "f32_val w \<le> 181"
    unfolding w_def add32_def using to_f32_side [OF x(1) big] f32_representable [OF tf(1)]
      representable_of_int [of 181] x(2) tf sb by auto
  show "sim_check s (f32_decode w) = f32_decode w"
    using w tf by (intro sim_check_id) (auto simp: f32_fin_def f32_val_def)
  have "f32_fin (f32_encode (round32 (f32_decode w)))" "f32_val (f32_encode (round32 (f32_decode w))) = f32_val w"
    using to_f32_exact [of "f32_decode w"] w tf f32_representable [OF w(1)] by (auto simp: f32_fin_def f32_val_def)
  with w show "f32_fin (f32_encode (round32 (f32_decode w)))"
    "f32_val tgt \<le> f32_val (f32_encode (round32 (f32_decode w)))"
    "f32_val (f32_encode (round32 (f32_decode w))) \<le> 181" by auto
qed

lemma moving_step:
  fixes cu :: f32
  assumes m: "moving \<sigma> g s" and \<sigma>: "\<sigma> = 1 \<or> \<sigma> = (- 1 :: real)" and tg: "good_target (sim_target_pos s)"
    and d: "1 \<le> d" "d < 2 ^ 63" and sp: "good_speed sp"
  defines "t \<equiv> model_step (sim_ts s + d) sp cu s"
  shows "sim_target_pos t = sim_target_pos s \<and>
    (moving \<sigma> (g + 196) t \<and> real_of_int (g + 196) / 2 ^ 16 \<le> \<sigma> * f32_val (sim_target_pos s) \<and> flags t = (True, False, False) \<or>
     ending 1 t \<and> flags t = (True, True, False))"
proof -
  define np where "np = sim_next_pos d (sim_pos_step s) (sim_pos s)"
  let ?s = "s\<lparr>model_counter := model_counter s + 1\<rparr>"
  note mm = m [unfolded moving_def]
  have wp: "sim_wiping s" using mm by simp
  have fnp: "fin np" and grid: "\<And>k. \<bar>k\<bar> < 2 ^ 24 \<Longrightarrow> real_of_int k / 2 ^ 16 \<le> \<sigma> * f32_val (sim_pos s) + 196 / 2 ^ 16 \<Longrightarrow>
      real_of_int k / 2 ^ 16 \<le> \<sigma> * rv np"
    using next_pos_moves [OF d \<sigma>, of "sim_pos_step s" "sim_pos s"] mm by (auto simp: np_def)
  have tf: "f32_fin (sim_target_pos s)" "0 \<le> f32_val (sim_target_pos s)" "f32_val (sim_target_pos s) \<le> 180"
    using tg by (auto simp: good_target_def)
  have reached: "sim_pos_reached (sim_pos_step s) np (sim_target_pos s) \<longleftrightarrow>
      \<sigma> * f32_val (sim_target_pos s) \<le> \<sigma> * rv np"
    using mm by (intro sim_pos_reached_iff fnp tf(1) \<sigma>) auto
  show ?thesis
  proof (cases "sim_pos_reached (sim_pos_step s) np (sim_target_pos s)")
    case True
    define w where "w = add32 (sim_target_pos s) sp"
    have mv: "sim_move d sp ?s = (?s\<lparr>sim_cylce_ending := True, sim_cycle_ending_count := 1,
        sim_pos_step := f32_of_int 0\<rparr>, f32_decode w, False)"
      using True mm by (simp add: sim_move_def Let_def np_def w_def)
    note w = ending_pos [OF tg sp, folded w_def]
    have "ending 1 t"
      unfolding ending_def t_def model_step_wiping [OF wp mv] using wp w by simp
    then show ?thesis
      unfolding t_def model_step_wiping [OF wp mv] using wp by simp
  next
    case False
    then have lt: "\<sigma> * rv np < \<sigma> * f32_val (sim_target_pos s)" using reached by simp
    have mv: "sim_move d sp ?s = (?s, np, False)" using False by (simp add: sim_move_def Let_def np_def)
    have lb: "- 1 \<le> rv np" "rv np \<le> 181"
      using grid [of "- 65536"] grid [of "- 11862016"] lt \<sigma> mm tf by auto
    have big: "\<bar>rv np\<bar> \<le> 2 ^ 100" using lb by auto
    have ck: "sim_check s' np = np" for s' using fnp lb by (rule sim_check_id)
    define w where "w = f32_encode (round32 np)"
    have w: "f32_fin w" "f32_val w = rv (round32 np)"
      using round32_value [OF round32_side(1) [OF fnp big] fnp] by (auto simp: w_def)
    have g: "\<bar>g + 196\<bar> < 2 ^ 24" using mm \<sigma> by auto
    have g1: "real_of_int (g + 196) / 2 ^ 16 \<le> \<sigma> * rv np" using grid [OF g] mm by (auto simp: add_divide_distrib)
    have wl: "real_of_int (g + 196) / 2 ^ 16 \<le> \<sigma> * f32_val w"
      unfolding w(2) by (rule rounding_signed(1) [OF fnp big \<sigma> representable_grid [OF g] g1])
    have "\<sigma> * f32_val w \<le> \<sigma> * f32_val (sim_target_pos s)"
      unfolding w(2) using lt f32_representable [OF tf(1)] representable_uminus [OF f32_representable [OF tf(1)]] \<sigma>
      by (intro rounding_signed(2) [OF fnp big \<sigma>]) auto
    moreover have "- 1 \<le> f32_val w" "f32_val w \<le> 181"
      using to_f32_side(2,3) [OF fnp big] lb representable_of_int [of "- 1"] representable_of_int [of 181]
      by (auto simp: w_def)
    ultimately have "moving \<sigma> (g + 196) t" "real_of_int (g + 196) / 2 ^ 16 \<le> \<sigma> * f32_val (sim_target_pos s)"
      unfolding moving_def t_def model_step_wiping [OF wp mv] using mm w wl by (auto simp: ck w_def)
    then show ?thesis
      unfolding t_def model_step_wiping [OF wp mv] using mm by simp
  qed
qed

lemma ending_step:
  fixes cu :: f32
  assumes e: "ending n s" and tg: "good_target (sim_target_pos s)" and d: "1 \<le> d" "d < 2 ^ 63" and sp: "good_speed sp"
  defines "t \<equiv> model_step (sim_ts s + d) sp cu s"
  shows "sim_target_pos t = sim_target_pos s"
    "n = 1 \<Longrightarrow> ending 2 t \<and> flags t = (True, True, False)"
    "n = 2 \<Longrightarrow> stopped t \<and> flags t = (False, False, True)"
proof -
  let ?s = "s\<lparr>model_counter := model_counter s + 1\<rparr>" and ?np = "sim_next_pos d (sim_pos_step s) (sim_pos s)"
  note ee = e [unfolded ending_def]
  have wp: "sim_wiping s" using ee by simp
  have tf: "f32_fin (sim_target_pos s)" "0 \<le> f32_val (sim_target_pos s)" "f32_val (sim_target_pos s) \<le> 180"
    using tg by (auto simp: good_target_def)
  have np: "fin ?np" "rv ?np = f32_val (sim_pos s)"
    using next_pos_still [of d "sim_pos_step s" "sim_pos s"] d ee tf by auto
  have reached: "sim_pos_reached (sim_pos_step s) ?np (sim_target_pos s)"
    using sim_pos_reached_iff [OF np(1) _ tf(1), of "sim_pos_step s" 1] ee np by simp
  note w = ending_pos [OF tg sp]
  have t: "f32_val (f32_encode (round32 (f32_decode (sim_target_pos s)))) = f32_val (sim_target_pos s)"
    "sim_check s' (f32_decode (sim_target_pos s)) = f32_decode (sim_target_pos s)" for s'
    using to_f32_exact [of "f32_decode (sim_target_pos s)"] tf f32_representable [OF tf(1)] sim_check_id
    by (auto simp: f32_fin_def f32_val_def)
  have m1: "sim_move d sp ?s = (?s\<lparr>sim_cycle_ending_count := 2, sim_pos_step := f32_of_int 0\<rparr>,
      f32_decode (add32 (sim_target_pos s) sp), False)" if "n = 1"
    using reached ee that by (simp add: sim_move_def Let_def)
  have m2: "sim_move d sp ?s = (?s\<lparr>sim_wiping := False, sim_cylce_ending := False, sim_cycle_ending_count := 0\<rparr>,
      f32_decode (sim_target_pos s), True)" if "n = 2"
    using reached ee that by (simp add: sim_move_def Let_def)
  show "ending 2 t \<and> flags t = (True, True, False)" if "n = 1"
    unfolding ending_def t_def model_step_wiping [OF wp m1 [OF that]] using ee w by simp
  show "stopped t \<and> flags t = (False, False, True)" if "n = 2"
    unfolding stopped_def t_def model_step_wiping [OF wp m2 [OF that]] using t by simp
  show "sim_target_pos t = sim_target_pos s"
    by (simp add: t_def model_step_def sim_move_def Let_def split: prod.splits if_splits)
qed

lemma stopped_step:
  assumes "stopped s"
  shows "stopped (model_step now sp cu s)" "sim_target_pos (model_step now sp cu s) = sim_target_pos s"
    "flags (model_step now sp cu s) = (False, False, True)"
  using assms by (simp_all add: stopped_def model_step_def flags_def byte_of_bool_def Let_def)

lemma f32_neg_val: "f32_fin w \<Longrightarrow> \<bar>f32_val w\<bar> \<le> 2 ^ 100 \<Longrightarrow> f32_fin (f32_neg w) \<and> f32_val (f32_neg w) = - f32_val w"
  using fneg_rv [of "f32_decode w"] to_f32_exact [of "fneg (f32_decode w)"]
    representable_uminus [OF f32_representable [of w]]
  by (simp add: f32_neg_def f32_fin_def f32_val_def)

lemma model_set_moving:
  assumes "Mode req = WIPE" "Frequency req \<noteq> 0" "good_target (TargetPosition req)"
    and pos: "f32_fin (sim_pos s)" "- 1 \<le> f32_val (sim_pos s)" "f32_val (sim_pos s) \<le> 181"
  shows "\<exists>\<sigma> g. (\<sigma> = 1 \<or> \<sigma> = - 1) \<and> moving \<sigma> g (model_set now req s) \<and>
    \<sigma> * f32_val (TargetPosition req) * 2 ^ 16 \<le> real_of_int g + 11862017"
proof -
  have tf: "f32_fin (TargetPosition req)" "0 \<le> f32_val (TargetPosition req)" "f32_val (TargetPosition req) \<le> 180"
    using assms(3) by (auto simp: good_target_def)
  have f: "1 \<le> uint (Frequency req)" "uint (Frequency req) \<le> 255"
    using assms(2) uint_0_iff [of "Frequency req"] uint_ge_0 [of "Frequency req"]
      uint_lt2p [of "Frequency req", simplified] by linarith+
  define st where "st = frequency_step (uint (Frequency req))"
  have st: "f32_fin st" "196 / 2 ^ 16 \<le> f32_val st" "f32_val st \<le> 1"
    using frequency_step_bounds [OF f] by (auto simp: st_def)
  have ng: "f32_fin (f32_neg st)" "f32_val (f32_neg st) = - f32_val st"
    using f32_neg_val [OF st(1)] st by auto
  define down where "down = (f32_val (TargetPosition req) < f32_val (sim_pos s))"
  define \<sigma> :: real where "\<sigma> = (if down then - 1 else 1)"
  define g where "g = \<lfloor>\<sigma> * f32_val (sim_pos s) * 2 ^ 16\<rfloor>"
  have fl: "fless (f32_decode (TargetPosition req)) (f32_decode (sim_pos s)) = down"
    using fless_rv tf(1) pos(1) by (simp add: down_def f32_fin_def f32_val_def)
  have g: "real_of_int g \<le> \<sigma> * f32_val (sim_pos s) * 2 ^ 16" "\<sigma> * f32_val (sim_pos s) * 2 ^ 16 < real_of_int g + 1"
    unfolding g_def by linarith+
  have g0: "- 12000000 \<le> g" using g pos by (auto simp: \<sigma>_def split: if_splits)
  have "moving \<sigma> g (model_set now req s)"
    using st ng pos assms(1) g g0 fl by (auto simp: moving_def model_set_def Let_def \<sigma>_def st_def)
  moreover have "\<sigma> * f32_val (TargetPosition req) * 2 ^ 16 \<le> real_of_int g + 11862017"
    using g pos tf by (auto simp: \<sigma>_def split: if_splits)
  ultimately show ?thesis unfolding \<sigma>_def by metis
qed

lemma moving_run:
  assumes m: "moving \<sigma> g s" and \<sigma>: "\<sigma> = 1 \<or> \<sigma> = (- 1 :: real)" and tg: "good_target (sim_target_pos s)"
    and d: "\<And>n. 1 \<le> d n \<and> d n < 2 ^ 63" and sp: "\<And>n. good_speed (sp n)"
  shows "(\<forall>k\<in>{1..n}. flags (sim_run d sp cu k s) = (True, False, False)) \<and>
      moving \<sigma> (g + 196 * int n) (sim_run d sp cu n s) \<and> sim_target_pos (sim_run d sp cu n s) = sim_target_pos s \<and>
      (0 < n \<longrightarrow> real_of_int (g + 196 * int n) / 2 ^ 16 \<le> \<sigma> * f32_val (sim_target_pos s)) \<or>
    (\<exists>k<n. (\<forall>j\<in>{1..k}. flags (sim_run d sp cu j s) = (True, False, False)) \<and>
      flags (sim_run d sp cu (Suc k) s) = (True, True, False) \<and> ending 1 (sim_run d sp cu (Suc k) s) \<and>
      sim_target_pos (sim_run d sp cu (Suc k) s) = sim_target_pos s)"
proof (induction n)
  case 0
  show ?case using m by simp
next
  case (Suc n)
  let ?t = "sim_run d sp cu n s"
  show ?case
  proof (cases "\<exists>k<n. (\<forall>j\<in>{1..k}. flags (sim_run d sp cu j s) = (True, False, False)) \<and>
      flags (sim_run d sp cu (Suc k) s) = (True, True, False) \<and> ending 1 (sim_run d sp cu (Suc k) s) \<and>
      sim_target_pos (sim_run d sp cu (Suc k) s) = sim_target_pos s")
    case True
    then show ?thesis by (meson less_Suc_eq)
  next
    case False
    with Suc have fl: "\<forall>k\<in>{1..n}. flags (sim_run d sp cu k s) = (True, False, False)"
      and mv: "moving \<sigma> (g + 196 * int n) ?t" and tp: "sim_target_pos ?t = sim_target_pos s" by auto
    have "sim_run d sp cu (Suc n) s = model_step (sim_ts ?t + d n) (sp n) (cu n) ?t" by (simp add: Let_def)
    with moving_step [OF mv \<sigma>, of "d n" "sp n" "cu n"] tg tp d [of n] sp [of n] fl
    show ?thesis by (auto simp: atLeastAtMostSuc_conv algebra_simps simp del: sim_run.simps)
  qed
qed

text \<open>Mantissas are never negative.\<close>

definition wf_fl :: "fl \<Rightarrow> bool" where
  "wf_fl x = (case x of Fin s m e \<Rightarrow> 0 \<le> m | _ \<Rightarrow> True)"

lemma wf_fl_decode: "wf_fl (f32_decode w)"
  by (simp add: wf_fl_def f32_decode_def Let_def)

lemma wf_fl_round: "wf_fl x \<Longrightarrow> wf_fl (fround p emin emax x)"
  by (cases x) (auto simp: wf_fl_def fround_def round_shift_nonneg Let_def split: prod.splits if_splits)

lemma wf_fl_fadd: "wf_fl x \<Longrightarrow> wf_fl y \<Longrightarrow> wf_fl (fadd x y)"
  by (cases x; cases y) (auto simp: wf_fl_def fadd_def Let_def)

lemma wf_fl_fmul: "wf_fl x \<Longrightarrow> wf_fl y \<Longrightarrow> wf_fl (fmul x y)"
  by (cases x; cases y) (auto simp: wf_fl_def fmul_def)

lemma wf_fl_of_int: "wf_fl (fl_of_int i)"
  by (simp add: wf_fl_def fl_of_int_def)

lemma sim_move_wf: "sim_move d sp s = (s', np, r) \<Longrightarrow> wf_fl np"
  by (auto simp: sim_move_def sim_next_pos_def Let_def wf_fl_decode wf_fl_of_int round32_def round64_def
      intro!: wf_fl_round wf_fl_fadd wf_fl_fmul split: if_splits)

lemma sim_check_range:
  assumes "sim_wiping s" "wf_fl x"
  shows "sim_check s x = NaN \<or> fin (sim_check s x) \<and> - 1 \<le> rv (sim_check s x) \<and> rv (sim_check s x) \<le> 181"
proof -
  note c = fl_of_int_rv [of "- 1"] fl_of_int_rv [of 0] fl_of_int_rv [of 180] fl_of_int_rv [of 181]
  have n: "fless (fl_of_int 181) (fl_of_int 0) = False" using c by (simp add: fless_rv)
  show ?thesis
  proof (cases "fin x")
    case True
    then show ?thesis using c assms(1) n by (auto simp: sim_check_def Let_def fless_rv)
  next
    case False
    have "fless (Inf b) (fl_of_int i) = b" "fless (fl_of_int i) (Inf b) = (\<not> b)" for b i
      by (simp_all add: fless_def fl_of_int_def)
    moreover have "\<not> fless NaN y" "\<not> fless y NaN" for y by (simp_all add: fless_def split: fl.splits)
    ultimately show ?thesis
      using False assms c n by (cases x) (auto simp: sim_check_def Let_def wf_fl_def)
  qed
qed

lemma to_f32_between:
  assumes "fin x" "- 1 \<le> rv x" "rv x \<le> 181"
  shows "f32_fin (f32_encode (round32 x))" "- 1 \<le> f32_val (f32_encode (round32 x))"
    "f32_val (f32_encode (round32 x)) \<le> 181"
proof -
  have "\<bar>rv x\<bar> \<le> 2 ^ 100" using assms by auto
  from to_f32_side [OF assms(1) this] representable_of_int [of "- 1"] representable_of_int [of 181] assms
  show "f32_fin (f32_encode (round32 x))" "- 1 \<le> f32_val (f32_encode (round32 x))"
    "f32_val (f32_encode (round32 x)) \<le> 181" by auto
qed

lemma to_f32_NaN: "f32_decode (f32_encode (round32 NaN)) = NaN"
  by code_simp

lemma wipe_run:
  assumes m: "moving \<sigma> g s" and \<sigma>: "\<sigma> = 1 \<or> \<sigma> = (- 1 :: real)" and tg: "good_target (sim_target_pos s)"
    and near: "\<sigma> * f32_val (sim_target_pos s) * 2 ^ 16 \<le> real_of_int g + 11862017"
    and d: "\<And>n. 1 \<le> d n \<and> d n < 2 ^ 63" and sp: "\<And>n. good_speed (sp n)"
  shows "\<exists>n \<le> 60525. 3 \<le> n \<and> (\<forall>k\<in>{1..<n}. flags (sim_run d sp cu k s) = (True, n \<le> k + 2, False)) \<and>
    flags (sim_run d sp cu n s) = (False, False, True) \<and> stopped (sim_run d sp cu n s) \<and>
    sim_target_pos (sim_run d sp cu n s) = sim_target_pos s"
proof -
  let ?r = "\<lambda>n. sim_run d sp cu n s"
  have next_r: "?r (Suc n) = model_step (sim_ts (?r n) + d n) (sp n) (cu n) (?r n)" for n by (simp add: Let_def)
  obtain k where k: "k < 60523" "\<forall>j\<in>{1..k}. flags (?r j) = (True, False, False)"
    and e1: "flags (?r (Suc k)) = (True, True, False)" "ending 1 (?r (Suc k))"
      "sim_target_pos (?r (Suc k)) = sim_target_pos s"
    using moving_run [where d = d and sp = sp and cu = cu and n = 60523, OF m \<sigma> tg d sp] near
    by (auto simp del: sim_run.simps)
  have e2: "flags (?r (Suc (Suc k))) = (True, True, False)" "ending 2 (?r (Suc (Suc k)))"
      "sim_target_pos (?r (Suc (Suc k))) = sim_target_pos s"
    using ending_step [OF e1(2), of "d (Suc k)" "sp (Suc k)" "cu (Suc k)"] e1(3) tg d sp
    unfolding next_r [of "Suc k"] by auto
  have e3: "flags (?r (Suc (Suc (Suc k)))) = (False, False, True)" "stopped (?r (Suc (Suc (Suc k))))"
      "sim_target_pos (?r (Suc (Suc (Suc k)))) = sim_target_pos s"
    using ending_step [OF e2(2), of "d (Suc (Suc k))" "sp (Suc (Suc k))" "cu (Suc (Suc k))"] e2(3) tg d sp
    unfolding next_r [of "Suc (Suc k)"] by auto
  have "flags (?r j) = (True, Suc (Suc (Suc k)) \<le> j + 2, False)" if j: "1 \<le> j" "j < Suc (Suc (Suc k))" for j
  proof (cases "j \<le> k")
    case True
    then show ?thesis using k(2) j by simp
  next
    case False
    then have "j = Suc k \<or> j = Suc (Suc k)" using j(2) by linarith
    then show ?thesis using e1(1) e2(1) by auto
  qed
  then show ?thesis using k(1) e3 by (intro exI [of _ "Suc (Suc (Suc k))"]) auto
qed

lemma stopped_run:
  "stopped (sim_run d sp cu n s) \<Longrightarrow> flags (sim_run d sp cu n s) = (False, False, True) \<Longrightarrow>
   stopped (sim_run d sp cu (n + k) s) \<and> flags (sim_run d sp cu (n + k) s) = (False, False, True) \<and>
   sim_target_pos (sim_run d sp cu (n + k) s) = sim_target_pos (sim_run d sp cu n s)"
  by (induction k) (simp_all add: stopped_step Let_def)

section \<open>Invariant\<close>

definition sim_init :: "wiper_simulator \<Rightarrow> bool" where
  "sim_init s = (\<exists>cycle now. s = new_wiper_simulator cycle now)"

definition sim_step :: "wiper_simulator \<Rightarrow> wiper_simulator \<Rightarrow> bool" where
  "sim_step s t = ((\<exists>now sp cu. t = model_step now sp cu s) \<or> (\<exists>now req. t = model_set now req s))"

definition sim_inv :: "wiper_simulator \<Rightarrow> bool" where
  "sim_inv s \<longleftrightarrow> (sim_cylce_ending s \<longrightarrow> sim_wiping s \<and> sim_pos_step s = f32_of_int 0) \<and>
    0 \<le> sim_cycle_ending_count s \<and> sim_cycle_ending_count s \<le> 2 \<and>
    sequenceCounter (sim_event s) = ucast (model_counter s) \<and>
    isWiperError (data (sim_event s)) = 0 \<and> isBlocked (data (sim_event s)) = 0 \<and>
    isOverheated (data (sim_event s)) = 0 \<and> isOverVoltage (data (sim_event s)) = 0 \<and>
    isUnderVoltage (data (sim_event s)) = 0"

lemma low_byte: "ucast (and w 0xFF :: u32) = (ucast w :: u8)"
proof -
  have m: "(0xFF :: u32) = mask 8" by (simp add: mask_eq_exp_minus_1)
  show ?thesis unfolding m by (rule bit_word_eqI) (auto simp: bit_simps)
qed

lemma sim_move_inv:
  assumes "sim_move d sp s = (s', np, r)" and "sim_wiping s"
    and "sim_cylce_ending s \<longrightarrow> sim_pos_step s = f32_of_int 0"
    and "0 \<le> sim_cycle_ending_count s \<and> sim_cycle_ending_count s \<le> 2"
  shows "(sim_cylce_ending s' \<longrightarrow> sim_wiping s' \<and> sim_pos_step s' = f32_of_int 0) \<and>
    0 \<le> sim_cycle_ending_count s' \<and> sim_cycle_ending_count s' \<le> 2 \<and>
    sim_event s' = sim_event s \<and> model_counter s' = model_counter s"
  using assms by (auto simp: sim_move_def Let_def split: if_splits)

interpretation si: invariant_system sim_init sim_step sim_inv
proof
  fix s assume "sim_init s"
  then show "sim_inv s"
    by (auto simp: sim_init_def sim_inv_def new_wiper_simulator_def model_init_def byte_of_bool_def)
next
  fix s t assume i: "sim_inv s" and st: "sim_step s t"
  have "sim_inv (model_step now sp cu s)" for now sp cu
  proof (cases "sim_wiping s")
    case True
    obtain s' np r where m: "sim_move (now - sim_ts s) sp (s\<lparr>model_counter := model_counter s + 1\<rparr>) = (s', np, r)"
      by (metis prod_cases3)
    from sim_move_inv [OF m] i True show ?thesis
      using m by (simp add: sim_inv_def model_step_def Let_def low_byte)
  next
    case False
    with i show ?thesis by (simp add: sim_inv_def model_step_def Let_def low_byte)
  qed
  moreover have "sim_inv (model_set now req s)" for now req
    using i by (simp add: sim_inv_def model_set_def Let_def)
  ultimately show "sim_inv t" using st by (auto simp: sim_step_def)
qed

text \<open>A wiper at 0 that is to wipe to 60 and has no speed.\<close>

definition still_wiping :: wiper_simulator where
  "still_wiping = (new_wiper_simulator 100 0)\<lparr>sim_wiping := True, sim_target_pos := 0x42700000\<rparr>"

section \<open>Properties\<close>

text \<open>
  C27. A wipe ends at its target: after a request to wipe at a frequency of at least one to a
  position between 0 and 180, made while the wiper is at a position between -1 and 181, and with
  at least a millisecond between steps, there is a step, at most the 60525th, from which on the
  wiper is reported as stopped with its position reached and equal to the target. Every earlier
  step reports a wiping wiper that has not reached its position, and exactly the two before it an
  ending wipe cycle. This accounts for every rounding of the position.
\<close>

theorem wipe_reaches_target:
  assumes "Mode req = WIPE" and "Frequency req \<noteq> 0" and "good_target (TargetPosition req)"
    and "f32_fin (sim_pos s)" and "- 1 \<le> f32_val (sim_pos s)" and "f32_val (sim_pos s) \<le> 181"
    and "\<And>n. 1 \<le> d n \<and> d n < 2 ^ 63" and "\<And>n. good_speed (sp n)"
  shows "\<exists>n \<le> 60525. 3 \<le> n \<and>
    (\<forall>k\<in>{1..<n}. flags (sim_run d sp cu k (model_set now req s)) = (True, n \<le> k + 2, False)) \<and>
    (\<forall>k. flags (sim_run d sp cu (n + k) (model_set now req s)) = (False, False, True) \<and>
      f32_val (sim_pos (sim_run d sp cu (n + k) (model_set now req s))) = f32_val (TargetPosition req))"
proof -
  have t: "sim_target_pos (model_set now req s) = TargetPosition req" by (simp add: model_set_def Let_def)
  obtain \<sigma> g where "\<sigma> = 1 \<or> \<sigma> = - 1" "moving \<sigma> g (model_set now req s)"
    "\<sigma> * f32_val (TargetPosition req) * 2 ^ 16 \<le> real_of_int g + 11862017"
    using model_set_moving [OF assms(1-6)] by blast
  then obtain n where n: "n \<le> 60525" "3 \<le> n"
    "\<forall>k\<in>{1..<n}. flags (sim_run d sp cu k (model_set now req s)) = (True, n \<le> k + 2, False)"
    "flags (sim_run d sp cu n (model_set now req s)) = (False, False, True)"
    "stopped (sim_run d sp cu n (model_set now req s))"
    "sim_target_pos (sim_run d sp cu n (model_set now req s)) = TargetPosition req"
    using wipe_run [of \<sigma> g "model_set now req s" d sp cu] assms(3,7,8) t by auto
  have "flags (sim_run d sp cu (n + k) (model_set now req s)) = (False, False, True) \<and>
      f32_val (sim_pos (sim_run d sp cu (n + k) (model_set now req s))) = f32_val (TargetPosition req)" for k
    using stopped_run [OF n(5,4), of k] n(6) by (simp add: stopped_def)
  with n show ?thesis by blast
qed

theorem wipe_reaches_target_witness:
  "\<exists>n \<le> 60525. 3 \<le> n \<and> (\<forall>k.
    f32_val (sim_pos (sim_run (\<lambda>_. 10) (\<lambda>_. f32_of_int 0) (\<lambda>_. f32_of_int 0) (n + k)
      (model_set 0 \<lparr>Frequency = 40, TargetPosition = f32_of_int 60, Mode = WIPE\<rparr> (new_wiper_simulator 100 0)))) = 60)"
proof -
  let ?r = "\<lparr>Frequency = 40, TargetPosition = f32_of_int 60, Mode = WIPE\<rparr>" and ?s = "new_wiper_simulator 100 0"
  have "Mode ?r = WIPE" "Frequency ?r \<noteq> 0" "good_target (TargetPosition ?r)"
    "f32_fin (sim_pos ?s)" "- 1 \<le> f32_val (sim_pos ?s)" "f32_val (sim_pos ?s) \<le> 181"
    "\<And>n::nat. 1 \<le> (10::int) \<and> 10 < (2::int) ^ 63" "\<And>n::nat. good_speed (f32_of_int 0)"
    by (simp_all add: good_target_def good_speed_def new_wiper_simulator_def model_init_def)
  from wipe_reaches_target [OF this, of "\<lambda>_. f32_of_int 0" 0] show ?thesis by auto
qed

text \<open>
  C33. Sanity checks of the simulation: whatever the request, the clock and the random numbers, a
  wiper that is reported as wiping has a position between -1 and 181, or one that is not a number.
\<close>

theorem sim_position_bounds:
  assumes "sim_wiping (model_step now sp cu s)"
  shows "f32_decode (sim_pos (model_step now sp cu s)) = NaN \<or>
    (f32_fin (sim_pos (model_step now sp cu s)) \<and> - 1 \<le> f32_val (sim_pos (model_step now sp cu s)) \<and>
     f32_val (sim_pos (model_step now sp cu s)) \<le> 181)"
proof -
  have w: "sim_wiping s" using assms by (auto simp: model_step_def Let_def split: if_splits prod.splits)
  obtain s' np r where m: "sim_move (now - sim_ts s) sp (s\<lparr>model_counter := model_counter s + 1\<rparr>) = (s', np, r)"
    by (metis prod_cases3)
  note step = model_step_wiping [OF w m, of cu, simplified]
  have w': "sim_wiping s'" using assms step(2) by simp
  have "wf_fl np" using sim_move_wf [OF m] .
  from sim_check_range [OF w' this] show ?thesis
    unfolding step(1) using to_f32_between [of "sim_check s' np"] to_f32_NaN by auto
qed

theorem sim_position_bounds_witness:
  "f32_fin (sim_pos (model_step 10 0 0 still_wiping)) \<and> - 1 \<le> f32_val (sim_pos (model_step 10 0 0 still_wiping)) \<and>
   f32_val (sim_pos (model_step 10 0 0 still_wiping)) \<le> 181"
proof -
  have "sim_wiping (model_step 10 0 0 still_wiping)" and "f32_decode (sim_pos (model_step 10 0 0 still_wiping)) \<noteq> NaN"
    by code_simp+
  with sim_position_bounds [of 10 0 0 still_wiping] show ?thesis by blast
qed

text \<open>
  Invariant of the simulation, in every state that any sequence of steps and requests can
  reach: a wipe cycle is ending only while the wiper is wiping and its step is zero, at most two
  ending events have been counted, the sequence counter of the event is the low byte of the
  number of steps, and the event never reports an error, a block, overheating or a wrong voltage.
\<close>

theorem sim_flags_invariant:
  assumes "reach sim_init sim_step s"
  shows "(sim_cylce_ending s \<longrightarrow> sim_wiping s \<and> sim_pos_step s = f32_of_int 0) \<and>
    0 \<le> sim_cycle_ending_count s \<and> sim_cycle_ending_count s \<le> 2 \<and>
    sequenceCounter (sim_event s) = ucast (model_counter s) \<and>
    isWiperError (data (sim_event s)) = 0 \<and> isBlocked (data (sim_event s)) = 0 \<and>
    isOverheated (data (sim_event s)) = 0 \<and> isOverVoltage (data (sim_event s)) = 0 \<and>
    isUnderVoltage (data (sim_event s)) = 0"
  using si.reach_inv [OF assms] by (simp add: sim_inv_def)

theorem sim_flags_invariant_witness:
  "sequenceCounter (sim_event (model_step 10 0 0 (new_wiper_simulator 100 0))) = 1"
proof -
  have "reach sim_init sim_step (model_step 10 0 0 (new_wiper_simulator 100 0))"
    by (rule reach_step [OF reach_init [of sim_init]]) (auto simp: sim_init_def sim_step_def)
  from sim_flags_invariant [OF this] show ?thesis
    by (simp add: model_step_def new_wiper_simulator_def model_init_def Let_def)
qed

text \<open>
  A request that is not a wipe makes the wiper jump: the next step reports, with
  no current and as reached, the position of the request, wherever the wiper was before. This
  holds for an emergency stop too.
\<close>

theorem stop_request_jumps:
  assumes "Mode req \<noteq> WIPE"
  shows "sim_pos (model_step now' sp cu (model_set now req s)) = TargetPosition req \<and>
    flags (model_step now' sp cu (model_set now req s)) = (False, False, True) \<and>
    DriveCurrent (data (sim_event (model_step now' sp cu (model_set now req s)))) = f32_of_int 0"
  using assms by (simp add: model_step_def model_set_def flags_def byte_of_bool_def Let_def)

theorem stop_request_jumps_witness:
  "sim_pos (model_step 1 0 0 (model_set 0 \<lparr>Frequency = 70, TargetPosition = f32_of_int 2, Mode = EMERGENCY_STOP\<rparr>
      (new_wiper_simulator 100 0))) = f32_of_int 2 \<and> sim_pos (new_wiper_simulator 100 0) = f32_of_int 15"
  using stop_request_jumps [of "\<lparr>Frequency = 70, TargetPosition = f32_of_int 2, Mode = EMERGENCY_STOP\<rparr>" 1 0 0 0
      "new_wiper_simulator 100 0"]
  by (simp add: new_wiper_simulator_def model_init_def)

end
