(* ===== verification/Wiper_Service.thy ===== *)
theory Wiper_Service
  imports Wiper_Sim Someip_Client "HOL-Library.Sublist"
begin

text \<open>
  The wiper service \<^verbatim>\<open>examples/wiper_service/wiper_server.cc\<close>: the class
  \<open>wiper_service\<close> with its two threads, the handler of requests, \<open>stop\<close> and the program's
  \<open>main\<close>.

  The state holds the members, the calls made into vsomeip (\<open>sv_calls\<close>), the locals of the
  threads and a program counter for each of the offer thread (\<open>run\<close>), the notify thread
  (\<open>notify_th\<close>) and the call of \<open>stop\<close>. \<open>service_act\<close> performs one atomic part of one of
  them, or is \<open>None\<close> if that part cannot run: a thread that waits for a mutex, a notification
  or the end of another thread. Testing the condition of a wait and starting to wait are two
  parts, because \<open>stop\<close> writes \<open>running_\<close> and \<open>blocked_\<close> without a mutex. \<open>stop\<close> runs in
  a thread of its own; a signal handler that runs it inside one of the program's threads, which
  may then join itself or wait for a mutex it holds, is not modelled. The notify
  thread holds \<open>notify_mutex_\<close> through its whole inner loop, sleeps included. The clock and
  the random numbers of the simulation are arguments of the actions. The events the model
  produced are kept in \<open>sv_events\<close>, a history variable.
\<close>

section \<open>State\<close>

datatype run_pc = R_start | R_test | R_before_wait | R_waiting | R_loop | R_offer | R_sim | R_sleep nat | R_done

datatype notify_pc =
    N_start | N_lock | N_test | N_before_wait | N_waiting | N_woken | N_inner
  | N_ending | N_step | N_after | N_done

datatype stop_pc =
    S_idle | S_running | S_blocked | S_notify_run | S_notify_notify | S_clear | S_stop_offer
  | S_join_offer | S_join_notify | S_app_stop | S_done

record wiper_service =
  sv_registered :: bool
  sv_use_tcp :: bool
  sv_cycle :: u32
  sv_blocked :: bool
  sv_running :: bool
  sv_offered :: bool
  sv_payload :: "bytes option"
  sv_sim :: wiper_simulator
  sv_sim_auto :: bool
  sv_calls :: "app_call list"
  r_pc :: run_pc
  r_vss_index :: nat
  n_pc :: notify_pc
  n_event :: t_Event
  n_event_ts :: u32
  n_was_ending :: bool
  s_pc :: stop_pc
  sv_init_done :: bool
  sv_events :: "t_Event list"

definition new_wiper_service :: "bool \<Rightarrow> u32 \<Rightarrow> bool \<Rightarrow> int \<Rightarrow> wiper_service" where
  "new_wiper_service tcp cycle sim_auto now =
     \<lparr>sv_registered = False, sv_use_tcp = tcp, sv_cycle = cycle, sv_blocked = False,
      sv_running = True, sv_offered = False, sv_payload = None,
      sv_sim = new_wiper_simulator cycle now, sv_sim_auto = sim_auto, sv_calls = [],
      r_pc = R_start, r_vss_index = 0, n_pc = N_start, n_event = zero_event, n_event_ts = 0,
      n_was_ending = False, s_pc = S_idle, sv_init_done = False, sv_events = []\<rparr>"

definition sv_do :: "app_call list \<Rightarrow> wiper_service \<Rightarrow> wiper_service" where
  "sv_do cs s = s\<lparr>sv_calls := sv_calls s @ cs\<rparr>"

section \<open>Operations\<close>

definition notify_run :: "wiper_service \<Rightarrow> wiper_service" where
  "notify_run s = (if r_pc s = R_waiting then s\<lparr>r_pc := R_start\<rparr> else s)"

definition notify_notify :: "wiper_service \<Rightarrow> wiper_service" where
  "notify_notify s = (if n_pc s = N_waiting then s\<lparr>n_pc := N_woken\<rparr> else s)"

definition service_init :: "bool \<Rightarrow> wiper_service \<Rightarrow> bool \<times> wiper_service" where
  "service_init app_init_ok s =
     (if \<not> app_init_ok then (False, s)
      else
        let s = sv_do [Register_state_handler,
                  Offer_event WIPER_SERVICE_ID WIPER_INSTANCE_ID WIPER_EVENT_ID [WIPER_EVENTGROUP_ID] ET_FIELD
                    (if sv_use_tcp s then RT_RELIABLE else RT_UNRELIABLE)] s;
            s = s\<lparr>sv_payload := Some []\<rparr>;
            s = sv_do [Register_message_handler_for WIPER_VSS_SERVICE_ID WIPER_VSS_INSTANCE_ID WIPER_VSS_METHOD_ID,
                  Register_availability_handler_for WIPER_VSS_SERVICE_ID WIPER_VSS_INSTANCE_ID] s
        in (True, notify_run (s\<lparr>sv_blocked := True\<rparr>)))"

definition service_app_start :: "wiper_service \<Rightarrow> wiper_service" where
  "service_app_start s = sv_do [App_start] s"

definition on_vss_message_cb :: "int \<Rightarrow> bytes \<Rightarrow> wiper_service \<Rightarrow> wiper_service" where
  "on_vss_message_cb now payload s =
     (let (ok, wiper_request) = deserialize_vss_request payload;
          s = (if ok then s\<lparr>sv_sim := model_set now wiper_request (sv_sim s)\<rparr> else s);
          result = (if ok then 0x00 else 0x01)
      in sv_do [App_send \<lparr>msg_service = WIPER_VSS_SERVICE_ID, msg_instance = WIPER_VSS_INSTANCE_ID,
           msg_method = WIPER_VSS_METHOD_ID, msg_payload = [result]\<rparr>] s)"

definition service_on_state :: "state_type_e \<Rightarrow> wiper_service \<Rightarrow> wiper_service" where
  "service_on_state st s = s\<lparr>sv_registered := (st = ST_REGISTERED)\<rparr>"

definition offer :: "wiper_service \<Rightarrow> wiper_service" where
  "offer s = notify_notify ((sv_do
     [Offer_service WIPER_VSS_SERVICE_ID WIPER_VSS_INSTANCE_ID WIPER_VSS_SERVICE_MAJOR WIPER_VSS_SERVICE_MINOR,
      Offer_service WIPER_SERVICE_ID WIPER_INSTANCE_ID WIPER_SERVICE_MAJOR WIPER_SERVICE_MINOR] s)\<lparr>sv_offered := True\<rparr>)"

definition stop_offer :: "wiper_service \<Rightarrow> wiper_service" where
  "stop_offer s = (sv_do
     [Stop_offer_service WIPER_SERVICE_ID WIPER_INSTANCE_ID WIPER_SERVICE_MAJOR WIPER_SERVICE_MINOR,
      Stop_offer_service WIPER_VSS_SERVICE_ID WIPER_VSS_INSTANCE_ID WIPER_VSS_SERVICE_MAJOR WIPER_VSS_SERVICE_MINOR] s)
     \<lparr>sv_offered := False\<rparr>"

text \<open>The requests \<open>run\<close> plays when the simulation is automatic.\<close>

definition vss_requests :: "t_WiperRequest list" where
  "vss_requests =
     [\<lparr>Frequency = 40, TargetPosition = f32_of_int 80, Mode = WIPE\<rparr>,
      \<lparr>Frequency = 50, TargetPosition = f32_of_int 20, Mode = WIPE\<rparr>,
      \<lparr>Frequency = 30, TargetPosition = f32_of_int 10, Mode = WIPE\<rparr>,
      \<lparr>Frequency = 30, TargetPosition = f32_of_int 2, Mode = WIPE\<rparr>,
      \<lparr>Frequency = 70, TargetPosition = f32_of_int 2, Mode = EMERGENCY_STOP\<rparr>]"

definition next_vss_index :: "nat \<Rightarrow> nat" where
  "next_vss_index i = (let i = i + 1 in if i > 5 then 0 else i)"

text \<open>
  One part of \<open>run\<close>. The offer thread keeps \<open>mutex_\<close> from \<open>R_test\<close> on, except while it
  waits. Reading the array past its end is the error.
\<close>

definition holds_notify_mutex :: "notify_pc \<Rightarrow> bool" where
  "holds_notify_mutex p = (p \<in> {N_test, N_before_wait, N_inner, N_ending, N_step, N_after})"

definition run_act :: "int \<Rightarrow> wiper_service \<Rightarrow> (cpp_error + wiper_service) option" where
  "run_act now s =
     (case r_pc s of
        R_start \<Rightarrow> Some (Inr (s\<lparr>r_pc := R_test\<rparr>))
      | R_test \<Rightarrow> Some (Inr (s\<lparr>r_pc := (if sv_blocked s then R_loop else R_before_wait)\<rparr>))
      | R_before_wait \<Rightarrow> Some (Inr (s\<lparr>r_pc := R_waiting\<rparr>))
      | R_waiting \<Rightarrow> None
      | R_loop \<Rightarrow> Some (Inr (s\<lparr>r_pc := (if sv_running s then R_offer else R_done)\<rparr>))
      | R_offer \<Rightarrow>
          if holds_notify_mutex (n_pc s) then None
          else Some (Inr ((offer s)\<lparr>r_pc := (if sv_sim_auto s then R_sim else R_sleep 0)\<rparr>))
      | R_sim \<Rightarrow>
          if r_vss_index s < length vss_requests
          then Some (Inr (s\<lparr>sv_sim := model_set now (vss_requests ! r_vss_index s) (sv_sim s),
                 r_vss_index := next_vss_index (r_vss_index s), r_pc := R_sleep 0\<rparr>))
          else Some (Inl OOB_read)
      | R_sleep i \<Rightarrow> Some (Inr (s\<lparr>r_pc := (if i < 10 \<and> sv_running s then R_sleep (i + 1) else R_loop)\<rparr>))
      | R_done \<Rightarrow> None)"

definition sim_step_ms :: "u32 \<Rightarrow> u32" where
  "sim_step_ms cycle = (if 500 > cycle then cycle else 500)"

definition notify_event :: "wiper_service \<Rightarrow> wiper_service" where
  "notify_event s =
     (let (ok, its_data) = serialize_wiper_event (n_event s) (replicate WIPER_EVENT_PAYLOAD_SIZE 0)
      in if ok
         then (sv_do [App_notify WIPER_SERVICE_ID WIPER_INSTANCE_ID WIPER_EVENT_ID its_data] s)
                \<lparr>sv_payload := Some its_data\<rparr>
         else s)"

definition notify_act :: "int \<Rightarrow> f32 \<Rightarrow> f32 \<Rightarrow> wiper_service \<Rightarrow> wiper_service option" where
  "notify_act now sp cu s =
     (case n_pc s of
        N_start \<Rightarrow> Some (s\<lparr>n_pc := (if sv_running s then N_lock else N_done)\<rparr>)
      | N_lock \<Rightarrow> Some (s\<lparr>n_pc := N_test\<rparr>)
      | N_test \<Rightarrow> Some (if \<not> sv_offered s \<and> sv_running s then s\<lparr>n_pc := N_before_wait\<rparr>
                        else s\<lparr>n_pc := N_inner, n_event_ts := 0\<rparr>)
      | N_before_wait \<Rightarrow> Some (s\<lparr>n_pc := N_waiting\<rparr>)
      | N_waiting \<Rightarrow> None
      | N_woken \<Rightarrow> Some (s\<lparr>n_pc := N_test\<rparr>)
      | N_inner \<Rightarrow> Some (s\<lparr>n_pc := (if sv_offered s \<and> sv_running s then N_ending else N_start)\<rparr>)
      | N_ending \<Rightarrow> Some (s\<lparr>n_was_ending := is_cycle_ending (sv_sim s), n_pc := N_step\<rparr>)
      | N_step \<Rightarrow>
          let sim = model_step now sp cu (sv_sim s)
          in Some (s\<lparr>sv_sim := sim, n_event := sim_event sim,
               sv_events := sv_events s @ [sim_event sim], n_pc := N_after\<rparr>)
      | N_after \<Rightarrow>
          let s = s\<lparr>n_event_ts := n_event_ts s + sim_step_ms (sv_cycle s)\<rparr>
          in Some (if \<not> sv_offered s \<or> \<not> sv_running s then s\<lparr>n_pc := N_start\<rparr>
             else if n_event_ts s \<ge> sv_cycle s \<or> n_was_ending s \<noteq> is_cycle_ending (sv_sim s)
             then (notify_event (s\<lparr>n_event_ts := 0\<rparr>))\<lparr>n_pc := N_inner\<rparr>
             else s\<lparr>n_pc := N_inner\<rparr>)
      | N_done \<Rightarrow> None)"

definition stop_act :: "wiper_service \<Rightarrow> wiper_service option" where
  "stop_act s =
     (case s_pc s of
        S_idle \<Rightarrow> None
      | S_running \<Rightarrow> Some (s\<lparr>sv_running := False, s_pc := S_blocked\<rparr>)
      | S_blocked \<Rightarrow> Some (s\<lparr>sv_blocked := True, s_pc := S_notify_run\<rparr>)
      | S_notify_run \<Rightarrow> Some ((notify_run s)\<lparr>s_pc := S_notify_notify\<rparr>)
      | S_notify_notify \<Rightarrow> Some ((notify_notify s)\<lparr>s_pc := S_clear\<rparr>)
      | S_clear \<Rightarrow> Some ((sv_do [Clear_all_handler] s)\<lparr>s_pc := S_stop_offer\<rparr>)
      | S_stop_offer \<Rightarrow> Some ((stop_offer s)\<lparr>s_pc := S_join_offer\<rparr>)
      | S_join_offer \<Rightarrow> if r_pc s = R_done then Some (s\<lparr>s_pc := S_join_notify\<rparr>) else None
      | S_join_notify \<Rightarrow> if n_pc s = N_done then Some (s\<lparr>s_pc := S_app_stop\<rparr>) else None
      | S_app_stop \<Rightarrow> Some ((sv_do [App_stop] s)\<lparr>s_pc := S_done\<rparr>)
      | S_done \<Rightarrow> None)"

text \<open>
  The actions: \<open>main\<close> calls \<open>init\<close> once, which needs \<open>mutex_\<close>, and \<open>start\<close> after it has
  succeeded; a signal, or \<open>main\<close> when \<open>init\<close> has failed, calls \<open>stop\<close>; vsomeip reports states and delivers requests while the
  handlers are registered; a wait may end without a notification.
\<close>

datatype service_action =
    A_run int
  | A_notify int f32 f32
  | A_init bool
  | A_start
  | A_call_stop
  | A_stop
  | A_state state_type_e
  | A_message int bytes
  | A_spurious_run
  | A_spurious_notify

definition holds_mutex :: "run_pc \<Rightarrow> bool" where
  "holds_mutex p = (p \<notin> {R_start, R_waiting, R_done})"

definition handlers_registered :: "wiper_service \<Rightarrow> bool" where
  "handlers_registered s = (Register_state_handler \<in> set (sv_calls s) \<and> Clear_all_handler \<notin> set (sv_calls s))"

definition may_start :: "wiper_service \<Rightarrow> bool" where
  "may_start s = (Register_state_handler \<in> set (sv_calls s) \<and> App_start \<notin> set (sv_calls s))"

definition service_act :: "service_action \<Rightarrow> wiper_service \<Rightarrow> (cpp_error + wiper_service) option" where
  "service_act a s =
     (case a of
        A_run now \<Rightarrow> run_act now s
      | A_notify now sp cu \<Rightarrow> map_option Inr (notify_act now sp cu s)
      | A_init ok \<Rightarrow> if sv_init_done s \<or> holds_mutex (r_pc s) then None
          else Some (Inr (snd (service_init ok (s\<lparr>sv_init_done := True\<rparr>))))
      | A_start \<Rightarrow> if may_start s then Some (Inr (service_app_start s)) else None
      | A_call_stop \<Rightarrow> if s_pc s = S_idle then Some (Inr (s\<lparr>s_pc := S_running\<rparr>)) else None
      | A_stop \<Rightarrow> map_option Inr (stop_act s)
      | A_state st \<Rightarrow> if handlers_registered s then Some (Inr (service_on_state st s)) else None
      | A_message now payload \<Rightarrow> if handlers_registered s then Some (Inr (on_vss_message_cb now payload s)) else None
      | A_spurious_run \<Rightarrow> if r_pc s = R_waiting then Some (Inr (s\<lparr>r_pc := R_start\<rparr>)) else None
      | A_spurious_notify \<Rightarrow> if n_pc s = N_waiting then Some (Inr (s\<lparr>n_pc := N_woken\<rparr>)) else None)"

fun service_acts :: "service_action list \<Rightarrow> wiper_service \<Rightarrow> (cpp_error + wiper_service) option" where
  "service_acts [] s = Some (Inr s)"
| "service_acts (a # as) s =
     (case service_act a s of
        Some (Inr t) \<Rightarrow> service_acts as t
      | r \<Rightarrow> r)"

definition service_start :: "wiper_service \<Rightarrow> bool" where
  "service_start s = (\<exists>tcp cycle sim_auto now. s = new_wiper_service tcp cycle sim_auto now)"

definition service_step :: "wiper_service \<Rightarrow> wiper_service \<Rightarrow> bool" where
  "service_step s t = (\<exists>a. service_act a s = Some (Inr t))"

lemma service_acts_reach:
  "service_acts as s = Some (Inr t) \<Longrightarrow> reach service_start service_step s \<Longrightarrow> reach service_start service_step t"
proof (induction as arbitrary: s)
  case (Cons a as)
  from Cons.prems(1) obtain u where u: "service_act a s = Some (Inr u)" "service_acts as u = Some (Inr t)"
    by (auto split: option.splits sum.splits)
  then have "service_step s u" by (auto simp: service_step_def)
  with Cons.IH [OF u(2)] Cons.prems(2) show ?case by (blast intro: reach_step)
qed simp

section \<open>Invariant\<close>

text \<open>The payloads notified, in order.\<close>

fun notified :: "app_call list \<Rightarrow> bytes list" where
  "notified [] = []"
| "notified (App_notify sv ins ev p # cs) = p # notified cs"
| "notified (_ # cs) = notified cs"

lemma notified_append: "notified (xs @ ys) = notified xs @ notified ys"
  by (induction xs rule: notified.induct) auto

definition offers :: "wiper_service \<Rightarrow> nat" where
  "offers s = count_list (sv_calls s) (Offer_service WIPER_SERVICE_ID WIPER_INSTANCE_ID WIPER_SERVICE_MAJOR WIPER_SERVICE_MINOR)"

definition images :: "wiper_service \<Rightarrow> bytes list" where
  "images s = map event_image (sv_events s)"

definition service_inv :: "wiper_service \<Rightarrow> bool" where
  "service_inv s \<longleftrightarrow>
     subseq (notified (sv_calls s)) (if n_pc s = N_after then butlast (images s) else images s) \<and>
     (n_pc s = N_after \<longrightarrow> sv_events s \<noteq> [] \<and> n_event s = last (sv_events s)) \<and>
     (0 < sv_cycle s \<and> n_pc s \<in> {N_inner, N_ending, N_step, N_after} \<longrightarrow> n_event_ts s < sv_cycle s) \<and>
     (s_pc s \<in> {S_idle, S_running} \<longleftrightarrow> sv_running s) \<and>
     r_vss_index s \<le> 5"

lemma notify_event_eq:
  "notify_event s = s\<lparr>sv_calls := sv_calls s @ [App_notify WIPER_SERVICE_ID WIPER_INSTANCE_ID WIPER_EVENT_ID (event_image (n_event s))],
     sv_payload := Some (event_image (n_event s))\<rparr>"
  by (simp add: notify_event_def serialize_wiper_event_image sv_do_def)

lemmas service_ops = sv_do_def notify_run_def notify_notify_def offer_def stop_offer_def

lemma inv_frame:
  assumes "service_inv s" and "notified (sv_calls t) = notified (sv_calls s)" and "sv_events t = sv_events s"
    and "n_event t = n_event s" and "n_event_ts t = n_event_ts s" and "sv_cycle t = sv_cycle s"
    and "s_pc t \<in> {S_idle, S_running} \<longleftrightarrow> sv_running t" and "r_vss_index t \<le> 5"
    and "n_pc t = n_pc s \<or> n_pc s = N_waiting \<and> n_pc t = N_woken"
  shows "service_inv t"
  using assms(1,7-9) unfolding service_inv_def images_def assms(2-6)
  by (elim disjE conjE; simp)

lemma offer_frame:
  "notified (sv_calls (offer s)) = notified (sv_calls s)" "sv_events (offer s) = sv_events s"
  "n_event (offer s) = n_event s" "n_event_ts (offer s) = n_event_ts s" "sv_cycle (offer s) = sv_cycle s"
  "s_pc (offer s) = s_pc s" "sv_running (offer s) = sv_running s" "r_vss_index (offer s) = r_vss_index s"
  "n_pc (offer s) = (if n_pc s = N_waiting then N_woken else n_pc s)"
  by (simp_all add: offer_def sv_do_def notify_notify_def notified_append)

lemma service_inv_simps:
  "service_inv s \<Longrightarrow> (s_pc s \<in> {S_idle, S_running} \<longleftrightarrow> sv_running s) \<and> r_vss_index s \<le> 5"
  by (simp add: service_inv_def)

lemma run_act_inv:
  assumes "service_inv s" "run_act now s = Some (Inr t)"
  shows "service_inv t"
proof -
  note h = service_inv_simps [OF assms(1)]
  show ?thesis
  proof (cases "r_pc s")
    case R_offer
    with assms(2) h show ?thesis
      by (intro inv_frame [OF assms(1)]) (auto simp: run_act_def offer_frame split: if_splits)
  next
    case R_sim
    then have "t = s\<lparr>sv_sim := model_set now (vss_requests ! r_vss_index s) (sv_sim s),
        r_vss_index := next_vss_index (r_vss_index s), r_pc := R_sleep 0\<rparr>"
      using assms(2) by (simp add: run_act_def split: if_splits)
    with h show ?thesis
      by (intro inv_frame [OF assms(1)]) (simp_all add: next_vss_index_def Let_def)
  qed (use assms(2) h in \<open>auto simp: run_act_def intro!: inv_frame [OF assms(1)]\<close>)
qed

lemma subseq_butlast_last: "xs \<noteq> [] \<Longrightarrow> subseq ys (butlast xs) \<Longrightarrow> subseq (ys @ [last xs]) xs"
  by (metis append_butlast_last_id list_emb_append_mono subseq_order.order_refl)

lemma subseq_butlast: "subseq ys (butlast xs) \<Longrightarrow> subseq ys xs"
  using list_emb_prefix [of "(=)" ys "butlast xs" "[last xs]"] by (cases "xs = []") simp_all

lemma notify_act_inv: "service_inv s \<Longrightarrow> notify_act now sp cu s = Some t \<Longrightarrow> service_inv t"
proof (cases "n_pc s = N_after")
  case True
  assume i: "service_inv s" and t: "notify_act now sp cu s = Some t"
  have ne: "sv_events s \<noteq> []" and ev: "n_event s = last (sv_events s)"
    and sub: "subseq (notified (sv_calls s)) (butlast (images s))" and rest: "s_pc s \<in> {S_idle, S_running} \<longleftrightarrow> sv_running s" "r_vss_index s \<le> 5"
    using i True by (auto simp: service_inv_def)
  have "subseq (notified (sv_calls s) @ [event_image (n_event s)]) (images s)"
    using subseq_butlast_last [of "images s"] sub ne ev by (simp add: images_def last_map)
  moreover have "subseq (notified (sv_calls s)) (images s)" using sub by (rule subseq_butlast)
  ultimately show ?thesis
    using True t rest
    by (auto simp: service_inv_def notify_act_def Let_def notify_event_eq notified_append images_def word_gt_0 not_le
        split: if_splits)
next
  case False
  assume i: "service_inv s" and t: "notify_act now sp cu s = Some t"
  with False show ?thesis
    by (cases "n_pc s") (auto simp: service_inv_def notify_act_def Let_def images_def word_gt_0 split: if_splits)
qed

lemma stop_act_inv:
  assumes "service_inv s" "stop_act s = Some t"
  shows "service_inv t"
proof -
  note h = service_inv_simps [OF assms(1)]
  show ?thesis
    using assms(2) h
    by (cases "s_pc s") (auto simp: stop_act_def service_ops notified_append intro!: inv_frame [OF assms(1)] split: if_splits)
qed

lemma message_inv:
  assumes "service_inv s"
  shows "service_inv (on_vss_message_cb now p s)"
proof -
  note h = service_inv_simps [OF assms(1)]
  obtain ok r where d: "deserialize_vss_request p = (ok, r)" by fastforce
  show ?thesis
    using h by (intro inv_frame [OF assms(1)]) (simp_all add: on_vss_message_cb_def d sv_do_def notified_append Let_def)
qed

lemma service_init_inv:
  assumes "service_inv s"
  shows "service_inv (snd (service_init ok (s\<lparr>sv_init_done := True\<rparr>)))"
proof -
  note h = service_inv_simps [OF assms(1)]
  show ?thesis
    using h by (intro inv_frame [OF assms(1)])
      (simp_all add: service_init_def sv_do_def notify_run_def notified_append Let_def)
qed

interpretation sv: invariant_system service_start service_step service_inv
proof
  fix s assume "service_start s"
  then show "service_inv s"
    by (auto simp: service_start_def service_inv_def new_wiper_service_def images_def)
next
  fix s t assume i: "service_inv s" and "service_step s t"
  then obtain a where a: "service_act a s = Some (Inr t)" by (auto simp: service_step_def)
  note h = service_inv_simps [OF i]
  show "service_inv t"
  proof (cases a)
    case (A_run now)
    then show ?thesis using a run_act_inv [OF i] by (simp add: service_act_def)
  next
    case (A_notify now sp cu)
    then show ?thesis using a notify_act_inv [OF i] by (auto simp: service_act_def)
  next
    case A_stop
    then show ?thesis using a stop_act_inv [OF i] by (auto simp: service_act_def)
  next
    case (A_message now p)
    then show ?thesis using a message_inv [OF i] by (auto simp: service_act_def split: if_splits)
  next
    case (A_init ok)
    then show ?thesis using a service_init_inv [OF i] by (auto simp: service_act_def split: if_splits)
  qed (use a h in \<open>auto simp: service_act_def service_on_state_def service_app_start_def sv_do_def notified_append
    split: if_splits intro!: inv_frame [OF i]\<close>)
qed

section \<open>Starvation of the offer thread\<close>

definition notifying :: "wiper_service \<Rightarrow> bool" where
  "notifying s \<longleftrightarrow> n_pc s \<in> {N_inner, N_ending, N_step, N_after} \<and> sv_running s \<and> sv_offered s \<and> s_pc s = S_idle"

lemma idle_back:
  assumes "service_act a s = Some (Inr t)" and "s_pc t = S_idle"
  shows "s_pc s = S_idle"
proof (cases a)
  case A_stop
  then show ?thesis
    using assms by (cases "s_pc s") (auto simp: service_act_def stop_act_def split: if_splits)
qed (use assms in \<open>auto simp: service_act_def run_act_def notify_act_def notify_event_eq service_init_def
    on_vss_message_cb_def service_on_state_def service_app_start_def service_ops Let_def
    split: run_pc.splits notify_pc.splits if_splits prod.splits\<close>)

lemma count_list_append_other: "x \<notin> set ys \<Longrightarrow> count_list (xs @ ys) x = count_list xs x"
  by (simp add: count_notin)

lemma notifying_step:
  assumes "notifying s" and a: "service_act a s = Some (Inr t)" and "s_pc t = S_idle"
  shows "notifying t \<and> offers t = offers s"
proof (cases a)
  case (A_run now)
  then show ?thesis
    using assms by (cases "r_pc s") (auto simp: service_act_def run_act_def notifying_def offers_def
        holds_notify_mutex_def split: if_splits)
next
  case (A_notify now sp cu)
  then show ?thesis
    using assms by (cases "n_pc s") (auto simp: service_act_def notify_act_def notifying_def offers_def
        notify_event_eq Let_def split: if_splits)
next
  case A_stop
  then show ?thesis using assms by (auto simp: service_act_def notifying_def stop_act_def)
next
  case (A_message now p)
  then show ?thesis
    using assms by (auto simp: service_act_def on_vss_message_cb_def sv_do_def notifying_def offers_def Let_def
        split: if_splits prod.splits)
next
  case (A_init ok)
  then show ?thesis
    using assms by (auto simp: service_act_def service_init_def service_ops notifying_def offers_def Let_def
        split: if_splits)
qed (use assms in \<open>auto simp: service_act_def service_on_state_def service_app_start_def sv_do_def notifying_def offers_def
    split: if_splits\<close>)

lemma notifying_steps:
  "service_step\<^sup>*\<^sup>* s t \<Longrightarrow> notifying s \<Longrightarrow> s_pc t = S_idle \<Longrightarrow> notifying t \<and> offers t = offers s"
proof (induction rule: rtranclp_induct)
  case (step t u)
  then obtain a where a: "service_act a t = Some (Inr u)" by (auto simp: service_step_def)
  have "s_pc t = S_idle" using idle_back [OF a] step.prems(2) .
  with step notifying_step [OF _ a] show ?case by simp
qed simp

section \<open>Stopping\<close>

text \<open>
  \<open>stop\<close> has cleared the flags and sent its notifications, and neither thread is about to wait.
\<close>

fun run_waits :: "run_pc \<Rightarrow> bool" where
  "run_waits R_before_wait = True" | "run_waits R_waiting = True" | "run_waits R_sim = True" | "run_waits _ = False"

fun notify_waits :: "notify_pc \<Rightarrow> bool" where
  "notify_waits N_before_wait = True" | "notify_waits N_waiting = True" | "notify_waits _ = False"

fun stop_notified :: "stop_pc \<Rightarrow> bool" where
  "stop_notified S_clear = True" | "stop_notified S_stop_offer = True" | "stop_notified S_join_offer = True"
| "stop_notified S_join_notify = True" | "stop_notified S_app_stop = True" | "stop_notified S_done = True"
| "stop_notified _ = False"

fun joined_run :: "stop_pc \<Rightarrow> bool" where
  "joined_run S_join_notify = True" | "joined_run S_app_stop = True" | "joined_run S_done = True" | "joined_run _ = False"

fun joined_notify :: "stop_pc \<Rightarrow> bool" where
  "joined_notify S_app_stop = True" | "joined_notify S_done = True" | "joined_notify _ = False"

definition stopping :: "wiper_service \<Rightarrow> bool" where
  "stopping s \<longleftrightarrow> \<not> sv_running s \<and> sv_blocked s \<and> \<not> sv_sim_auto s \<and> stop_notified (s_pc s) \<and>
     \<not> notify_waits (n_pc s) \<and> \<not> run_waits (r_pc s) \<and>
     (joined_run (s_pc s) \<longrightarrow> r_pc s = R_done) \<and> (joined_notify (s_pc s) \<longrightarrow> n_pc s = N_done)"

fun r_rank :: "run_pc \<Rightarrow> nat" where
  "r_rank R_start = 6" | "r_rank R_test = 5" | "r_rank R_offer = 4" | "r_rank R_sim = 3"
| "r_rank (R_sleep i) = 2" | "r_rank R_loop = 1" | "r_rank _ = 0"

fun n_rank :: "notify_pc \<Rightarrow> nat" where
  "n_rank N_lock = 7" | "n_rank N_woken = 7" | "n_rank N_test = 6" | "n_rank N_inner = 5"
| "n_rank N_ending = 4" | "n_rank N_step = 3" | "n_rank N_after = 2" | "n_rank N_start = 1" | "n_rank _ = 0"

fun s_rank :: "stop_pc \<Rightarrow> nat" where
  "s_rank S_clear = 5" | "s_rank S_stop_offer = 4" | "s_rank S_join_offer = 3" | "s_rank S_join_notify = 2"
| "s_rank S_app_stop = 1" | "s_rank _ = 0"

definition stop_rank :: "wiper_service \<Rightarrow> nat" where
  "stop_rank s = r_rank (r_pc s) + n_rank (n_pc s) + s_rank (s_pc s)"

definition thread_step :: "wiper_service \<Rightarrow> wiper_service \<Rightarrow> bool" where
  "thread_step s t = (\<exists>a. (case a of A_run now \<Rightarrow> True | A_notify now sp cu \<Rightarrow> True | A_stop \<Rightarrow> True | _ \<Rightarrow> False) \<and>
     service_act a s = Some (Inr t))"

lemma offer_no_waiter:
  "\<not> notify_waits (n_pc s) \<Longrightarrow> n_pc (offer s) = n_pc s"
  "sv_blocked (offer s) = sv_blocked s" "sv_sim_auto (offer s) = sv_sim_auto s"
  by (auto simp: offer_def sv_do_def notify_notify_def)

lemma run_act_stopping:
  assumes "stopping s" "run_act now s = Some (Inr t)"
  shows "stopping t \<and> stop_rank t < stop_rank s"
  using assms
  by (cases "r_pc s") (simp_all add: run_act_def stopping_def stop_rank_def split: if_splits,
    auto simp: offer_frame offer_no_waiter split: if_splits)

lemma notify_act_stopping:
  assumes "stopping s" "notify_act now sp cu s = Some t"
  shows "stopping t \<and> stop_rank t < stop_rank s"
  using assms
  by (cases "n_pc s") (simp_all add: notify_act_def stopping_def stop_rank_def Let_def split: if_splits, auto)

lemma stop_act_stopping:
  assumes "stopping s" "stop_act s = Some t"
  shows "stopping t \<and> stop_rank t < stop_rank s"
  using assms
  by (cases "s_pc s") (simp_all add: stop_act_def stopping_def stop_rank_def sv_do_def stop_offer_def split: if_splits, auto)

lemma thread_step_stopping:
  assumes s: "stopping s" and "thread_step s t"
  shows "stopping t \<and> stop_rank t < stop_rank s"
proof -
  obtain a where c: "case a of A_run now \<Rightarrow> True | A_notify now sp cu \<Rightarrow> True | A_stop \<Rightarrow> True | _ \<Rightarrow> False"
    and a: "service_act a s = Some (Inr t)"
    using assms(2) unfolding thread_step_def by blast
  show ?thesis
  proof (cases a)
    case (A_run now)
    then show ?thesis using a run_act_stopping [OF s] by (simp add: service_act_def)
  next
    case (A_notify now sp cu)
    then show ?thesis using a notify_act_stopping [OF s] by (auto simp: service_act_def)
  next
    case A_stop
    then show ?thesis using a stop_act_stopping [OF s] by (auto simp: service_act_def)
  qed (use c in simp_all)
qed

lemma notify_act_enabled: "holds_notify_mutex (n_pc s) \<or> n_pc s \<in> {N_start, N_lock, N_woken} \<Longrightarrow> \<exists>t. notify_act 0 0 0 s = Some t"
  by (auto simp: notify_act_def holds_notify_mutex_def Let_def split: notify_pc.splits)

lemma stopping_enabled:
  assumes "stopping s" and "s_pc s \<noteq> S_done"
  shows "\<exists>t. thread_step s t"
proof -
  have act: "\<exists>t. thread_step s t" if "stop_act s = Some t \<or> run_act 0 s = Some (Inr t) \<or> notify_act 0 0 0 s = Some t" for t
    using that unfolding thread_step_def
    by (elim disjE; intro exI [of _ t])
      (rule exI [of _ A_stop] exI [of _ "A_run 0"] exI [of _ "A_notify 0 0 0"], simp add: service_act_def; fail)+
  show ?thesis
  proof (cases "r_pc s = R_offer \<and> holds_notify_mutex (n_pc s) \<or> (s_pc s = S_join_notify \<and> n_pc s \<noteq> N_done)")
    case True
    then have "holds_notify_mutex (n_pc s) \<or> n_pc s \<in> {N_start, N_lock, N_woken}"
      using assms(1) by (cases "n_pc s") (auto simp: stopping_def holds_notify_mutex_def)
    then show ?thesis using notify_act_enabled act by blast
  next
    case False
    then have "(\<exists>t. stop_act s = Some t) \<or> (\<exists>t. run_act 0 s = Some (Inr t))"
      using assms by (cases "s_pc s"; cases "r_pc s") (auto simp: stopping_def stop_act_def run_act_def)
    then show ?thesis using act by blast
  qed
qed

interpretation ss: terminating_system thread_step stopping "\<lambda>s. s_pc s = S_done" stop_rank less_than
  by unfold_locales (use thread_step_stopping stopping_enabled in auto)

end
