(* ===== verification/Wiper_Server.thy ===== *)
theory Wiper_Server
  imports Wiper_Service
begin

text \<open>
  The program around the wiper service, \<open>main\<close> of
  \<^verbatim>\<open>examples/wiper_service/wiper_server.cc\<close>, and the properties of the service and of its
  threads, proved from the invariant and the rank of \<open>Wiper_Service\<close>. Schedules that show what
  can go wrong are lists of actions, evaluated.
\<close>

section \<open>The program\<close>

record server_options =
  so_tcp :: bool
  so_cycle :: u32
  so_sim_auto :: bool

fun server_args :: "string list \<Rightarrow> server_options \<Rightarrow> server_options" where
  "server_args [] opts = opts"
| "server_args (a # as) opts =
     (if a = ''--tcp'' then opts\<lparr>so_tcp := True\<rparr>
      else if a = ''--udp'' then opts\<lparr>so_tcp := False\<rparr>
      else if a = ''--cycle'' \<and> as \<noteq> [] then server_args (tl as) (opts\<lparr>so_cycle := stream_u32 (so_cycle opts) (hd as)\<rparr>)
      else if a = ''--sim'' then opts\<lparr>so_sim_auto := True\<rparr>
      else server_args as opts)"

text \<open>The exit code, or the service to run.\<close>

definition server_setup :: "env \<Rightarrow> string list \<Rightarrow> int \<Rightarrow> int + wiper_service" where
  "server_setup E args now =
     (if E ''VSOMEIP_APPLICATION_NAME'' = None \<or> E ''VSOMEIP_CONFIGURATION'' = None then Inl 1
      else
        let cycle = (case E ''CYCLE'' of Some c \<Rightarrow> word_of_int (atoi c) | None \<Rightarrow> 100);
            sim_auto = (case E ''SIM_AUTO'' of Some v \<Rightarrow> atoi v \<noteq> 0 | None \<Rightarrow> False);
            opts = server_args args \<lparr>so_tcp = False, so_cycle = cycle, so_sim_auto = sim_auto\<rparr>
        in Inr (new_wiper_service (so_tcp opts) (so_cycle opts) (so_sim_auto opts) now))"

text \<open>
  \<open>main\<close> after the options, up to the return of \<open>start\<close> or the call of \<open>stop\<close>: the exit code,
  the calls it makes of the service as actions, and the service it leaves if its threads have not
  run meanwhile. A signal handler calls \<open>stop\<close>.
\<close>

definition main_actions :: "bool \<Rightarrow> service_action list" where
  "main_actions app_init_ok = A_init app_init_ok # (if app_init_ok then [A_start] else [A_call_stop])"

definition server_main :: "env \<Rightarrow> string list \<Rightarrow> int \<Rightarrow> bool \<Rightarrow> int \<times> wiper_service option" where
  "server_main E args now app_init_ok =
     (case server_setup E args now of
        Inl code \<Rightarrow> (code, None)
      | Inr s \<Rightarrow>
          let (ok, s) = service_init app_init_ok (s\<lparr>sv_init_done := True\<rparr>)
          in if ok then (0, Some (service_app_start s)) else (1, Some (s\<lparr>s_pc := S_running\<rparr>)))"

definition server_handle_signal :: "int \<Rightarrow> service_action list" where
  "server_handle_signal sig = (if sig = 2 \<or> sig = 15 then [A_call_stop] else [])"

section \<open>Schedules\<close>

definition some_service :: "bool \<Rightarrow> wiper_service" where
  "some_service sim_auto = new_wiper_service False 100 sim_auto 0"

lemma some_service_reach: "reach service_start service_step (some_service b)"
  by (rule reach_init) (auto simp: service_start_def some_service_def)

text \<open>
  The offer thread offers, sleeps and reaches its next offer, which waits for the notify thread;
  then \<open>stop\<close> withdraws the offers, the notify thread releases its mutex, and the offer goes on.
\<close>

definition offers_again :: "service_action list" where
  "offers_again =
     A_init True # replicate 4 (A_run 0) @ replicate 3 (A_notify 0 0 0) @ replicate 12 (A_run 0) @
     A_call_stop # replicate 6 A_stop @ [A_notify 0 0 0] @ replicate 3 (A_run 0) @
     [A_stop, A_notify 0 0 0, A_stop, A_stop]"

text \<open>
  \<open>init\<close> fails and \<open>main\<close> calls \<open>stop\<close> while the notify thread is between its test and its
  wait; the notification is lost.
\<close>

definition loses_wakeup :: "service_action list" where
  "loses_wakeup =
     A_init False # replicate 3 (A_run 0) @ replicate 3 (A_notify 0 0 0) @
     A_call_stop # replicate 4 A_stop @ [A_notify 0 0 0] @ replicate 2 A_stop @ replicate 3 (A_run 0) @ [A_stop]"

definition is_spurious :: "service_action \<Rightarrow> bool" where
  "is_spurious a = (a = A_spurious_run \<or> a = A_spurious_notify)"

lemma sim_step_100: "sim_step_ms 100 = 100"
  by (simp add: sim_step_ms_def)

lemma service_ids: "WIPER_VSS_SERVICE_ID \<noteq> WIPER_SERVICE_ID"
  by (simp add: WIPER_VSS_SERVICE_ID_def WIPER_SERVICE_ID_def)

lemmas service_eval = service_act_def run_act_def notify_act_def stop_act_def service_init_def holds_mutex_def
  holds_notify_mutex_def service_ops new_wiper_service_def some_service_def may_start_def service_app_start_def

lemma offers_again_ends:
  "\<exists>s. service_acts offers_again (some_service False) = Some (Inr s) \<and> s_pc s = S_done \<and> sv_offered s \<and>
     sv_calls s = [Register_state_handler,
       Offer_event WIPER_SERVICE_ID WIPER_INSTANCE_ID WIPER_EVENT_ID [WIPER_EVENTGROUP_ID] ET_FIELD RT_UNRELIABLE,
       Register_message_handler_for WIPER_VSS_SERVICE_ID WIPER_VSS_INSTANCE_ID WIPER_VSS_METHOD_ID,
       Register_availability_handler_for WIPER_VSS_SERVICE_ID WIPER_VSS_INSTANCE_ID,
       Offer_service WIPER_VSS_SERVICE_ID WIPER_VSS_INSTANCE_ID WIPER_VSS_SERVICE_MAJOR WIPER_VSS_SERVICE_MINOR,
       Offer_service WIPER_SERVICE_ID WIPER_INSTANCE_ID WIPER_SERVICE_MAJOR WIPER_SERVICE_MINOR,
       Clear_all_handler,
       Stop_offer_service WIPER_SERVICE_ID WIPER_INSTANCE_ID WIPER_SERVICE_MAJOR WIPER_SERVICE_MINOR,
       Stop_offer_service WIPER_VSS_SERVICE_ID WIPER_VSS_INSTANCE_ID WIPER_VSS_SERVICE_MAJOR WIPER_VSS_SERVICE_MINOR,
       Offer_service WIPER_VSS_SERVICE_ID WIPER_VSS_INSTANCE_ID WIPER_VSS_SERVICE_MAJOR WIPER_VSS_SERVICE_MINOR,
       Offer_service WIPER_SERVICE_ID WIPER_INSTANCE_ID WIPER_SERVICE_MAJOR WIPER_SERVICE_MINOR,
       App_stop]"
  by (simp add: offers_again_def service_eval numeral_eq_Suc)

lemma loses_wakeup_ends:
  "\<exists>s. service_acts loses_wakeup (some_service False) = Some (Inr s) \<and> s_pc s = S_join_notify \<and>
     n_pc s = N_waiting \<and> r_pc s = R_done \<and> sv_init_done s \<and> Register_state_handler \<notin> set (sv_calls s)"
  by (simp add: loses_wakeup_def service_eval numeral_eq_Suc)

text \<open>One round of the automatic simulation while the notify thread has not started.\<close>

definition auto_ready :: "nat \<Rightarrow> wiper_service \<Rightarrow> bool" where
  "auto_ready i s \<longleftrightarrow> r_pc s = R_offer \<and> n_pc s = N_start \<and> sv_sim_auto s \<and> sv_running s \<and> r_vss_index s = i"

lemma auto_round:
  assumes "auto_ready i s" "i < 5"
  shows "\<exists>t. service_acts (replicate 14 (A_run 0)) s = Some (Inr t) \<and> auto_ready (Suc i) t"
  using assms
  by (simp add: auto_ready_def service_act_def run_act_def holds_notify_mutex_def service_ops vss_requests_def
      next_vss_index_def numeral_eq_Suc)

lemma service_acts_append:
  "service_acts (xs @ ys) s = (case service_acts xs s of Some (Inr t) \<Rightarrow> service_acts ys t | r \<Rightarrow> r)"
  by (induction xs arbitrary: s) (auto split: option.split sum.split)

lemma auto_rounds:
  "n \<le> 5 \<Longrightarrow> auto_ready 0 s \<Longrightarrow> \<exists>as t. service_acts as s = Some (Inr t) \<and> auto_ready n t"
proof (induction n)
  case 0
  then have "service_acts [] s = Some (Inr s) \<and> auto_ready 0 s" by simp
  then show ?case by blast
next
  case (Suc n)
  then obtain as t where t: "service_acts as s = Some (Inr t)" "auto_ready n t" by auto
  obtain u where u: "service_acts (replicate 14 (A_run 0)) t = Some (Inr u)" "auto_ready (Suc n) u"
    using auto_round [OF t(2)] Suc.prems by auto
  have "service_acts (as @ replicate 14 (A_run 0)) s = Some (Inr u)" by (simp add: service_acts_append t u)
  with u(2) show ?case by blast
qed

text \<open>
  What \<open>main\<close> does is a run of the service from its constructor: one of the schedules the
  properties below are about. It fails, with exit code 1, exactly if the environment lacks one of
  the two variables of vsomeip or the application cannot be initialised; in the latter case \<open>stop\<close>
  is under way, and no handler has been registered.
\<close>

lemma server_setup_starts: "server_setup E args now = Inr s \<Longrightarrow> service_start s"
  unfolding server_setup_def service_start_def Let_def by (auto split: if_splits)

lemma service_start_acts:
  assumes "service_start s"
  shows "service_acts (main_actions ok) s =
    Some (Inr (if ok then service_app_start (snd (service_init ok (s\<lparr>sv_init_done := True\<rparr>)))
               else s\<lparr>sv_init_done := True, s_pc := S_running\<rparr>))"
  using assms
  by (auto simp: service_start_def main_actions_def service_act_def holds_mutex_def may_start_def service_init_def
      service_ops service_app_start_def new_wiper_service_def Let_def)

lemma server_main_run:
  assumes "server_main E args now ok = (code, Some t)"
  shows "\<exists>s. server_setup E args now = Inr s \<and> service_acts (main_actions ok) s = Some (Inr t) \<and>
    reach service_start service_step t"
proof -
  obtain s where s: "server_setup E args now = Inr s" using assms by (auto simp: server_main_def split: sum.splits)
  note st = server_setup_starts [OF s]
  have "service_acts (main_actions ok) s = Some (Inr t)"
    using assms by (auto simp: service_start_acts [OF st] server_main_def s service_init_def Let_def split: if_splits)
  with service_acts_reach [OF this reach_init [of service_start, OF st]] s show ?thesis by blast
qed

lemma server_main_code:
  "fst (server_main E args now ok) =
    (if E ''VSOMEIP_APPLICATION_NAME'' = None \<or> E ''VSOMEIP_CONFIGURATION'' = None \<or> \<not> ok then 1 else 0)"
  by (simp add: server_main_def server_setup_def service_init_def Let_def split: option.splits)

lemma server_main_failed:
  "server_main E args now False = (code, Some t) \<Longrightarrow> s_pc t = S_running \<and> \<not> handlers_registered t \<and> sv_calls t = []"
  by (auto simp: server_main_def server_setup_def service_init_def new_wiper_service_def handlers_registered_def Let_def
      split: if_splits sum.splits option.splits)

section \<open>What is notified\<close>

lemma notified_events:
  "reach service_start service_step s \<Longrightarrow> subseq (notified (sv_calls s)) (map event_image (sv_events s))"
  using sv.reach_inv [of s] by (auto simp: service_inv_def images_def dest: subseq_butlast split: if_splits)

lemma notified_decodes:
  assumes "reach service_start service_step s" and "p \<in> set (notified (sv_calls s))"
  shows "length p = WIPER_EVENT_PAYLOAD_SIZE \<and>
    (\<exists>e \<in> set (sv_events s). deserialize_event p = (True, swapped_event e))"
proof -
  obtain e where "e \<in> set (sv_events s)" "p = event_image e"
    using assms(2) list_emb_set [OF notified_events [OF assms(1)]] by auto
  then show ?thesis
    using deserialize_event_image [of e "[]"] by (auto simp: event_image_def WIPER_EVENT_PAYLOAD_SIZE_def)
qed

text \<open>A schedule that notifies one event.\<close>

definition notifies_once :: "service_action list" where
  "notifies_once = A_init True # replicate 4 (A_run 0) @ replicate 7 (A_notify 0 0 0)"

lemma notifies_once_ends:
  "\<exists>s. service_acts notifies_once (some_service False) = Some (Inr s) \<and>
     notified (sv_calls s) = [event_image (sim_event (sv_sim s))] \<and> sv_events s = [sim_event (sv_sim s)]"
  by (simp add: notifies_once_def service_eval notify_event_eq sim_step_100 numeral_eq_Suc Let_def)

section \<open>Properties\<close>

text \<open>
  C29. Notifications: in every state the threads of the service can reach, in any interleaving
  with requests, a signal and spurious wake-ups, the payloads notified so far are, in order and
  each at most once, the wire images of events that the simulation produced; each has the 20
  bytes of an event and decodes to it with the bytes of its floats reversed. While events are
  sent, the time since the last one stays below the cycle.
\<close>

theorem service_notifications:
  assumes "reach service_start service_step s"
  shows "subseq (notified (sv_calls s)) (map event_image (sv_events s)) \<and>
    (\<forall>p \<in> set (notified (sv_calls s)). length p = WIPER_EVENT_PAYLOAD_SIZE \<and>
      (\<exists>e \<in> set (sv_events s). deserialize_event p = (True, swapped_event e))) \<and>
    (0 < sv_cycle s \<and> n_pc s \<in> {N_inner, N_ending, N_step, N_after} \<longrightarrow> n_event_ts s < sv_cycle s)"
  using notified_events [OF assms] notified_decodes [OF assms] sv.reach_inv [OF assms]
  unfolding service_inv_def by blast

theorem service_notifications_witness:
  "\<exists>s :: wiper_service. notified (sv_calls s) = [event_image (sim_event (sv_sim s))] \<and>
    subseq (notified (sv_calls s)) (map event_image (sv_events s))"
proof -
  obtain s where s: "service_acts notifies_once (some_service False) = Some (Inr s)"
    "notified (sv_calls s) = [event_image (sim_event (sv_sim s))]" using notifies_once_ends by blast
  from service_notifications [OF service_acts_reach [OF s(1) some_service_reach]] s(2)
  show ?thesis by blast
qed

text \<open>
  C32. The notify thread keeps the offer thread out: once it sends events, and as long as \<open>stop\<close>
  is not called, no interleaving lets the offer thread offer the service again, because the mutex
  it needs is held through the whole loop. The automatic simulation therefore does not get past
  the request it has reached.
\<close>

theorem offer_thread_starves:
  assumes "notifying s" and "service_step\<^sup>*\<^sup>* s t" and "s_pc t = S_idle"
  shows "notifying t \<and> offers t = offers s \<and> \<not> (r_pc t = R_offer \<and> run_act now t \<noteq> None)"
  using notifying_steps [OF assms(2,1,3)]
  by (auto simp: notifying_def run_act_def holds_notify_mutex_def)

theorem offer_thread_starves_witness:
  "\<exists>s t. notifying s \<and> service_step s t \<and> r_pc s = R_loop \<and> r_pc t = R_offer \<and> offers t = 1 \<and> run_act 0 t = None"
proof -
  let ?as = "A_init True # replicate 4 (A_run 0) @ replicate 3 (A_notify 0 0 0) @ replicate 12 (A_run 0)"
  have "\<exists>s. service_acts ?as (some_service True) = Some (Inr s) \<and> notifying s \<and> r_pc s = R_loop \<and> offers s = 1"
    by (simp add: service_eval numeral_eq_Suc Let_def notifying_def offers_def vss_requests_def service_ids)
  then obtain s where s: "notifying s" "r_pc s = R_loop" "offers s = 1" by blast
  let ?t = "s\<lparr>r_pc := R_offer\<rparr>"
  have st: "service_step s ?t" unfolding service_step_def using s
    by (intro exI [of _ "A_run 0"]) (simp add: service_act_def run_act_def notifying_def)
  have "s_pc ?t = S_idle" using s(1) by (simp add: notifying_def)
  from offer_thread_starves [OF s(1) r_into_rtranclp [of service_step, OF st] this, of 0] s st
  show ?thesis by (intro exI [of _ s] exI [of _ ?t]) auto
qed

text \<open>
  \<open>stop\<close> can leave the services offered: the offer thread, kept out by the notify thread,
  gets its mutex only after \<open>stop\<close> has withdrawn the offers, and offers both services again
  before it ends. The last calls of such a run are two offers and the stop of the application.
\<close>

theorem stop_can_offer_again:
  "\<exists>s cs. reach service_start service_step s \<and> s_pc s = S_done \<and> sv_offered s \<and>
    sv_calls s = cs @
      [Stop_offer_service WIPER_SERVICE_ID WIPER_INSTANCE_ID WIPER_SERVICE_MAJOR WIPER_SERVICE_MINOR,
       Stop_offer_service WIPER_VSS_SERVICE_ID WIPER_VSS_INSTANCE_ID WIPER_VSS_SERVICE_MAJOR WIPER_VSS_SERVICE_MINOR,
       Offer_service WIPER_VSS_SERVICE_ID WIPER_VSS_INSTANCE_ID WIPER_VSS_SERVICE_MAJOR WIPER_VSS_SERVICE_MINOR,
       Offer_service WIPER_SERVICE_ID WIPER_INSTANCE_ID WIPER_SERVICE_MAJOR WIPER_SERVICE_MINOR, App_stop]"
proof -
  obtain s where s: "service_acts offers_again (some_service False) = Some (Inr s)" "s_pc s = S_done" "sv_offered s"
    and c: "sv_calls s = [Register_state_handler,
       Offer_event WIPER_SERVICE_ID WIPER_INSTANCE_ID WIPER_EVENT_ID [WIPER_EVENTGROUP_ID] ET_FIELD RT_UNRELIABLE,
       Register_message_handler_for WIPER_VSS_SERVICE_ID WIPER_VSS_INSTANCE_ID WIPER_VSS_METHOD_ID,
       Register_availability_handler_for WIPER_VSS_SERVICE_ID WIPER_VSS_INSTANCE_ID,
       Offer_service WIPER_VSS_SERVICE_ID WIPER_VSS_INSTANCE_ID WIPER_VSS_SERVICE_MAJOR WIPER_VSS_SERVICE_MINOR,
       Offer_service WIPER_SERVICE_ID WIPER_INSTANCE_ID WIPER_SERVICE_MAJOR WIPER_SERVICE_MINOR,
       Clear_all_handler,
       Stop_offer_service WIPER_SERVICE_ID WIPER_INSTANCE_ID WIPER_SERVICE_MAJOR WIPER_SERVICE_MINOR,
       Stop_offer_service WIPER_VSS_SERVICE_ID WIPER_VSS_INSTANCE_ID WIPER_VSS_SERVICE_MAJOR WIPER_VSS_SERVICE_MINOR,
       Offer_service WIPER_VSS_SERVICE_ID WIPER_VSS_INSTANCE_ID WIPER_VSS_SERVICE_MAJOR WIPER_VSS_SERVICE_MINOR,
       Offer_service WIPER_SERVICE_ID WIPER_INSTANCE_ID WIPER_SERVICE_MAJOR WIPER_SERVICE_MINOR,
       App_stop]"
    using offers_again_ends by blast
  have "sv_calls s = take 7 (sv_calls s) @ drop 7 (sv_calls s)" by simp
  then show ?thesis
    using service_acts_reach [OF s(1) some_service_reach] s(2,3)
    by (intro exI [of _ s] exI [of _ "take 7 (sv_calls s)"]) (simp add: c)
qed

text \<open>
  C30. \<open>stop\<close> returns once its notifications have found no thread that is about to wait, and
  without the automatic simulation: from there on every step of the two threads and of \<open>stop\<close>
  decreases a rank, one of them can always be made, and \<open>stop\<close> ends.
\<close>

theorem service_stop_returns:
  assumes "stopping s"
  shows "(\<exists>t. thread_step\<^sup>*\<^sup>* s t \<and> s_pc t = S_done) \<and>
    (\<forall>t. thread_step s t \<longrightarrow> stopping t \<and> stop_rank t < stop_rank s) \<and>
    (s_pc s \<noteq> S_done \<longrightarrow> (\<exists>t. thread_step s t))"
  using ss.returns [OF assms] thread_step_stopping [OF assms] stopping_enabled [OF assms] by blast

theorem service_stop_returns_witness:
  "\<exists>s t. reach service_start service_step s \<and> n_pc s = N_step \<and> thread_step\<^sup>*\<^sup>* s t \<and> s_pc t = S_done"
proof -
  let ?as = "A_init True # replicate 4 (A_run 0) @ replicate 5 (A_notify 0 0 0) @ A_call_stop # replicate 4 A_stop"
  have "\<exists>s. service_acts ?as (some_service False) = Some (Inr s) \<and> stopping s \<and> n_pc s = N_step"
    by (simp add: service_eval numeral_eq_Suc Let_def stopping_def)
  then obtain s where s: "service_acts ?as (some_service False) = Some (Inr s)" "stopping s" "n_pc s = N_step" by blast
  then show ?thesis
    using service_stop_returns [OF s(2)] service_acts_reach [OF s(1) some_service_reach] by blast
qed

text \<open>
  C31. \<open>stop\<close> can hang: it clears \<open>running_\<close> without the mutex of the wait, so a notify thread
  that has just tested it misses the notification. There is a reachable state, after a failed
  \<open>init\<close>, in which \<open>stop\<close> waits for the notify thread, the notify thread waits for a
  notification, and nothing but a spurious wake-up can happen.
\<close>

theorem service_stop_can_hang:
  "\<exists>s. reach service_start service_step s \<and> s_pc s = S_join_notify \<and> n_pc s = N_waiting \<and>
    {a. service_act a s \<noteq> None} \<subseteq> {a. is_spurious a}"
proof -
  obtain s where s: "service_acts loses_wakeup (some_service False) = Some (Inr s)" "s_pc s = S_join_notify"
    "n_pc s = N_waiting" "r_pc s = R_done" "sv_init_done s" "Register_state_handler \<notin> set (sv_calls s)"
    using loses_wakeup_ends by blast
  have none: "service_act a s = None \<or> is_spurious a" for a
    using s(2-6) by (cases a) (simp_all add: service_act_def is_spurious_def run_act_def notify_act_def stop_act_def
        handlers_registered_def may_start_def)
  have "{a. service_act a s \<noteq> None} \<subseteq> {a. is_spurious a}"
  proof
    fix a assume "a \<in> {a. service_act a s \<noteq> None}"
    then show "a \<in> {a. is_spurious a}" using none [of a] by auto
  qed
  with service_acts_reach [OF s(1) some_service_reach] s(2,3) show ?thesis by auto
qed

text \<open>
  The automatic simulation can read past its five requests: the index is reset only above 5,
  so after the fifth request it is 5 and the next round reads out of bounds. It takes an offer
  thread that is not kept out by the notify thread.
\<close>

theorem sim_auto_overruns: "\<exists>as. service_acts as (some_service True) = Some (Inl OOB_read)"
proof -
  have "\<exists>s. service_acts (A_init True # replicate 3 (A_run 0)) (some_service True) = Some (Inr s) \<and> auto_ready 0 s"
    by (simp add: service_eval numeral_eq_Suc Let_def auto_ready_def)
  then obtain bs s where s: "service_acts bs (some_service True) = Some (Inr s)" "auto_ready 0 s" by blast
  obtain as t where t: "service_acts as s = Some (Inr t)" "auto_ready 5 t" using auto_rounds [of 5, OF _ s(2)] by auto
  have "service_acts (replicate 2 (A_run 0)) t = Some (Inl OOB_read)"
    using t(2) by (simp add: auto_ready_def service_act_def run_act_def holds_notify_mutex_def service_ops
        vss_requests_def numeral_eq_Suc)
  then have "service_acts (bs @ as @ replicate 2 (A_run 0)) (some_service True) = Some (Inl OOB_read)"
    by (simp add: service_acts_append s t)
  then show ?thesis by blast
qed

end
