(* ===== verification/Wiper_Client.thy ===== *)
theory Wiper_Client
  imports Wiper_Server
begin

text \<open>
  The wiper client \<^verbatim>\<open>examples/wiper_service/wiper_client.cc\<close>: the class \<open>wiper_client\<close>,
  whose handlers run in the dispatcher of vsomeip, and the program's \<open>main\<close> with \<open>atof\<close>. What
  the client does to vsomeip is the list of its calls; the events it prints are kept in
  \<open>wc_printed\<close>. The thread function \<open>run\<close> is part of the model, although the constructor's line
  that would start it is commented out; the mutexes protect nothing else.

  The last section composes the client with the service of \<open>Wiper_Server\<close>: what the service
  makes of the client's request, and the client of the service's events.
\<close>

section \<open>State and handlers\<close>

record wiper_client =
  wc_use_tcp :: bool
  wc_use_vss :: bool
  wc_use_events :: bool
  wc_registered :: bool
  wc_vss_req :: t_WiperRequest
  wc_blocked :: bool
  wc_running :: bool
  wc_calls :: "app_call list"
  wc_printed :: "t_Event list"

definition new_wiper_client :: "bool \<Rightarrow> bool \<Rightarrow> bool \<Rightarrow> t_WiperRequest \<Rightarrow> wiper_client" where
  "new_wiper_client tcp events vss r =
     \<lparr>wc_use_tcp = tcp, wc_use_vss = vss, wc_use_events = events, wc_registered = False, wc_vss_req = r,
      wc_blocked = False, wc_running = True, wc_calls = [], wc_printed = []\<rparr>"

definition wc_do :: "app_call list \<Rightarrow> wiper_client \<Rightarrow> wiper_client" where
  "wc_do cs c = c\<lparr>wc_calls := wc_calls c @ cs\<rparr>"

definition wiper_client_init :: "bool \<Rightarrow> wiper_client \<Rightarrow> bool \<times> wiper_client" where
  "wiper_client_init app_init_ok c =
     (if \<not> app_init_ok then (False, c)
      else
        let c = wc_do [Register_state_handler, Register_message_handler] c;
            c = (if wc_use_events c
                 then wc_do [Register_availability_handler_for WIPER_SERVICE_ID WIPER_INSTANCE_ID] c else c);
            c = (if wc_use_vss c
                 then wc_do [Register_availability_handler_for WIPER_VSS_SERVICE_ID WIPER_VSS_INSTANCE_ID] c else c)
        in (True, c\<lparr>wc_blocked := True\<rparr>))"

definition wiper_client_start :: "wiper_client \<Rightarrow> wiper_client" where
  "wiper_client_start c = wc_do [App_start] c"

definition wiper_client_stop :: "wiper_client \<Rightarrow> wiper_client" where
  "wiper_client_stop c =
     (let c = c\<lparr>wc_running := False, wc_blocked := True\<rparr>;
          c = wc_do [Clear_all_handler] c;
          c = (if wc_use_events c
               then wc_do [Unsubscribe_group WIPER_SERVICE_ID WIPER_INSTANCE_ID WIPER_EVENTGROUP_ID,
                      Release_event WIPER_SERVICE_ID WIPER_INSTANCE_ID WIPER_EVENT_ID,
                      Release_service WIPER_SERVICE_ID WIPER_INSTANCE_ID] c else c);
          c = (if wc_use_vss c then wc_do [Release_service WIPER_VSS_SERVICE_ID WIPER_VSS_INSTANCE_ID] c else c)
      in wc_do [App_stop] c)"

definition wiper_client_on_state :: "state_type_e \<Rightarrow> wiper_client \<Rightarrow> wiper_client" where
  "wiper_client_on_state st c =
     (if st = ST_REGISTERED then
        let c = (if wc_use_events c
                 then wc_do [Request_service WIPER_SERVICE_ID WIPER_INSTANCE_ID WIPER_SERVICE_MAJOR WIPER_SERVICE_MINOR] c
                 else c);
            c = (if wc_use_vss c
                 then wc_do [Request_service WIPER_VSS_SERVICE_ID WIPER_VSS_INSTANCE_ID
                        WIPER_VSS_SERVICE_MAJOR WIPER_VSS_SERVICE_MINOR] c
                 else c)
        in c\<lparr>wc_registered := True\<rparr>
      else c)"

definition wiper_client_on_availability :: "bool \<Rightarrow> wiper_client \<Rightarrow> wiper_client" where
  "wiper_client_on_availability is_available c =
     (if is_available \<and> wc_use_events c
      then wc_do [Request_event WIPER_SERVICE_ID WIPER_INSTANCE_ID WIPER_EVENT_ID [WIPER_EVENTGROUP_ID] ET_FIELD
                    (if wc_use_tcp c then RT_RELIABLE else RT_UNRELIABLE),
                  Subscribe_group WIPER_SERVICE_ID WIPER_INSTANCE_ID WIPER_EVENTGROUP_ID WIPER_SERVICE_MAJOR] c
      else c)"

text \<open>Called without waiting for a response.\<close>

definition wiper_vss_set :: "t_WiperRequest \<Rightarrow> wiper_client \<Rightarrow> bool \<times> wiper_client" where
  "wiper_vss_set r c =
     (let (ok, payload) = serialize_vss_request r (replicate WIPER_SET_PAYLOAD_SIZE 0)
      in if \<not> ok then (False, c)
         else (True, wc_do [App_send \<lparr>msg_service = WIPER_VSS_SERVICE_ID, msg_instance = WIPER_VSS_INSTANCE_ID,
                msg_method = WIPER_VSS_METHOD_ID, msg_payload = payload\<rparr>] c))"

definition on_vss_availability :: "bool \<Rightarrow> wiper_client \<Rightarrow> wiper_client" where
  "on_vss_availability is_available c =
     (if is_available \<and> wc_use_vss c then snd (wiper_vss_set (wc_vss_req c) c) else c)"

definition wiper_client_on_message :: "someip_message \<Rightarrow> wiper_client \<Rightarrow> wiper_client" where
  "wiper_client_on_message m c =
     (if msg_service m = WIPER_SERVICE_ID \<and> msg_instance m = WIPER_INSTANCE_ID \<and> msg_method m = WIPER_EVENT_ID
      then c\<lparr>wc_printed := wc_printed c @ [snd (deserialize_event (msg_payload m))]\<rparr>
      else if msg_service m = WIPER_VSS_SERVICE_ID \<and> msg_instance m = WIPER_VSS_INSTANCE_ID \<and>
              msg_method m = WIPER_VSS_METHOD_ID
      then (if \<not> wc_use_events c then wiper_client_stop c else c)
      else c)"

definition wiper_client_handle_signal :: "int \<Rightarrow> wiper_client \<Rightarrow> wiper_client" where
  "wiper_client_handle_signal sig c = (if sig = 2 \<or> sig = 15 then wiper_client_stop c else c)"

text \<open>
  The thread function: it waits until \<open>init\<close> or \<open>stop\<close> has set \<open>blocked_\<close> (\<open>None\<close> is the wait)
  and sends one of the requests of its array in each round. \<open>n\<close> is the number of rounds that find
  \<open>running_\<close> set. The index is reset only above 5, as in the service.
\<close>

definition vss_reqests :: "t_WiperRequest list" where
  "vss_reqests =
     [\<lparr>Frequency = 40, TargetPosition = f32_of_int 80, Mode = WIPE\<rparr>,
      \<lparr>Frequency = 50, TargetPosition = f32_of_int 20, Mode = WIPE\<rparr>,
      \<lparr>Frequency = 30, TargetPosition = f32_of_int 10, Mode = WIPE\<rparr>,
      \<lparr>Frequency = 30, TargetPosition = f32_of_int 2, Mode = WIPE\<rparr>,
      \<lparr>Frequency = 70, TargetPosition = f32_of_int 2, Mode = EMERGENCY_STOP\<rparr>]"

fun client_rounds :: "nat \<Rightarrow> nat \<Rightarrow> wiper_client \<Rightarrow> cpp_error + wiper_client" where
  "client_rounds 0 vss_index c = Inr c"
| "client_rounds (Suc n) vss_index c =
     (if vss_index < length vss_reqests
      then let (res, c) = wiper_vss_set (vss_reqests ! vss_index) c;
               vss_index = vss_index + 1
           in client_rounds n (if vss_index > 5 then 0 else vss_index) c
      else Inl OOB_read)"

definition wiper_client_run :: "nat \<Rightarrow> wiper_client \<Rightarrow> (cpp_error + wiper_client) option" where
  "wiper_client_run n c =
     (if wc_running c \<and> \<not> wc_blocked c then None
      else Some (client_rounds (if wc_running c then n else 0) 0 c))"

text \<open>The client's own copy of the names of message types, for the line it prints per message.\<close>

definition client_message_type_to_string :: "message_type_e \<Rightarrow> string" where
  "client_message_type_to_string msg_type =
     (case msg_type of
        MT_ERROR \<Rightarrow> ''Error''
      | MT_ERROR_ACK \<Rightarrow> ''Error/ack''
      | MT_NOTIFICATION \<Rightarrow> ''Notification''
      | MT_NOTIFICATION_ACK \<Rightarrow> ''Notification/ack''
      | MT_REQUEST \<Rightarrow> ''Request''
      | MT_REQUEST_ACK \<Rightarrow> ''Request/ack''
      | MT_REQUEST_NO_RETURN \<Rightarrow> ''Request/no_ret''
      | MT_REQUEST_NO_RETURN_ACK \<Rightarrow> ''Request/no_ret/ack''
      | MT_RESPONSE \<Rightarrow> ''Response''
      | MT_RESPONSE_ACK \<Rightarrow> ''Response/ack''
      | MT_other n \<Rightarrow> ''Unknown <0x'' @ hex_of_nat n @ ''>'')"

section \<open>Reading a number\<close>

text \<open>
  \<open>atof\<close> is \<open>strtod\<close>: a decimal number with optional fraction and exponent, a hexadecimal one,
  an infinity or a NaN, and zero if the text starts with none of these. The exact value is
  rounded once, to \<open>double\<close>.
\<close>

definition lower :: "char \<Rightarrow> char" where
  "lower ch = (let k = (of_char ch :: nat) in if 65 \<le> k \<and> k \<le> 90 then char_of (k + 32) else ch)"

definition read_exponent :: "char \<Rightarrow> string \<Rightarrow> int" where
  "read_exponent mark s =
     (case s of
        ch # r \<Rightarrow>
          if lower ch = mark then
            let (neg, t) = split_sign r; ds = takeWhile (is_digit 10) t
            in if neg then - int (digits_val 10 ds) else int (digits_val 10 ds)
          else 0
      | [] \<Rightarrow> 0)"

definition read_fraction :: "nat \<Rightarrow> string \<Rightarrow> string \<times> string" where
  "read_fraction base s =
     (case s of
        ch # r \<Rightarrow> if ch = CHR ''.'' then (takeWhile (is_digit base) r, dropWhile (is_digit base) r) else ([], s)
      | [] \<Rightarrow> ([], s))"

definition read_number :: "nat \<Rightarrow> string \<Rightarrow> (nat \<times> int \<times> string) option" where
  "read_number base s =
     (let ip = takeWhile (is_digit base) s;
          (fp, r) = read_fraction base (dropWhile (is_digit base) s)
      in if ip @ fp = [] then None else Some (digits_val base (ip @ fp), - int (length fp), r))"

definition scale10 :: "bool \<Rightarrow> nat \<Rightarrow> int \<Rightarrow> fl" where
  "scale10 neg d e =
     (if 0 \<le> e then round64 (Fin neg (int d * 10 ^ nat e) 0)
      else round64 (fdiv (Fin neg (int d) 0) False (10 ^ nat (- e)) 0))"

definition strtod :: "string \<Rightarrow> fl" where
  "strtod s =
     (let (neg, r) = split_sign (dropWhile is_space s); t = map lower r in
      if take 3 t = ''inf'' then Inf neg
      else if take 3 t = ''nan'' then NaN
      else
        case (if take 2 t = ''0x'' then read_number 16 (drop 2 r) else None) of
          Some (d, e, r) \<Rightarrow> round64 (Fin neg (int d) (4 * e + read_exponent CHR ''p'' r))
        | None \<Rightarrow>
            (case read_number 10 r of
               Some (d, e, r) \<Rightarrow> scale10 neg d (e + read_exponent CHR ''e'' r)
             | None \<Rightarrow> Fin False 0 0))"

section \<open>The program\<close>

record wiper_client_options =
  co_tcp :: bool
  co_vss :: bool
  co_events :: bool
  co_freq :: u8
  co_pos :: f32
  co_mode :: e_WiperMode

definition default_client_options :: wiper_client_options where
  "default_client_options =
     \<lparr>co_tcp = False, co_vss = False, co_events = True, co_freq = 40, co_pos = f32_of_int 60, co_mode = WIPE\<rparr>"

text \<open>\<open>None\<close> is the help text and exit code 1.\<close>

function client_args :: "string list \<Rightarrow> wiper_client_options \<Rightarrow> wiper_client_options option" where
  "client_args args opts =
     (case args of
        [] \<Rightarrow> Some opts
      | a # as \<Rightarrow>
          if a = ''--tcp'' then client_args as (opts\<lparr>co_tcp := True\<rparr>)
          else if a = ''--udp'' then client_args as (opts\<lparr>co_tcp := False\<rparr>)
          else if a = ''--vss'' then client_args as (opts\<lparr>co_events := False, co_vss := True\<rparr>)
          else if a = ''--mode'' \<and> as \<noteq> []
          then client_args (tl as) (opts\<lparr>co_mode := mode_of_int (atoi (hd as)), co_vss := True\<rparr>)
          else if a = ''--freq'' \<and> as \<noteq> []
          then client_args (tl as) (opts\<lparr>co_freq := word_of_int (atoi (hd as)), co_vss := True\<rparr>)
          else if a = ''--pos'' \<and> as \<noteq> []
          then client_args (tl as) (opts\<lparr>co_pos := f32_encode (round32 (strtod (hd as))), co_vss := True\<rparr>)
          else None)"
  by pat_completeness auto

termination by (relation "measure (length \<circ> fst)") auto

declare client_args.simps [simp del]

definition options_request :: "wiper_client_options \<Rightarrow> t_WiperRequest" where
  "options_request opts = \<lparr>Frequency = co_freq opts, TargetPosition = co_pos opts, Mode = co_mode opts\<rparr>"

text \<open>The exit code and the client as \<open>init\<close> and \<open>start\<close> leave it.\<close>

definition wiper_client_main :: "env \<Rightarrow> bool \<Rightarrow> string list \<Rightarrow> int \<times> wiper_client option" where
  "wiper_client_main E app_init_ok args =
     (case client_args args default_client_options of
        None \<Rightarrow> (1, None)
      | Some opts \<Rightarrow>
          if E ''VSOMEIP_APPLICATION_NAME'' = None \<or> E ''VSOMEIP_CONFIGURATION'' = None then (1, None)
          else
            let c = new_wiper_client (co_tcp opts) (co_events opts) (co_vss opts) (options_request opts);
                (ok, c) = wiper_client_init app_init_ok c
            in if ok then (0, Some (wiper_client_start c)) else (1, Some c))"

section \<open>The client over time\<close>

text \<open>
  The message of a request, and the messages a client has sent. \<open>client_event\<close> is one handler, run by
  vsomeip, or a signal, from the state in which \<open>main\<close> has called \<open>init\<close> and \<open>start\<close>.
\<close>

definition request_message :: "t_WiperRequest \<Rightarrow> someip_message" where
  "request_message r = \<lparr>msg_service = WIPER_VSS_SERVICE_ID, msg_instance = WIPER_VSS_INSTANCE_ID,
     msg_method = WIPER_VSS_METHOD_ID,
     msg_payload = snd (serialize_vss_request r (replicate WIPER_SET_PAYLOAD_SIZE 0))\<rparr>"

fun sent :: "app_call list \<Rightarrow> someip_message list" where
  "sent [] = []"
| "sent (App_send m # cs) = m # sent cs"
| "sent (_ # cs) = sent cs"

inductive client_event :: "wiper_client \<Rightarrow> wiper_client \<Rightarrow> bool" where
  ev_state: "client_event c (wiper_client_on_state st c)"
| ev_availability: "client_event c (wiper_client_on_availability avail c)"
| ev_vss_availability: "client_event c (on_vss_availability avail c)"
| ev_message: "client_event c (wiper_client_on_message m c)"
| ev_signal: "client_event c (wiper_client_handle_signal sig c)"

definition client_begun :: "bool \<Rightarrow> t_WiperRequest \<Rightarrow> wiper_client \<Rightarrow> bool" where
  "client_begun vss r c \<longleftrightarrow>
     (\<exists>tcp events. c = wiper_client_start (snd (wiper_client_init True (new_wiper_client tcp events vss r))))"

definition client_sends :: "bool \<Rightarrow> t_WiperRequest \<Rightarrow> wiper_client \<Rightarrow> bool" where
  "client_sends vss r c \<longleftrightarrow> wc_use_vss c = vss \<and> wc_vss_req c = r \<and>
     (\<forall>m \<in> set (sent (wc_calls c)). vss \<and> m = request_message r)"

lemma sent_append [simp]: "sent (xs @ ys) = sent xs @ sent ys"
  by (induction xs rule: sent.induct) auto

lemma wc_do_frame [simp]:
  "wc_use_vss (wc_do cs c) = wc_use_vss c" "wc_use_events (wc_do cs c) = wc_use_events c"
  "wc_vss_req (wc_do cs c) = wc_vss_req c" "wc_use_tcp (wc_do cs c) = wc_use_tcp c"
  "wc_running (wc_do cs c) = wc_running c" "wc_blocked (wc_do cs c) = wc_blocked c"
  "wc_calls (wc_do cs c) = wc_calls c @ cs"
  by (simp_all add: wc_do_def)

lemma wiper_vss_set_eq: "wiper_vss_set r c = (True, wc_do [App_send (request_message r)] c)"
proof -
  have "fst (serialize_vss_request r (replicate WIPER_SET_PAYLOAD_SIZE 0))"
    by (intro request_codec.ser_ok) simp
  then show ?thesis by (simp add: wiper_vss_set_def request_message_def case_prod_beta)
qed

lemma stop_sends: "client_sends vss r c \<Longrightarrow> client_sends vss r (wiper_client_stop c)"
  by (cases vss) (auto simp: client_sends_def wiper_client_stop_def Let_def)

lemmas client_handlers = wiper_client_on_state_def wiper_client_on_availability_def on_vss_availability_def
  wiper_client_on_message_def wiper_client_handle_signal_def wiper_vss_set_eq

interpretation wc: invariant_system "client_begun vss r" client_event "client_sends vss r" for vss r
proof
  fix c assume "client_begun vss r c"
  then obtain tcp events where c: "c = wiper_client_start (snd (wiper_client_init True (new_wiper_client tcp events vss r)))"
    by (auto simp: client_begun_def)
  show "client_sends vss r c"
    by (cases events; cases vss)
      (simp_all add: c client_sends_def wiper_client_start_def wiper_client_init_def new_wiper_client_def)
next
  fix c d assume "client_sends vss r c" and "client_event c d"
  from this(2,1) show "client_sends vss r d"
    by cases (auto simp: client_handlers Let_def intro!: stop_sends, auto simp: client_sends_def)
qed

lemma client_rounds_send:
  "k + n \<le> 5 \<Longrightarrow> client_rounds n k c = Inr (wc_do (map (App_send \<circ> request_message) (take n (drop k vss_reqests))) c)"
proof (induction n arbitrary: k c)
  case (Suc n)
  have "drop k vss_reqests = vss_reqests ! k # drop (Suc k) vss_reqests"
    using Suc.prems by (intro Cons_nth_drop_Suc [symmetric]) (simp add: vss_reqests_def)
  moreover have "k < length vss_reqests" using Suc.prems by (simp add: vss_reqests_def)
  ultimately show ?case
    using Suc.IH [of "Suc k"] Suc.prems by (simp add: wiper_vss_set_eq wc_do_def)
qed (simp add: wc_do_def)

lemma client_rounds_overrun: "client_rounds (6 + n) 0 c = Inl OOB_read"
  by (simp add: numeral_eq_Suc vss_reqests_def wiper_vss_set_eq)

text \<open>
  The thread function sends its five requests in order and then, in the sixth round, reads past
  the end of its array.
\<close>

lemma wiper_client_run_requests:
  assumes "wc_running c" and "wc_blocked c"
  shows "n \<le> 5 \<Longrightarrow> wiper_client_run n c = Some (Inr (wc_do (map (App_send \<circ> request_message) (take n vss_reqests)) c))"
    and "6 \<le> n \<Longrightarrow> wiper_client_run n c = Some (Inl OOB_read)"
  using assms client_rounds_send [of 0 n c] client_rounds_overrun [of "n - 6" c] by (simp_all add: wiper_client_run_def)

lemma client_message_types: "client_message_type_to_string t = message_type_to_string t"
  by (cases t) (simp_all add: client_message_type_to_string_def)

text \<open>
  A client that only sets the wiper (\<open>--vss\<close>) stops at the reply to its request, whatever the
  reply says; one with events goes on.
\<close>

lemma reply_stops_client:
  "msg_service m = WIPER_VSS_SERVICE_ID \<Longrightarrow> msg_instance m = WIPER_VSS_INSTANCE_ID \<Longrightarrow>
    msg_method m = WIPER_VSS_METHOD_ID \<Longrightarrow>
    wiper_client_on_message m c = (if wc_use_events c then c else wiper_client_stop c)"
  by (simp add: wiper_client_on_message_def service_ids)

section \<open>Properties\<close>

text \<open>
  Every message the client ever sends is the request of its command line: in any sequence of
  states, availability reports, messages and signals after \<open>main\<close> has started it, a client with VSS
  options sends nothing but that one request, each copy of which the service decodes to the same
  request with the bytes of its target reversed, and a client without them sends nothing.
\<close>

theorem client_sends_only_its_request:
  assumes "reach (client_begun vss r) client_event c" and "wf_request r"
  shows "set (sent (wc_calls c)) \<subseteq> (if vss then {request_message r} else {}) \<and>
    deserialize_vss_request (msg_payload (request_message r)) =
      (True, r\<lparr>TargetPosition := bswap32 (TargetPosition r)\<rparr>)"
proof
  show "set (sent (wc_calls c)) \<subseteq> (if vss then {request_message r} else {})"
    using wc.reach_inv [OF assms(1)] by (auto simp: client_sends_def)
  have "WIPER_SET_PAYLOAD_SIZE \<le> length (replicate WIPER_SET_PAYLOAD_SIZE (0 :: u8))" by simp
  from request_codec.des_ser [OF assms(2) this]
  show "deserialize_vss_request (msg_payload (request_message r)) =
      (True, r\<lparr>TargetPosition := bswap32 (TargetPosition r)\<rparr>)"
    by (simp add: request_message_def swapped_request_def)
qed

theorem client_sends_only_its_request_witness:
  "\<exists>c :: wiper_client. sent (wc_calls c) = [request_message (vss_reqests ! 1)] \<and>
    set (sent (wc_calls c)) \<subseteq> {request_message (vss_reqests ! 1)}"
proof -
  let ?r = "vss_reqests ! 1"
  let ?b = "wiper_client_start (snd (wiper_client_init True (new_wiper_client False False True ?r)))"
  let ?c = "on_vss_availability True (wiper_client_on_state ST_REGISTERED ?b)"
  have "client_begun True ?r ?b" unfolding client_begun_def by blast
  then have "reach (client_begun True ?r) client_event ?c"
    by (blast intro: reach_init reach_step client_event.intros)
  moreover have "wf_request ?r" by (simp add: vss_reqests_def wf_request_def mode_of_int_def)
  moreover have "sent (wc_calls ?c) = [request_message ?r]"
    by (simp add: client_handlers wiper_client_start_def wiper_client_init_def new_wiper_client_def Let_def)
  ultimately show ?thesis
    using client_sends_only_its_request [of True ?r ?c] by (intro exI [of _ ?c]) simp
qed

text \<open>
  C28. A request of the client as the service sees it: when the VSS service becomes available, the
  client sends exactly one message, to the method the service has registered; delivered there, it
  is accepted, answered with the single byte 0, and makes the simulation move as the request says,
  except that the target position has its four bytes reversed.
\<close>

theorem client_request_reaches_service:
  assumes "wc_use_vss c" and "wf_request (wc_vss_req c)"
  shows "\<exists>p. on_vss_availability True c =
      wc_do [App_send \<lparr>msg_service = WIPER_VSS_SERVICE_ID, msg_instance = WIPER_VSS_INSTANCE_ID,
        msg_method = WIPER_VSS_METHOD_ID, msg_payload = p\<rparr>] c \<and>
    on_vss_message_cb now p s =
      sv_do [App_send \<lparr>msg_service = WIPER_VSS_SERVICE_ID, msg_instance = WIPER_VSS_INSTANCE_ID,
        msg_method = WIPER_VSS_METHOD_ID, msg_payload = [0]\<rparr>]
        (s\<lparr>sv_sim := model_set now ((wc_vss_req c)\<lparr>TargetPosition := bswap32 (TargetPosition (wc_vss_req c))\<rparr>) (sv_sim s)\<rparr>)"
proof -
  define p where "p = snd (serialize_vss_request (wc_vss_req c) (replicate WIPER_SET_PAYLOAD_SIZE 0))"
  have "WIPER_SET_PAYLOAD_SIZE \<le> length (replicate WIPER_SET_PAYLOAD_SIZE (0 :: u8))" by simp
  note codec = request_codec.ser_ok [OF this] request_codec.des_ser [OF assms(2) this]
  have "serialize_vss_request (wc_vss_req c) (replicate WIPER_SET_PAYLOAD_SIZE 0) = (True, p)"
    using codec(1) by (simp add: p_def prod_eq_iff)
  moreover have "deserialize_vss_request p = (True, swapped_request (wc_vss_req c))"
    using codec(2) by (simp add: p_def)
  ultimately show ?thesis
    using assms(1) by (intro exI [of _ p])
      (simp add: on_vss_availability_def wiper_vss_set_def on_vss_message_cb_def swapped_request_def)
qed

theorem client_request_reaches_service_witness:
  "\<exists>p. on_vss_message_cb 0 p (some_service False) =
    sv_do [App_send \<lparr>msg_service = WIPER_VSS_SERVICE_ID, msg_instance = WIPER_VSS_INSTANCE_ID,
        msg_method = WIPER_VSS_METHOD_ID, msg_payload = [0]\<rparr>]
      ((some_service False)\<lparr>sv_sim := model_set 0
        \<lparr>Frequency = 40, TargetPosition = 0x00007042, Mode = WIPE\<rparr> (sv_sim (some_service False))\<rparr>)"
proof -
  let ?c = "new_wiper_client False False True \<lparr>Frequency = 40, TargetPosition = 0x42700000, Mode = WIPE\<rparr>"
  have "wc_use_vss ?c" "wf_request (wc_vss_req ?c)"
    by (simp_all add: new_wiper_client_def wf_request_def mode_of_int_def)
  moreover have "bswap32 0x42700000 = 0x00007042" by (simp add: bswap32_def le_bytes_4)
  ultimately show ?thesis
    using client_request_reaches_service [of ?c 0 "some_service False"] by (auto simp: new_wiper_client_def)
qed

text \<open>
  C34. An event of the service as the client sees it: every payload the service has notified, in
  whatever state its threads are, makes the client print exactly one event, an event the
  simulation produced with the bytes of its two floats reversed.
\<close>

theorem service_event_reaches_client:
  assumes "reach service_start service_step s" and "p \<in> set (notified (sv_calls s))"
  shows "\<exists>e \<in> set (sv_events s).
    wiper_client_on_message \<lparr>msg_service = WIPER_SERVICE_ID, msg_instance = WIPER_INSTANCE_ID,
      msg_method = WIPER_EVENT_ID, msg_payload = p\<rparr> c = c\<lparr>wc_printed := wc_printed c @ [swapped_event e]\<rparr>"
proof -
  obtain e where "e \<in> set (sv_events s)" "deserialize_event p = (True, swapped_event e)"
    using notified_decodes [OF assms] by blast
  then show ?thesis by (intro bexI [of _ e]) (simp_all add: wiper_client_on_message_def)
qed

theorem service_event_reaches_client_witness:
  "\<exists>s :: wiper_service. \<exists>p \<in> set (notified (sv_calls s)). \<exists>e \<in> set (sv_events s).
    wc_printed (wiper_client_on_message \<lparr>msg_service = WIPER_SERVICE_ID, msg_instance = WIPER_INSTANCE_ID,
      msg_method = WIPER_EVENT_ID, msg_payload = p\<rparr> (new_wiper_client False True False zero_request)) = [swapped_event e]"
proof -
  obtain s where s: "service_acts notifies_once (some_service False) = Some (Inr s)"
    "notified (sv_calls s) = [event_image (sim_event (sv_sim s))]" using notifies_once_ends by blast
  have r: "reach service_start service_step s" by (rule service_acts_reach [OF s(1) some_service_reach])
  have p: "event_image (sim_event (sv_sim s)) \<in> set (notified (sv_calls s))" by (simp add: s(2))
  from service_event_reaches_client [OF r p, of "new_wiper_client False True False zero_request"]
  obtain e where "e \<in> set (sv_events s)" and
    "wiper_client_on_message \<lparr>msg_service = WIPER_SERVICE_ID, msg_instance = WIPER_INSTANCE_ID,
      msg_method = WIPER_EVENT_ID, msg_payload = event_image (sim_event (sv_sim s))\<rparr> (new_wiper_client False True False zero_request) =
     (new_wiper_client False True False zero_request)\<lparr>wc_printed := [swapped_event e]\<rparr>"
    by (auto simp: new_wiper_client_def)
  with p show ?thesis by (intro exI [of _ s] bexI [OF _ p] bexI [of _ e]) simp_all
qed

text \<open>
  Integer options: an \<open>int\<close> written in decimal after \<open>--freq\<close> is taken modulo 256, and one
  after \<open>--mode\<close> is taken as it is; neither is checked against the range the help text gives.
  Every option with a value enables requests, and leaves events enabled.
\<close>

theorem client_args_numbers:
  assumes "in_int32 f" and "in_int32 m"
  shows "\<exists>opts. client_args [''--freq'', to_string f, ''--mode'', to_string m] default_client_options = Some opts \<and>
    uint (co_freq opts) = f mod 256 \<and> co_mode opts = mode_of_int m \<and> co_vss opts \<and> co_events opts \<and>
    co_pos opts = f32_of_int 60"
  using assms by (simp add: client_args.simps atoi_to_string default_client_options_def uint_word_of_int)

theorem client_args_numbers_witness:
  "\<exists>opts. client_args [''--freq'', ''300'', ''--mode'', ''7''] default_client_options = Some opts \<and>
    uint (co_freq opts) = 44 \<and> co_mode opts = Mode_other 7"
proof -
  have "in_int32 300" "in_int32 7" by (simp_all add: in_int32_def)
  moreover have "to_string 300 = ''300''" "to_string 7 = ''7''" by code_simp+
  ultimately show ?thesis using client_args_numbers [of 300 7] by (auto simp: mode_of_int_def)
qed

end
