(* ===== verification/Wiper_Text.thy ===== *)
theory Wiper_Text
  imports Wiper_Sim
begin

text \<open>
  The texts \<^verbatim>\<open>lib/wiper_poc\<close> makes of events and requests: \<open>event_to_string\<close>,
  \<open>vss_request_to_string\<close>, and the status lines of \<open>print_status\<close> and \<open>print_status_r\<close> as
  the strings they print. \<open>print_fixed\<close> is the conversion \<open>%w.pf\<close> of \<open>printf\<close> and
  \<open>print_general\<close> the default output of a \<open>float\<close> to a stream (\<open>%g\<close> with six digits). Both
  round the exact value once, ties to even. A NaN is printed without its sign.
\<close>

section \<open>Floats in decimal\<close>

definition pad_left :: "nat \<Rightarrow> char \<Rightarrow> string \<Rightarrow> string" where
  "pad_left w ch s = replicate (w - length s) ch @ s"

text \<open>\<open>m * 2 ^ e * 10 ^ p\<close> as an integer.\<close>

definition fixed_digits :: "nat \<Rightarrow> int \<Rightarrow> int \<Rightarrow> int" where
  "fixed_digits p m e =
     (if 0 \<le> e then m * 2 ^ nat e * 10 ^ p else round_shift (m * 10 ^ p) (nat (- e)))"

definition decimal :: "nat \<Rightarrow> int \<Rightarrow> string" where
  "decimal p n =
     to_string (n div 10 ^ p) @
     (if p = 0 then [] else CHR ''.'' # pad_left p CHR ''0'' (to_string (n mod 10 ^ p)))"

definition print_fixed :: "nat \<Rightarrow> nat \<Rightarrow> fl \<Rightarrow> string" where
  "print_fixed w p x = pad_left w CHR '' ''
     (case x of
        Fin s m e \<Rightarrow> (if s then ''-'' else []) @ decimal p (fixed_digits p m e)
      | Inf s \<Rightarrow> if s then ''-inf'' else ''inf''
      | NaN \<Rightarrow> ''nan'')"

text \<open>The decimal exponent of a positive fraction, and its first six digits.\<close>

function digits_below :: "int \<Rightarrow> int \<Rightarrow> int" where
  "digits_below num den = (if num \<le> 0 \<or> den \<le> num then 0 else 1 + digits_below (10 * num) den)"
  by pat_completeness auto

termination by (relation "measure (\<lambda>(num, den). nat (den - num))") auto

function digits_above :: "int \<Rightarrow> int" where
  "digits_above n = (if n < 10 then 0 else 1 + digits_above (n div 10))"
  by pat_completeness auto

termination by (relation "measure nat") auto

declare digits_below.simps [simp del] digits_above.simps [simp del]

definition decimal_exponent :: "int \<Rightarrow> int \<Rightarrow> int" where
  "decimal_exponent num den = (if den \<le> num then digits_above (num div den) else - digits_below num den)"

definition div_round :: "int \<Rightarrow> int \<Rightarrow> int" where
  "div_round num den =
     (let q = num div den; r = num mod den in if den < 2 * r \<or> (den = 2 * r \<and> odd q) then q + 1 else q)"

definition six_digits :: "int \<Rightarrow> int \<Rightarrow> int \<times> int" where
  "six_digits num den =
     (let x = decimal_exponent num den;
          d = (if x \<le> 5 then div_round (num * 10 ^ nat (5 - x)) den else div_round num (den * 10 ^ nat (x - 5)))
      in if d = 10 ^ 6 then (10 ^ 5, x + 1) else (d, x))"

definition strip_zeros :: "string \<Rightarrow> string" where
  "strip_zeros s = rev (dropWhile (\<lambda>ch. ch = CHR ''.'') (let t = dropWhile (\<lambda>ch. ch = CHR ''0'') (rev s)
     in if CHR ''.'' \<in> set s then t else rev s))"

definition print_exponent :: "int \<Rightarrow> string" where
  "print_exponent x = ''e'' @ (if x < 0 then ''-'' else ''+'') @ pad_left 2 CHR ''0'' (to_string \<bar>x\<bar>)"

definition print_general :: "fl \<Rightarrow> string" where
  "print_general v =
     (case v of
        Fin s m e \<Rightarrow>
          (if s then ''-'' else []) @
          (if m = 0 then ''0''
           else
             let (d, x) = six_digits (m * 2 ^ nat e) (2 ^ nat (- e))
             in if - 4 \<le> x \<and> x < 6 then strip_zeros (decimal (nat (5 - x)) d)
                else strip_zeros (decimal 5 d) @ print_exponent x)
      | Inf s \<Rightarrow> if s then ''-inf'' else ''inf''
      | NaN \<Rightarrow> ''nan'')"

section \<open>Events and requests\<close>

definition endl :: string where "endl = [CHR 0x0A]"

definition byte_text :: "u8 \<Rightarrow> string" where "byte_text b = to_string (uint b)"

definition bool_text :: "u8 \<Rightarrow> string" where "bool_text b = (if b \<noteq> 0 then ''1'' else ''0'')"

definition event_to_string :: "t_Event \<Rightarrow> string" where
  "event_to_string ev =
     (let d = data ev in
      ''WiperEvent: {'' @ endl @
      ''  sequenceCounter: 0x'' @ hex2 (sequenceCounter ev) @ endl @
      ''  ActualPosition: '' @ print_general (f32_decode (ActualPosition d)) @ endl @
      ''  DriveCurrent: '' @ print_general (f32_decode (DriveCurrent d)) @ endl @
      ''  ECUTemp: '' @ byte_text (ECUTemp d) @ endl @
      ''  isBlocked: '' @ bool_text (isBlocked d) @ endl @
      ''  isEndingWipeCycle: '' @ bool_text (isEndingWipeCycle d) @ endl @
      ''  isOverheated: '' @ bool_text (isOverheated d) @ endl @
      ''  isPositionReached: '' @ bool_text (isPositionReached d) @ endl @
      ''  isWiperError: '' @ bool_text (isWiperError d) @ endl @
      ''  isWiping: '' @ bool_text (isWiping d) @ endl @
      ''  LINError: '' @ byte_text (LINError d) @ endl @
      ''  TempGear: '' @ byte_text (TempGear d) @ endl @
      ''  isOverVoltage: '' @ bool_text (isOverVoltage d) @ endl @
      ''  isUnderVoltage: '' @ bool_text (isUnderVoltage d) @ endl @
      ''}'' @ endl)"

definition status_line :: "string \<Rightarrow> t_Event \<Rightarrow> string" where
  "status_line prefix ev =
     (let d = data ev in
      prefix @ ''|WiperEvent| Pos:'' @ print_fixed 8 4 (f32_decode (ActualPosition d)) @
      '', DC:'' @ print_fixed 5 2 (f32_decode (DriveCurrent d)) @
      '', Wiping:'' @ byte_text (isWiping d) @ '', CycEnd:'' @ byte_text (isEndingWipeCycle d) @
      '' PosReach:'' @ byte_text (isPositionReached d) @
      '', Block:'' @ byte_text (isBlocked d) @ '', Err:'' @ byte_text (isWiperError d) @
      '', LinErr:'' @ byte_text (LINError d) @ '', EcuTmp:'' @ hex2 (ECUTemp d) @
      '', GearTmp:'' @ hex2 (TempGear d) @ '', Seq:'' @ hex2 (sequenceCounter ev))"

definition print_status :: "string \<Rightarrow> t_Event \<Rightarrow> string" where
  "print_status prefix ev = status_line prefix ev @ endl"

definition print_status_r :: "string \<Rightarrow> t_Event \<Rightarrow> string" where
  "print_status_r prefix ev = [CHR 0x0D] @ status_line prefix ev @ [CHR 0x0D]"

definition vss_request_to_string :: "t_WiperRequest \<Rightarrow> string" where
  "vss_request_to_string r =
     ''WiperReq: { mode:'' @ wiper_mode_to_string (Mode r) @ '', freq:'' @ byte_text (Frequency r) @
     '', targetPos:'' @ print_general (f32_decode (TargetPosition r)) @ '' }''"

section \<open>Accuracy\<close>

lemma round_shift_error:
  "\<bar>real_of_int (round_shift m k) - real_of_int m / 2 ^ k\<bar> \<le> 1 / 2"
proof -
  define q where "q = m div 2 ^ k"
  define r where "r = m mod 2 ^ k"
  have m: "real_of_int m = real_of_int q * 2 ^ k + real_of_int r"
    using arg_cong [OF div_mult_mod_eq [of m "2 ^ k"], of real_of_int] by (simp add: q_def r_def)
  then have d: "real_of_int m / 2 ^ k = real_of_int q + real_of_int r / 2 ^ k" by (simp add: add_divide_distrib)
  have r0: "0 \<le> r" "r < 2 ^ k" by (simp_all add: r_def)
  show ?thesis
  proof (cases "2 ^ k < 2 * r \<or> (2 ^ k = 2 * r \<and> odd q)")
    case True
    then have "2 ^ k \<le> 2 * r" by auto
    then have "real_of_int (2 ^ k) \<le> real_of_int (2 * r)" "real_of_int r < real_of_int (2 ^ k)"
      using r0 by (simp_all only: of_int_le_iff of_int_less_iff)
    then have "1 / 2 \<le> real_of_int r / 2 ^ k" "real_of_int r / 2 ^ k \<le> 1" by (simp_all add: field_simps)
    moreover have rs: "real_of_int (round_shift m k) = real_of_int q + 1"
      using True by (simp add: round_shift_def q_def r_def Let_def)
    ultimately show ?thesis unfolding d rs by linarith
  next
    case False
    then have "2 * r \<le> 2 ^ k" by auto
    then have "real_of_int (2 * r) \<le> real_of_int (2 ^ k)" "0 \<le> real_of_int r"
      using r0 by (simp_all only: of_int_le_iff of_int_0_le_iff)
    then have "real_of_int r / 2 ^ k \<le> 1 / 2" "0 \<le> real_of_int r / 2 ^ k" by (simp_all add: field_simps)
    moreover have rs: "real_of_int (round_shift m k) = real_of_int q"
      using False by (simp add: round_shift_def q_def r_def Let_def)
    ultimately show ?thesis unfolding d rs by linarith
  qed
qed

text \<open>What \<open>%w.pf\<close> prints differs from the value by at most half a unit of the last digit.\<close>

lemma fixed_digits_error:
  "\<bar>real_of_int (fixed_digits p m e) - real_of_int m * 2 powi e * 10 ^ p\<bar> \<le> 1 / 2"
proof (cases "0 \<le> e")
  case True
  then show ?thesis by (simp add: fixed_digits_def power_int_def)
next
  case False
  then have "real_of_int m * 2 powi e * 10 ^ p = real_of_int (m * 10 ^ p) / 2 ^ nat (- e)"
    by (simp add: power_int_def power_inverse field_simps)
  then show ?thesis using round_shift_error [of "m * 10 ^ p" "nat (- e)"] False by (simp add: fixed_digits_def)
qed

lemma print_fixed_width: "w \<le> length (print_fixed w p x)"
  by (simp add: print_fixed_def pad_left_def)

text \<open>The digits of the default position 60, and of what the service reads of it.\<close>

lemma print_examples:
  "f32_decode 0x42700000 = Fin False 15728640 (- 18)" "fixed_digits 4 15728640 (- 18) = 600000"
  "f32_decode 0x00007042 = Fin False 28738 (- 149)" "six_digits 28738 (2 ^ 149) = (402705, - 41)"
  by code_simp+

end
