(* ===== verification/Spec2Isabelle.thy ===== *)
theory Spec2Isabelle
  imports Feeder_Main Feeder_Quiescence Event_Delivery Actuator_Delivery Adapter_Types Mapping_File Wiper_Client Wiper_Text
begin

text \<open>
  A verification development of the SOME/IP feeder (\<open>src/someip-feeder\<close>), the program that
  connects a SOME/IP network to the KUKSA data broker of a vehicle.

  \<^bold>\<open>The program.\<close> The SOME/IP client (\<open>lib/someip_client\<close>) wraps the vsomeip library:
  it offers, requests and subscribes services and hands every incoming message to a callback.
  The adapter (\<open>someip_feeder/someip_kuksa_adapter.cc\<close>) is that callback: following a JSON
  mapping file it decodes the payload of an event into VSS data points and feeds them to the
  broker feeder (\<open>lib/broker_feeder/data_broker_feeder.cc\<close>), whose thread registers the names
  with the broker and sends the queued values in batches. In the other direction the actuator
  subscriber (\<open>actuator_subscriber.cc\<close>) reads a stream of actuator changes from the broker and
  calls back into the adapter, which encodes them into request payloads and sends them through
  the SOME/IP client. The collector client (\<open>collector_client.cc\<close>) is the connection both
  broker threads share. \<open>main.cc\<close> reads options, environment and files, builds the adapter
  and runs it, or a loop of dummy data. \<open>lib/wiper_poc\<close> is the payload format of the wiper
  service that the examples under \<open>examples/wiper_service\<close> and the mapping file use.

  \<^bold>\<open>The theories.\<close> One theory per component, in the order of the calls.

  \<^item> \<open>Prelude\<close>: bytes and words, buffers with checked reads and writes (locale
    \<open>byte_buffer\<close>), errors as sums (\<open>ebind\<close>, folds that stop at an error), decimal text as
    \<open>std::to_string\<close> and \<open>std::stoi\<close> have it, reachability and invariants (locale
    \<open>invariant_system\<close>), systems whose steps descend until they are done (locale
    \<open>terminating_system\<close>, and \<open>bounded_system\<close> with a number of steps) and systems seen through one of their parts (locales \<open>simulation\<close>
    and \<open>simulation_invariant\<close>).
  \<^item> \<open>Wiper_Poc\<close>: \<open>wiper_poc.cc\<close>; the locale \<open>wire_codec\<close> of an encoder and a decoder,
    with the two codecs of the wiper as its interpretations.
  \<^item> \<open>Datapoint\<close>: the protobuf messages used and \<open>create_datapoint.h\<close>. The JSON library is
    a record of its operations; \<open>Json_Instance\<close> is a concrete one, for the witnesses.
  \<^item> \<open>Someip_Config\<close>: the configuration structures, \<open>getjsonConfig\<close>, the readers of the
    environment and \<open>createEnvConfig\<close> of \<open>someip_client.cc\<close>; \<open>Mapping_File\<close>: the format of
    the mapping file, with the locale \<open>json_file\<close> of the JSON constructors and accessors.
  \<^item> \<open>Someip_Client\<close>: the other members of \<open>someip_client.cc\<close>; the state is the record of
    members plus the log of calls into vsomeip.
  \<^item> \<open>Simple_Log\<close>: the log levels and macros of \<open>simple_log.h\<close>.
  \<^item> \<open>Collector_Client\<close>, with the locale \<open>connection\<close>; \<open>Broker_Feeder\<close> with the locale
    \<open>value_sink\<close>; \<open>Actuator_Subscriber\<close>.
  \<^item> \<open>Adapter_Codec\<close> (data types and payload access), \<open>Adapter_Actuator\<close>
    (\<open>on_actuator_change\<close>, locale \<open>request_sender\<close>), \<open>Adapter_Someip\<close>
    (\<open>on_someip_message\<close>, \<open>copyJsonValueType\<close>), \<open>Ieee\<close> (binary32 and binary64
    arithmetic by exact rational operations and rounding to nearest even), \<open>Adapter\<close> (set-up,
    \<open>Start\<close>, \<open>Shutdown\<close>, \<open>FeedDummyData\<close>), \<open>Adapter_Types\<close> (the data types of what is
    fed).
  \<^item> \<open>Feeder_System\<close>: the running program, its threads interleaved over the states of the
    parts, with the one collector client they share; \<open>Feeder_Shutdown\<close>: how it is shut down;
    \<open>Feeder_Quiescence\<close>: what holds at each point of \<open>Shutdown\<close> and after it.
  \<^item> \<open>Feeder_Delivery\<close>: the mailbox that the feeder implements, its specification, and that
    what is queued is delivered; \<open>Event_Delivery\<close>: the same for a SOME/IP message in the running
    program; \<open>Actuator_Delivery\<close>: that the subscriber thread sends what it has read.
  \<^item> \<open>Feeder_Main\<close>: \<open>main.cc\<close>.
  \<^item> \<open>Ieee_Rounding\<close>: the real value of a float, exactness of the operations before
    rounding, and that rounding never crosses a representable number.
  \<^item> \<open>Wiper_Sim\<close>: \<open>examples/wiper_service/wiper_sim.cc\<close>. \<open>Wiper_Service\<close> and
    \<open>Wiper_Server\<close>: the service of \<open>wiper_server.cc\<close> with its threads as executable actions,
    and its \<open>main\<close>. \<open>Wiper_Client\<close>: \<open>wiper_client.cc\<close>, and the two programs together.
    \<open>Wiper_Text\<close>: the texts of \<open>wiper_poc.cc\<close>, with the decimal output of floats.
  \<^item> This theory: what spans the components.

  \<^bold>\<open>Threads.\<close> The feeder, the subscriber, the SOME/IP client and the adapter are shared by
  threads. Their models are step relations over a record of the members and the program counters
  of the calls in progress; one step is one critical section, one test of an atomic flag or one
  call into a library; \<open>init\<close> of the SOME/IP client is two steps, setting its flag and making
  its registrations. Invariants are proved for every reachable state through the interpretations
  \<open>fd\<close>, \<open>sd\<close>, \<open>sc\<close> and \<open>ad\<close> of \<open>invariant_system\<close>. The models of the parts leave open
  what the others do; \<open>Feeder_System\<close> puts them together, and its interpretations \<open>sf\<close>,
  \<open>sb\<close> and \<open>sp\<close> of \<open>simulation_invariant\<close> carry over to the program what is proved of each part.
  The lemma \<open>main_starts_system\<close> below says that this is what \<open>main\<close> starts. History
  variables, marked as such, record what was sent so that the statements can speak of it: a value is
  recorded as accepted (\<open>acked\<close>) only if the request the broker accepted has it under the
  identifier of its name, and otherwise as one without identifier (\<open>unknown\<close>) or whose name shares
  its identifier with another of the batch (\<open>clashed\<close>).

  \<^bold>\<open>Errors.\<close> Exceptions, out-of-range accesses and conversions that are undefined in C++ are
  values of the error type of \<open>Prelude\<close>; a theorem that a handler is safe is a theorem that
  its result is not such a value.

  \<^bold>\<open>What is shown.\<close> No value fed is lost or overtaken by an older one in any interleaving,
  end to end from the SOME/IP message to the broker's acceptance
  (\<open>someip_message_reaches_broker\<close>, \<open>feeder_no_lost_update\<close>, \<open>feeder_sends_fresh\<close>); in
  the other direction the requests sent are those for the changes read, in order
  (\<open>actuator_changes_reach_someip\<close>). Both directions also make progress: while the broker serves
  the feeder thread, it delivers everything queued for names with identifiers of their own (\<open>feeder_delivers\<close>,
  \<open>someip_message_delivered\<close>), and the subscriber thread sends the requests for everything
  read (\<open>actuator_changes_are_sent\<close>). The feeder implements a mailbox
  (\<open>feeder_refines_mailbox\<close>); the program refines its parts
  (\<open>system_refines_parts\<close>); what is fed has the type it was registered with
  (\<open>fed_values_typed\<close>); both handlers of the adapter equal a declarative account of the nodes they concern and are safe
  when the configuration fits the payload; shutting down terminates, each part by itself and the
  whole program with its joins (\<open>system_shutdown_returns\<close>), after which no thread steps again
  (\<open>system_shutdown_quiescent\<close>), and the schedules in which it does
  not are stated as theorems; codecs round-trip up to the byte order the code has;
  every mapping file that can be written for a configuration is read back to it
  (\<open>getjsonConfig_roundtrip\<close>); options and environment are read as described.
  For the wiper example: a wipe ends at its target within a bounded number of steps, whatever the
  roundings; what each program sees of what the other sends; the notifications are the events of
  the simulation in order; and how the threads of the service stop, or fail to.

  \<^bold>\<open>Bounds and fuel.\<close> Integers that the code keeps at a width are words; \<open>float\<close> and
  \<open>double\<close> are their bit patterns. \<open>FeedDummyData\<close> takes fuel: its loop adds
  3.14 in single precision up to 110, and 37 tests of the condition always suffice, which
  \<open>FeedDummyData_ends\<close> proves. The bound 13 of the delivery theorems is the longest way of the
  feeder thread to its wait: a batch on its way while the other thread finds the connection lost,
  then a new connection and registration, another batch and the test of the queue.
  The bound 60525 of \<open>wipe_reaches_target\<close> comes from the slowest wipe, one cycle a minute over
  181 degrees with a step every millisecond: every step passes at least 196 multiples of
  \<open>2\<^sup>-\<^sup>1\<^sup>6\<close>, and three more steps end the cycle.

  \<^bold>\<open>Parameters.\<close> JsonCpp is a record of operations (\<open>J\<close>) with the hypothesis
  \<open>json_converts\<close> (a conversion to a kind the value reports does not throw) where a theorem
  needs it, and the laws of \<open>json_file\<close> for the round trip of the mapping file; gRPC replies and statuses, the file system, the environment, the clock and the object
  representation of a \<open>std::string\<close> are arguments or nondeterministic choices of a step. vsomeip
  is the log of the calls into it; \<open>Feeder_System\<close> uses of it that handlers are called between
  registration and \<open>clear_all_handler\<close>, and that \<open>start\<close> returns after a later \<open>stop\<close>. What
  it does with subscriptions is left open: \<open>someip_subscriptions\<close> is about the calls made.

  \<^bold>\<open>Not modelled.\<close> The log messages of the components, and the stubs generated from the protocol
  buffers. The rest of the C++ files is include lines, forward declarations, comments and code the
  preprocessor removes, and \<open>wiper_poc/wiper-ids.h\<close>, which no file includes; the cloud connector of the repository is a Python script around the Azure
  SDK.
  Of the wiper service \<open>notify_th_random\<close>, which the preprocessor removes, and
  \<open>on_availability_cb\<close>, which only prints, are left out.
\<close>

section \<open>From SOME/IP to the broker\<close>

lemma feed_all_steps: "feeder_active f \<Longrightarrow> feeder_step\<^sup>*\<^sup>* f (feed_all xs f)"
proof (induction xs arbitrary: f)
  case (Cons x xs)
  obtain n v where x: "x = (n, v)" by (cases x)
  have "feeder_step\<^sup>*\<^sup>* f (FeedValue n v f)"
    using FeedValue_steps [OF Cons.prems, of n v]
    by (rule rtranclp_into) (simp add: feeder_step_def)
  moreover have "feeder_step\<^sup>*\<^sup>* (FeedValue n v f) (feed_all xs (FeedValue n v f))"
    using Cons.IH [of "FeedValue n v f"] Cons.prems by (simp add: fs.feed_keeps_open)
  ultimately show ?case by (simp add: x feed_all_def)
qed (simp add: feed_all_def)

lemma feed_all_latest:
  "feeder_active f \<Longrightarrow> latest (feed_all xs f) = latest f ++ map_of (rev xs)"
proof (induction xs arbitrary: f)
  case (Cons x xs)
  obtain n v where x: "x = (n, v)" by (cases x)
  have "latest (feed_all (x # xs) f) = latest (FeedValue n v f) ++ map_of (rev xs)"
    using Cons.IH [of "FeedValue n v f"] Cons.prems by (simp add: x feed_all_def fs.feed_keeps_open)
  also have "latest (FeedValue n v f) = (latest f)(n \<mapsto> v)"
    using Cons.prems by (simp add: FeedValue_def)
  finally show ?case by (auto simp: x map_add_def fun_eq_iff split: option.split)
qed (simp add: feed_all_def)

section \<open>From the program to its threads\<close>

text \<open>
  What \<open>main\<close> starts is the system of \<open>Feeder_System\<close>: when the arguments, the token and the
  mapping are accepted, SOME/IP is available and the self pipe is set up and can be read, the program waits for a
  signal with three threads running on the initial states of their parts, of which the feeder and
  the subscriber share the collector client.
\<close>

lemma main_starts_system:
  fixes J :: "'j json"
  assumes "parse_args args (default_options (w_env W)) = Inr opts"
    and "load_token (w_stat W) (w_open_rw W) (token_file_str opts) = Inr token"
    and "createEnvConfig J (w_mapping W) (\<lambda>x. x) any_major any_minor (w_env W) = Inr config"
    and "someip_available (override_env opts (w_env W)) (w_exists W)" and "w_pipe W" and "w_fcntl W"
    and "\<forall>x \<in> set (w_signals W). \<not> signal_delivered (snd x)" and "w_read_fault W = None"
  shows "\<exists>a s. feeder_main J any_major any_minor W args = Waiting_for_signal a \<and>
    sys_init (override_config opts config) s \<and> ad_feeder a = Some (sys_feeder s) \<and>
    ad_subscriber a = Some (sys_sub s) \<and> ad_someip a = Some (sys_someip s) \<and> ad_collector a = Some (client (sys_feeder s)) \<and>
    ad_feeder_thread a = Joinable \<and> ad_subscriber_thread a = Joinable \<and> ad_someip_thread a = Joinable"
proof -
  let ?E = "override_env opts (w_env W)"
  let ?c = "override_config opts config"
  let ?a = "snd (InitSomeipClient ?E (w_exists W) ?c
    (snd (InitDataBrokerFeeder ?E (target_str opts) token ?c (new_adapter (w_env W)))))"
  let ?s = "new_system (new_CollectorClient ?E (target_str opts) token) ?c"
  have m: "feeder_main J any_major any_minor W args = Waiting_for_signal (adapter_Start ?a)"
    using assms by (simp add: feeder_main_def main_body_def case_prod_beta InitSomeipClient_ok AdapterRun_eq Let_def)
  obtain f where "?E ''VSOMEIP_CONFIGURATION'' = Some f" "w_exists W f" "?E ''VSOMEIP_APPLICATION_NAME'' \<noteq> None"
    using assms(4) by (auto simp: someip_available_def split: option.splits)
  then have "ad_someip ?a = Some (new_SomeIPClient ?c)" "ad_someip_active ?a"
    by (auto simp: InitSomeipClient_def Let_def)
  moreover have "ad_feeder ?a = Some (sys_feeder ?s)" "ad_subscriber ?a = Some (sys_sub ?s)"
    "ad_collector ?a = Some (client (sys_feeder ?s))"
    by (simp_all add: InitSomeipClient_def InitDataBrokerFeeder_def new_system_def new_feeder_def Let_def)
  ultimately show ?thesis
    unfolding m
    by (intro exI [of _ "adapter_Start ?a"] exI [of _ ?s])
      (auto simp: adapter_Start_def sys_init_def new_system_def Let_def)
qed

section \<open>Round trips between the two directions\<close>

lemma put_results:
  fixes n :: "'j VSSNode" and buf :: bytes
  assumes "unat (byteOffset n) + 4 \<le> length buf"
  defines "q bs \<equiv> take (unat (byteOffset n)) buf @ bs @ drop (unat (byteOffset n) + length bs) buf"
  shows "put_value so n UINT8 (K_uint32 w) buf = Inr (q [ucast w])"
    and "put_value so n BOOL (K_bool b) buf = Inr (q [if b then 1 else 0])"
    and "put_value so (n\<lparr>node_length := 4\<rparr>) UINT32 (K_uint32 w) buf = Inr (q (le_bytes 4 w))"
    and "put_value so (n\<lparr>node_length := 2\<rparr>) UINT16 (K_uint32 w) buf = Inr (q (le_bytes 2 (ucast w :: u16)))"
    and "put_value so n FLOAT (K_float w) buf = Inr (q (le_bytes 4 w))"
    and "put_value so n INT8 (K_int32 w) buf = Inr (q [ucast w])"
    and "put_value so (n\<lparr>node_length := 2\<rparr>) INT16 (K_int32 w) buf = Inr (q (le_bytes 2 (ucast w :: u16)))"
    and "4 \<le> length (so t) \<Longrightarrow> put_value so (n\<lparr>node_length := 4\<rparr>) STRING (K_string t) buf = Inr (q (take 4 (so t)))"
  using assms
  by (simp_all add: put_value_def put_byte_Inr obj_copy_ok buf_write_def float_to_bytes_def Let_def)

lemma get_results:
  fixes n :: "'j VSSNode" and buf :: bytes
  assumes "unat (byteOffset n) + 4 \<le> length buf" and "length buf \<le> 6"
  defines "q bs \<equiv> take (unat (byteOffset n)) buf @ bs @ drop (unat (byteOffset n) + length bs) buf"
  shows "decode_type n UINT8 (q [x]) v = Inr (uint x, createDatapoint_uint32 (ucast x), True)"
    and "decode_type n BOOL (q [x]) v = Inr (uint x, createDatapoint_bool (x \<noteq> 0), True)"
    and "decode_type n UINT32 (q (le_bytes 4 w)) v = Inr (sint w, createDatapoint_uint32 w, True)"
    and "decode_type n UINT16 (q (le_bytes 2 (y :: u16))) v = (let z = be_word (le_bytes 2 y) :: u16
       in Inr (uint z, createDatapoint_uint32 (ucast z), True))"
    and "decode_type n FLOAT (q (le_bytes 4 w)) v =
      ebind (f32_to_int (bswap32 w)) (\<lambda>i. Inr (i, createDatapoint_float (bswap32 w), True))"
    and "decode_type n INT8 (q [x]) v = Inr (sint x, createDatapoint_int32 (scast x), True)"
    and "decode_type n INT16 (q (le_bytes 2 (y :: u16))) v = (let z = be_word (le_bytes 2 y) :: u16
       in Inr (sint z, createDatapoint_int32 (scast z), True))"
    and "length bs = 4 \<Longrightarrow> decode_type (n\<lparr>node_length := 4\<rparr>) STRING (q bs) v =
      Inr (0, createDatapoint_string (string_of_bytes bs), True)"
proof -
  let ?o = "unat (byteOffset n)"
  have len: "length (q bs) = length buf" and sl: "take (length bs) (drop ?o (q bs)) = bs"
    if "length bs \<le> 4" for bs
    using that assms(1) by (simp_all add: q_def min_def)
  have at: "q [x] ! ?o = x" for x using assms(1) by (simp add: q_def nth_append min_def)
  show "decode_type n UINT8 (q [x]) v = Inr (uint x, createDatapoint_uint32 (ucast x), True)"
    and "decode_type n BOOL (q [x]) v = Inr (uint x, createDatapoint_bool (x \<noteq> 0), True)"
    and "decode_type n INT8 (q [x]) v = Inr (sint x, createDatapoint_int32 (scast x), True)"
    using at len [of "[x]"] assms(1) by (simp_all add: decode_type_def)
  have s4: "take 4 (drop ?o (q (le_bytes 4 w))) = le_bytes 4 w" "?o + 4 \<le> length (q (le_bytes 4 w))"
    using sl [of "le_bytes 4 w"] len [of "le_bytes 4 w"] assms(1) by simp_all
  then show "decode_type n UINT32 (q (le_bytes 4 w)) v = Inr (sint w, createDatapoint_uint32 w, True)"
    by (simp add: decode_type_def le_word_le_bytes_full Let_def)
  have "bytes_to_float (le_bytes 4 w) = bswap32 w"
    by (simp add: bytes_to_float_def bswap32_def le_bytes_def eval_nat_numeral)
  with s4 show "decode_type n FLOAT (q (le_bytes 4 w)) v =
      ebind (f32_to_int (bswap32 w)) (\<lambda>i. Inr (i, createDatapoint_float (bswap32 w), True))"
    by (simp add: decode_type_def Let_def)
  have "take 2 (drop ?o (q (le_bytes 2 y))) = le_bytes 2 y" "?o + 2 \<le> length (q (le_bytes 2 y))"
    "length (q (le_bytes 2 y)) < 2 ^ 64"
    using sl [of "le_bytes 2 y"] len [of "le_bytes 2 y"] assms(1,2) by simp_all
  then show "decode_type n UINT16 (q (le_bytes 2 y)) v = (let z = be_word (le_bytes 2 y) :: u16
       in Inr (uint z, createDatapoint_uint32 (ucast z), True))"
    and "decode_type n INT16 (q (le_bytes 2 y)) v = (let z = be_word (le_bytes 2 y) :: u16
       in Inr (sint z, createDatapoint_int32 (scast z), True))"
    by (simp_all add: decode_type_def read_u16_be Let_def)
  show "decode_type (n\<lparr>node_length := 4\<rparr>) STRING (q bs) v = Inr (0, createDatapoint_string (string_of_bytes bs), True)"
    if "length bs = 4"
    using sl [of bs] len [of bs] that assms(1) by (simp add: decode_type_def bytes_to_ascii_string_def)
qed

section \<open>Properties\<close>

text \<open>
  C1. End to end from a SOME/IP message to the broker: a message handled while the feeder is in
  service leads to a state the feeder can be in, in which the newest value of every name the
  message carries is the one decoded last for it; and in every state any threads can reach from
  there without another shutdown or newer value, that value is queued, being sent with nothing
  newer queued, was carried by a request that the broker accepted, under the identifier of its name,
  or was left out of one because its name had no identifier, or shared it with another name of the
  batch.
\<close>

theorem someip_message_reaches_broker:
  assumes "reach feeder_init feeder_step f" and "feeder_active f"
    and "on_someip_message J config svc inst m p f = Inr (rc, f')"
    and "node_values J p (event_nodes config svc inst m) = Inr xs" and "map_of (rev xs) n = Some v"
  shows "reach feeder_init feeder_step f' \<and> latest f' n = Some v \<and>
    (\<forall>g. feeder_step\<^sup>*\<^sup>* f' g \<and> latest g n = Some v \<longrightarrow>
      map_of (stored_values g) n = Some v \<or>
      (map_of (stored_values g) n = None \<and> in_flight g n = Some v) \<or> (n, v) \<in> acked g \<union> unknown g \<union> clashed g)"
proof -
  have f': "f' = feed_all xs f" using assms(3,4) by (simp add: on_someip_message_values)
  have r: "reach feeder_init feeder_step f'"
    unfolding f' by (rule reach_steps [OF feed_all_steps [OF assms(2)] assms(1)])
  have "no_loss g" if "feeder_step\<^sup>*\<^sup>* f' g" for g
    using fd.reach_inv [OF reach_steps [OF that r]] by (simp add: feeder_inv_def)
  then show ?thesis
    using r assms(5) by (auto simp: no_loss_def f' feed_all_latest [OF assms(2)])
qed

theorem someip_message_reaches_broker_witness:
  "latest (feed_all [(''Vehicle.Speed'', createDatapoint_uint32 0x1234),
      (''Vehicle.Mode'', createDatapoint_string ''WIPE'')] fresh_feeder) ''Vehicle.Speed'' =
    Some (createDatapoint_uint32 0x1234)"
proof -
  have "reach feeder_init feeder_step fresh_feeder"
    by (rule reach_init) (auto simp: feeder_init_def fresh_feeder_def)
  moreover have "feeder_active fresh_feeder" by (simp add: fresh_feeder_def new_feeder_def)
  moreover have "node_values jv_json [0x12, 0x34, 2] (event_nodes (ev_config ev_sample) 0x60D0 1 0x8001) =
      Inr [(''Vehicle.Speed'', createDatapoint_uint32 0x1234), (''Vehicle.Mode'', createDatapoint_string ''WIPE'')]"
    by (simp add: ev_sample_nodes ev_sample_values)
  ultimately show ?thesis
    using someip_message_reaches_broker [OF _ _ ev_sample_message, of _ "''Vehicle.Speed''" "createDatapoint_uint32 0x1234"]
    by simp
qed

text \<open>
  C23. The two directions of the adapter do not agree on the representation. For each of the eight
  types that both directions handle, what comes back when a value is written into a request for a
  node and read back as an event with the same node: 8-bit values, signed and unsigned, come back cut
  to their 8 bits, 32-bit unsigned values and booleans unchanged; 16-bit values, signed and
  unsigned, and \<open>float\<close> come back with their bytes reversed; of a text not the characters come back
  but the first bytes of the object that holds it.
\<close>

theorem actuator_event_roundtrip:
  assumes "unat (byteOffset n) + 4 \<le> length buf" and "length buf \<le> 6" and "4 \<le> length (so t)"
  shows "ebind (put_value so n UINT8 (K_uint32 w) buf) (\<lambda>p. decode_type n UINT8 p v) =
      Inr (uint (ucast w :: u8), createDatapoint_uint32 (ucast (ucast w :: u8)), True) \<and>
    ebind (put_value so n INT8 (K_int32 w) buf) (\<lambda>p. decode_type n INT8 p v) =
      Inr (sint (ucast w :: u8), createDatapoint_int32 (scast (ucast w :: u8)), True) \<and>
    ebind (put_value so n BOOL (K_bool b) buf) (\<lambda>p. decode_type n BOOL p v) =
      Inr (if b then 1 else 0, createDatapoint_bool b, True) \<and>
    ebind (put_value so (n\<lparr>node_length := 4\<rparr>) UINT32 (K_uint32 w) buf) (\<lambda>p. decode_type n UINT32 p v) =
      Inr (sint w, createDatapoint_uint32 w, True) \<and>
    ebind (put_value so (n\<lparr>node_length := 2\<rparr>) UINT16 (K_uint32 w) buf) (\<lambda>p. decode_type n UINT16 p v) =
      (let x = be_word (le_bytes 2 (ucast w :: u16))
       in Inr (uint (x :: u16), createDatapoint_uint32 (ucast x), True)) \<and>
    ebind (put_value so (n\<lparr>node_length := 2\<rparr>) INT16 (K_int32 w) buf) (\<lambda>p. decode_type n INT16 p v) =
      (let x = be_word (le_bytes 2 (ucast w :: u16))
       in Inr (sint (x :: u16), createDatapoint_int32 (scast x), True)) \<and>
    ebind (put_value so n FLOAT (K_float w) buf) (\<lambda>p. decode_type n FLOAT p v) =
      ebind (f32_to_int (bswap32 w)) (\<lambda>i. Inr (i, createDatapoint_float (bswap32 w), True)) \<and>
    ebind (put_value so (n\<lparr>node_length := 4\<rparr>) STRING (K_string t) buf)
        (\<lambda>p. decode_type (n\<lparr>node_length := 4\<rparr>) STRING p v) =
      Inr (0, createDatapoint_string (string_of_bytes (take 4 (so t))), True)"
proof -
  have l: "length (take 4 (so t)) = 4" using assms(3) by simp
  show ?thesis
    unfolding put_results [OF assms(1)] put_results(8) [OF assms(1), where so = so, OF assms(3)] ebind.simps
      get_results [OF assms(1,2)] get_results(8) [OF assms(1,2) l]
    by (simp add: Let_def)
qed

theorem actuator_event_roundtrip_witness:
  "ebind (put_value (\<lambda>_. [1, 2, 3, 4]) (act_node ''uint16'' 0 2) UINT16 (K_uint32 0x1234) [0, 0, 0, 0, 0, 0])
     (\<lambda>p. decode_type (act_node ''uint16'' 0 2) UINT16 p empty_Datapoint) =
    Inr (0x3412, createDatapoint_uint32 0x3412, True)"
proof -
  have "be_word (le_bytes 2 (0x1234 :: u16)) = (0x3412 :: u16)" by (simp add: be_word_def le_bytes_2)
  moreover have "(act_node ''uint16'' 0 2)\<lparr>node_length := 2\<rparr> = act_node ''uint16'' 0 2" by (simp add: act_node_def)
  moreover have "unat (byteOffset (act_node ''uint16'' 0 2)) + 4 \<le> length [0, 0, 0, 0, 0, 0 :: u8]"
    and "length [0, 0, 0, 0, 0, 0 :: u8] \<le> 6" by (simp_all add: act_node_def)
  ultimately show ?thesis
    using actuator_event_roundtrip [of "act_node ''uint16'' 0 2" "[0, 0, 0, 0, 0, 0]" "\<lambda>_. [1, 2, 3, 4]" "''t''"
      "0x1234" empty_Datapoint False]
    by (simp add: Let_def)
qed

end
